(* ===== verification/Kernel_Prelude.thy ===== *)
theory Kernel_Prelude
  imports Main "HOL-Library.Word" "HOL-Library.Monad_Syntax"
begin

text \<open>
  Shared vocabulary of the development: the machine types of
  \<^verbatim>\<open>kernel/include/types.hh\<close>, the byte-addressed memory every pointer of the kernel
  reads and writes, aligned 32- and 64-bit accesses to it, and the lemmas about words and
  memory the component theories share. A computation that may panic, trap or not return has
  an \<open>option\<close> result: \<open>None\<close> stands for "control never comes back to the caller".
  The model is of the RISC-V build (plain \<^verbatim>\<open>char\<close> is unsigned, addresses are 64 bits wide,
  little-endian).
\<close>

unbundle bit_operations_syntax

section \<open>Machine types\<close>

type_synonym u8 = "8 word"
type_synonym u16 = "16 word"
type_synonym u32 = "32 word"
type_synonym u64 = "64 word"
type_synonym mem = "u64 \<Rightarrow> u8"

text \<open>Collections: \<open>mem_simps\<close> reads memory after a write, \<open>align_simps\<close> moves alignment to \<open>nat\<close>.\<close>

named_theorems mem_simps
named_theorems align_simps

section \<open>Words and alignment\<close>

lemma and_mask_mod: "unat ((a::u64) AND mask n) = unat a mod 2 ^ n"
proof -
  have "unat (a AND mask n) = take_bit n (unat a)"
    by (simp flip: take_bit_eq_mask add: unsigned_take_bit_eq)
  then show ?thesis by (simp add: take_bit_eq_mod)
qed

lemma and_7_mod [align_simps]: "(a::u64) AND 7 = 0 \<longleftrightarrow> unat a mod 8 = 0"
proof -
  have "(7::u64) = mask 3" by (simp add: mask_eq_exp_minus_1)
  then have "unat (a AND 7) = unat a mod 8"
    using and_mask_mod [of a 3] by simp
  then show ?thesis by (metis unat_eq_zero)
qed

lemma unat_and_4095: "unat ((a::u64) AND 4095) = unat a mod 4096"
proof -
  have "(4095::u64) = mask 12" by (simp add: mask_eq_exp_minus_1)
  then show ?thesis using and_mask_mod [of a 12] by simp
qed

lemma and_4095_mod [align_simps]: "(a::u64) AND 4095 = 0 \<longleftrightarrow> unat a mod 4096 = 0"
  by (metis unat_and_4095 unat_eq_zero)

lemma word_diff_ge_8:
  "unat (a::u64) mod 8 = 0 \<Longrightarrow> unat b mod 8 = 0 \<Longrightarrow> a \<noteq> b \<Longrightarrow> 8 \<le> b - a"
proof (rule ccontr)
  assume a: "unat a mod 8 = 0" "unat b mod 8 = 0" "a \<noteq> b" "\<not> 8 \<le> b - a"
  then have "unat (b - a) < 8" and "unat (b - a) \<noteq> 0"
    by (simp_all add: word_le_nat_alt unat_eq_zero)
  moreover have "unat (b - a) mod 8 = 0" using a(1,2)
    by (simp add: unat_sub_if') presburger
  ultimately show False by simp
qed

lemma unat_less_2p: "unat (x::u64) < 2 ^ 64"
  using unsigned_less [of x, where ?'a = nat] by simp

lemma word_Suc_neq_0: "(k::'a::len word) < n \<Longrightarrow> 1 + k \<noteq> 0"
proof
  assume kn: "k < n" and "1 + k = 0"
  then have "k = - 1" by (simp add: eq_neg_iff_add_eq_0 add.commute)
  with kn show False by (simp add: word_order.extremum_strict)
qed

lemma unat_Suc_less: "(k::'a::len word) < n \<Longrightarrow> unat (k + 1) = Suc (unat k)"
  using word_Suc_neq_0 [of k n] by (simp add: unatSuc add.commute)

lemma word_minus_Suc_less: "(k::'a::len word) < n \<Longrightarrow> unat (n - (k + 1)) < unat (n - k)"
  using unat_Suc_less [of k n] by (simp add: unat_sub_if' word_less_nat_alt)

lemma word_add_cancel_less: "(b::u64) - s < n \<Longrightarrow> unat (n - (b + 1 - s)) < unat (n - (b - s))"
  using word_minus_Suc_less [of "b - s" n] by (simp add: algebra_simps)

lemma unat_drop_bit_1: "unat (drop_bit (Suc 0) (y::u64)) = unat y div 2"
  by (simp add: drop_bit_Suc unat_div)

lemma unat_drop_bit_1_less: "(y::u64) \<noteq> 0 \<Longrightarrow> unat (drop_bit (Suc 0) y) < unat y"
  unfolding unat_drop_bit_1 by (simp add: unat_gt_0)

lemma word_eq_offset: "k < 2 ^ 64 \<Longrightarrow> (x::u64) = d + of_nat k \<longleftrightarrow> unat (x - d) = k"
proof -
  assume "k < 2 ^ 64"
  then have "unat (of_nat k :: u64) = k" by (simp add: unat_of_nat)
  then have "x - d = of_nat k \<longleftrightarrow> unat (x - d) = k" by (metis of_nat_unat ucast_id)
  then show ?thesis by (auto simp: algebra_simps)
qed

lemma word_offset_collide:
  fixes src dst x :: u64
  assumes "src + (x - dst) = dst + of_nat k" and "unat (x - dst) < k" and "k < unat (src - dst)"
  shows False
proof -
  have k: "k < 2 ^ 64" using assms(3) unat_less_2p [of "src - dst"] by linarith
  have "src - dst + (x - dst) = of_nat k" using assms(1) by (simp add: algebra_simps)
  then have "unat (src - dst + (x - dst)) = k" using k by (simp add: unat_of_nat)
  then have "(unat (src - dst) + unat (x - dst)) mod 2 ^ 64 = k"
    using unat_word_ariths(1) [of "src - dst" "x - dst"] by simp
  then show ?thesis
    using assms(2,3) unat_less_2p [of "src - dst"] k
    by (cases "unat (src - dst) + unat (x - dst) < 2 ^ 64")
       (auto simp: le_mod_geq not_less)
qed

lemma word_offset_ahead:
  fixes src out x j :: u64
  assumes "src + (x - out) = j" and "unat (j - out) < unat (x - out)" and "x - out < n" and "n \<le> out - src"
  shows False
proof -
  have "out - src + (j - out) = x - out" using assms(1) by (simp add: algebra_simps)
  then have "(unat (out - src) + unat (j - out)) mod 2 ^ 64 = unat (x - out)"
    using unat_word_ariths(1) [of "out - src" "j - out"] by simp
  then show False
    using assms(2-4) unat_less_2p [of "out - src"] unat_less_2p [of "j - out"]
    by (cases "unat (out - src) + unat (j - out) < 2 ^ 64")
       (auto simp: le_mod_geq not_less word_le_nat_alt word_less_nat_alt)
qed

lemma unat_max_word: "unat (- 1 :: u64) = 2 ^ 64 - 1"
  by (simp add: unsigned_minus_1_eq_mask mask_eq_exp_minus_1)

lemma unat_ucast_32_64 [simp]: "unat (ucast (w::u32) :: u64) = unat w"
proof -
  have "unat w < 2 ^ 32" using unsigned_less [of w, where ?'a = nat] by simp
  then show ?thesis by (simp add: unsigned_ucast_eq take_bit_nat_eq_self)
qed

lemma odd_unat_iff: "odd (unat (y::u64)) \<longleftrightarrow> odd y"
  by (metis bit_0 bit_unsigned_iff possible_bit_nat)

lemma ucast_32_64_inj [simp]: "(ucast (a::u32) :: u64) = ucast b \<longleftrightarrow> a = b"
  by (metis unat_ucast_32_64 word_unat_eq_iff)

lemma word_pred_less: "(x::u64) \<noteq> 0 \<Longrightarrow> \<not> x \<le> x - 1"
  using measure_unat [of x] by (simp add: word_le_nat_alt)

lemma unat_add_of_nat: "unat (p::u64) + k < 2 ^ 64 \<Longrightarrow> unat (p + of_nat k) = unat p + k"
proof -
  assume a: "unat p + k < 2 ^ 64"
  then have "unat (of_nat k :: u64) = k" by (simp add: unat_of_nat)
  with a show ?thesis using unat_word_ariths(1) [of p "of_nat k"] by simp
qed

lemma page_room: "unat (x::u64) mod 4096 = 0 \<Longrightarrow> unat x + 4096 \<le> 2 ^ 64"
proof -
  assume "unat x mod 4096 = 0"
  then obtain k where k: "unat x = 4096 * k" by (metis dvdE mod_eq_0_iff_dvd)
  then have "k < 2 ^ 52" using unat_less_2p [of x] by simp
  with k show ?thesis by simp
qed

lemma sint_small: "unat (w::u64) < 2 ^ 63 \<Longrightarrow> sint w = int (unat w)"
proof -
  assume "unat w < 2 ^ 63"
  then have "uint w < 2 ^ 63" unfolding uint_nat by (metis of_nat_less_iff of_nat_numeral of_nat_power)
  then show ?thesis unfolding uint_nat [symmetric] by (simp add: sint_uint signed_take_bit_int_eq_self order.trans [OF _ uint_ge_0])
qed

lemma page_multiples_apart:
  "(x::nat) mod 4096 = 0 \<Longrightarrow> y mod 4096 = 0 \<Longrightarrow> x \<noteq> y \<Longrightarrow> x + 4096 \<le> y \<or> y + 4096 \<le> x"
  by (auto simp: mod_eq_0_iff_dvd elim!: dvdE)

section \<open>Memory\<close>

definition ld64 :: "mem \<Rightarrow> u64 \<Rightarrow> u64" where
  "ld64 m a = ucast (m a) OR push_bit 8 (ucast (m (a + 1)))
     OR push_bit 16 (ucast (m (a + 2))) OR push_bit 24 (ucast (m (a + 3)))
     OR push_bit 32 (ucast (m (a + 4))) OR push_bit 40 (ucast (m (a + 5)))
     OR push_bit 48 (ucast (m (a + 6))) OR push_bit 56 (ucast (m (a + 7)))"

definition st64 :: "mem \<Rightarrow> u64 \<Rightarrow> u64 \<Rightarrow> mem" where
  "st64 m a v = m(a := ucast v, a + 1 := ucast (drop_bit 8 v),
     a + 2 := ucast (drop_bit 16 v), a + 3 := ucast (drop_bit 24 v),
     a + 4 := ucast (drop_bit 32 v), a + 5 := ucast (drop_bit 40 v),
     a + 6 := ucast (drop_bit 48 v), a + 7 := ucast (drop_bit 56 v))"

definition ld32 :: "mem \<Rightarrow> u64 \<Rightarrow> u32" where
  "ld32 m a = ucast (m a) OR push_bit 8 (ucast (m (a + 1)))
     OR push_bit 16 (ucast (m (a + 2))) OR push_bit 24 (ucast (m (a + 3)))"

definition st32 :: "mem \<Rightarrow> u64 \<Rightarrow> u32 \<Rightarrow> mem" where
  "st32 m a v = m(a := ucast v, a + 1 := ucast (drop_bit 8 v),
     a + 2 := ucast (drop_bit 16 v), a + 3 := ucast (drop_bit 24 v))"

lemma bit_byte_of:
  "n < 64 \<Longrightarrow> bit (push_bit k (ucast (ucast (drop_bit k (v::u64)) :: u8)) :: u64) n
     \<longleftrightarrow> k \<le> n \<and> n < k + 8 \<and> bit v n"
  by (auto simp: bit_simps)

lemma bit_low_byte:
  "n < 64 \<Longrightarrow> bit (ucast (ucast (v::u64) :: u8) :: u64) n \<longleftrightarrow> n < 8 \<and> bit v n"
  by (auto simp: bit_simps)

lemma ld64_st64_same [simp, mem_simps]: "ld64 (st64 m a v) a = v"
proof (rule bit_word_eqI)
  fix n assume "n < LENGTH(64)"
  then have n: "n < 64" by simp
  then have "n < 8 \<or> 8 \<le> n \<and> n < 16 \<or> 16 \<le> n \<and> n < 24 \<or> 24 \<le> n \<and> n < 32 \<or>
      32 \<le> n \<and> n < 40 \<or> 40 \<le> n \<and> n < 48 \<or> 48 \<le> n \<and> n < 56 \<or> 56 \<le> n"
    by linarith
  with n show "bit (ld64 (st64 m a v) a) n = bit v n"
    unfolding ld64_def st64_def by (simp add: bit_or_iff bit_byte_of bit_low_byte) linarith
qed

lemma st64_other: "8 \<le> b - a \<Longrightarrow> st64 m a v b = m b"
  unfolding st64_def by (auto simp: word_le_nat_alt)

lemma ld64_cong: "(\<And>k. k < 8 \<Longrightarrow> m (a + k) = m' (a + k)) \<Longrightarrow> ld64 m a = ld64 m' a"
proof -
  assume eq: "\<And>k. k < 8 \<Longrightarrow> m (a + k) = m' (a + k)"
  have "m a = m' a" "m (a + 1) = m' (a + 1)" "m (a + 2) = m' (a + 2)" "m (a + 3) = m' (a + 3)"
    "m (a + 4) = m' (a + 4)" "m (a + 5) = m' (a + 5)" "m (a + 6) = m' (a + 6)"
    "m (a + 7) = m' (a + 7)"
    using eq [of 0] eq [of 1] eq [of 2] eq [of 3] eq [of 4] eq [of 5] eq [of 6] eq [of 7]
    by simp_all
  then show ?thesis by (simp add: ld64_def)
qed

lemma word_diff_add_ge_8:
  fixes a b k :: u64
  assumes al: "unat a mod 8 = 0" "unat b mod 8 = 0" and ne: "a \<noteq> b" and k: "k < 8"
  shows "8 \<le> b + k - a"
proof -
  have ge: "8 \<le> b - a" using word_diff_ge_8 [OF al ne] .
  have "unat (b - a) mod 8 = 0" using al
    by (simp add: unat_sub_if') presburger
  moreover have "unat (b - a) < 2 ^ 64" using unsigned_less [of "b - a", where ?'a = nat] by simp
  ultimately have "unat (b - a) + unat k < 2 ^ 64"
    using k by (simp add: word_less_nat_alt) presburger
  then have "unat (b - a + k) = unat (b - a) + unat k"
    by (simp add: unat_word_ariths)
  with ge have "8 \<le> b - a + k" by (simp add: word_le_nat_alt)
  then show ?thesis by (simp add: algebra_simps)
qed

lemma ld64_st64_other [mem_simps]:
  "unat a mod 8 = 0 \<Longrightarrow> unat b mod 8 = 0 \<Longrightarrow> a \<noteq> b \<Longrightarrow> ld64 (st64 m a v) b = ld64 m b"
  by (rule ld64_cong) (simp add: st64_other word_diff_add_ge_8)

lemma ld64_st64:
  "unat a mod 8 = 0 \<Longrightarrow> unat b mod 8 = 0 \<Longrightarrow>
     ld64 (st64 m a v) b = (if a = b then v else ld64 m b)"
  by (simp add: ld64_st64_other)

lemma ld64_byte_other [mem_simps]: "8 \<le> x - a \<Longrightarrow> ld64 (m(x := v)) a = ld64 m a"
  by (rule ld64_cong) auto

lemma unat_add_mod_8: "unat ((a::u64) + k) mod 8 = (unat a + unat k) mod 8"
proof -
  have "(unat a + unat k) mod 2 ^ 64 mod 8 = (unat a + unat k) mod 8"
    by (rule mod_mod_cancel) simp
  then show ?thesis by (simp add: unat_word_ariths)
qed

lemma unat_add_mod8 [align_simps]:
  "unat (a::u64) mod 8 = 0 \<Longrightarrow> unat k mod 8 = 0 \<Longrightarrow> unat (a + k) mod 8 = 0"
  unfolding unat_add_mod_8 by presburger

lemma page_aligned_mod8 [align_simps]: "unat (a::u64) mod 4096 = 0 \<Longrightarrow> unat a mod 8 = 0"
  by (auto simp: mod_eq_0_iff_dvd intro: dvd_trans [of 8 4096])

section \<open>Kernel results\<close>

text \<open>An \<^verbatim>\<open>assert\<close> of \<^verbatim>\<open>klib/common.hh\<close>: a failing one ends in \<^verbatim>\<open>Printer::panic_va\<close>, which loops forever.\<close>

definition kassert :: "bool \<Rightarrow> unit option" where
  "kassert b = (if b then Some () else None)"

lemma kassert_simps [simp]: "kassert True = Some ()" "kassert False = None"
  by (simp_all add: kassert_def)

lemma kassert_Some [simp]: "kassert b = Some u \<longleftrightarrow> b"
  by (simp add: kassert_def)

lemma bind_eq_SomeE:
  assumes "Option.bind x f = Some y"
  obtains z where "x = Some z" and "f z = Some y"
  using assms by (auto simp: bind_eq_Some_conv)

end
