(* ===== verification/Paths.thy ===== *)
theory Paths
  imports Kernel_Prelude
begin

text \<open>
  Directory entries and path lookup: \<^verbatim>\<open>kernel/fs/dentry.cc\<close>, \<^verbatim>\<open>dentrycache.cc\<close> and
  \<^verbatim>\<open>path.cc\<close>. Directory entries are the slots of the cache's pool, with their children, parent and
  inode. Inodes are opaque numbers; what a file system answers for one (its virtual functions
  \<^verbatim>\<open>lookup\<close>, \<^verbatim>\<open>mknode\<close>, \<^verbatim>\<open>mount\<close>, ..) is a parameter. \<open>None\<close> is a panic or a null
  pointer access; a null pointer that the code tests or returns is an \<open>option\<close> value.
\<close>

section \<open>Directory entries\<close>

record dentry =
  d_name :: string
  d_children :: "(string \<times> nat) list"
  d_node :: "nat option"
  d_parent :: "nat option"
  d_isroot :: bool
  d_refcnt :: int

definition mk_dentry :: "string \<Rightarrow> nat option \<Rightarrow> nat option \<Rightarrow> bool \<Rightarrow> dentry" where
  "mk_dentry name node parent isroot =
     \<lparr>d_name = name, d_children = [], d_node = node, d_parent = parent, d_isroot = isroot, d_refcnt = 0\<rparr>"

text \<open>
  The virtual file system: the pool of entries, its free list, the file system of an inode, root
  and mount point of a file system, which one is the root file system, and the mount table.
\<close>

record vfs =
  d_pool :: "nat \<Rightarrow> dentry"
  d_free :: "nat list"
  node_fs :: "nat \<Rightarrow> nat"
  fs_root :: "nat \<Rightarrow> nat option"
  fs_mnt :: "nat \<Rightarrow> nat option"
  fs_is_root :: "nat \<Rightarrow> bool"
  mnt_table :: "(string \<times> nat) list"

text \<open>Type and permission bits of a file, \<^verbatim>\<open>fs/file/file_defs.hh\<close>.\<close>

datatype file_type = FT_NONE | FT_PIPE | FT_DEVICE | FT_DIRECT | FT_NORMAL | FT_SYMLINK

record file_attrs =
  filetype :: file_type
  fa_value :: u16

record inode_ops =
  io_lookup :: "nat \<Rightarrow> string \<Rightarrow> nat option"
  io_mknode :: "nat \<Rightarrow> string \<Rightarrow> file_attrs \<Rightarrow> string \<Rightarrow> nat option"
  io_attr :: "nat \<Rightarrow> file_attrs"

definition set_dentry :: "vfs \<Rightarrow> nat \<Rightarrow> dentry \<Rightarrow> vfs" where
  "set_dentry v d e = v\<lparr>d_pool := (d_pool v)(d := e)\<rparr>"

definition MAX_DENTRY_NUM :: nat where "MAX_DENTRY_NUM = 40960"

definition dentryCache_init :: "vfs \<Rightarrow> vfs" where
  "dentryCache_init v = v\<lparr>d_free := d_free v @ [0..<MAX_DENTRY_NUM]\<rparr>"

definition allocDentry :: "vfs \<Rightarrow> (nat \<times> vfs) option" where
  "allocDentry v = (case d_free v of [] \<Rightarrow> None | d # ds \<Rightarrow> Some (d, v\<lparr>d_free := ds\<rparr>))"

definition dentry_isRoot :: "vfs \<Rightarrow> nat \<Rightarrow> bool option" where
  "dentry_isRoot v d = do { n \<leftarrow> d_node (d_pool v d); Some (fs_root v (node_fs v n) = Some d) }"

definition isMntPoint :: "vfs \<Rightarrow> nat \<Rightarrow> bool option" where
  "isMntPoint v d = do { n \<leftarrow> d_node (d_pool v d); Some (fs_mnt v (node_fs v n) = Some d) }"

definition getParent :: "vfs \<Rightarrow> nat \<Rightarrow> nat option" where "getParent v d = d_parent (d_pool v d)"

definition delete_child :: "vfs \<Rightarrow> nat \<Rightarrow> string \<Rightarrow> vfs" where
  "delete_child v d name =
     set_dentry v d ((d_pool v d)\<lparr>d_children := filter (\<lambda>e. fst e \<noteq> name) (d_children (d_pool v d))\<rparr>)"

definition add_child :: "vfs \<Rightarrow> nat \<Rightarrow> string \<Rightarrow> nat \<Rightarrow> vfs" where
  "add_child v d name c =
     set_dentry v d ((d_pool v d)\<lparr>d_children := (name, c) # filter (\<lambda>e. fst e \<noteq> name) (d_children (d_pool v d))\<rparr>)"

definition dup_dentry :: "vfs \<Rightarrow> nat \<Rightarrow> vfs" where
  "dup_dentry v d = set_dentry v d ((d_pool v d)\<lparr>d_refcnt := d_refcnt (d_pool v d) + 1\<rparr>)"

definition no_children :: "vfs \<Rightarrow> nat \<Rightarrow> bool" where
  "no_children v d \<longleftrightarrow> d_children (d_pool v d) = []"

partial_function (option) releaseDentryCache :: "vfs \<Rightarrow> nat \<Rightarrow> vfs option" where
  "releaseDentryCache v d =
     Option.bind (dentry_isRoot v d) (\<lambda>r.
     Option.bind (isMntPoint v d) (\<lambda>mp.
       if r \<or> mp then Some v
       else Option.bind
         (case getParent v d of
            None \<Rightarrow> Some v
          | Some p \<Rightarrow>
              let v = delete_child v p (d_name (d_pool v d))
              in if no_children v p \<and> d_refcnt (d_pool v p) \<le> 0 then releaseDentryCache v p else Some v)
         (\<lambda>v. Some (v\<lparr>d_free := d_free v @ [d]\<rparr>))))"

definition release_dentry :: "vfs \<Rightarrow> nat \<Rightarrow> vfs option" where
  "release_dentry v d =
     (let v = set_dentry v d ((d_pool v d)\<lparr>d_refcnt := d_refcnt (d_pool v d) - 1\<rparr>)
      in if d_refcnt (d_pool v d) \<le> 0 then releaseDentryCache v d else Some v)"

definition EntryCreate ::
  "inode_ops \<Rightarrow> vfs \<Rightarrow> nat \<Rightarrow> string \<Rightarrow> file_attrs \<Rightarrow> string \<Rightarrow> (nat option \<times> vfs) option" where
  "EntryCreate ops v d name attrs dev_name =
     (if name = [] then Some (None, v)
      else if map_of (d_children (d_pool v d)) name \<noteq> None then Some (None, v)
      else do {
        n \<leftarrow> d_node (d_pool v d);
        case io_mknode ops n name attrs dev_name of
          None \<Rightarrow> Some (None, v)
        | Some node \<Rightarrow> do {
            (c, v) \<leftarrow> allocDentry v;
            let v = set_dentry v c (mk_dentry name (Some node) (Some d) False);
            let v = dup_dentry v c;
            Some (Some c, add_child v d name c)
          }
      })"

text \<open>
  The file \<^verbatim>\<open>busybox_cmd.txt\<close> gets a fresh inode into which the code copies the contents of the one
  it found; inode contents are not part of this state.
\<close>

definition EntrySearch :: "inode_ops \<Rightarrow> vfs \<Rightarrow> nat \<Rightarrow> string \<Rightarrow> (nat option \<times> vfs) option" where
  "EntrySearch ops v d name =
     (case map_of (d_children (d_pool v d)) name of
        Some c \<Rightarrow> Some (Some c, v)
      | None \<Rightarrow> do {
          n \<leftarrow> d_node (d_pool v d);
          case io_lookup ops n name of
            None \<Rightarrow> Some (None, v)
          | Some sub \<Rightarrow>
              if name = ''busybox_cmd.txt'' then do {
                (c, v) \<leftarrow> EntryCreate ops v d name (io_attr ops sub) [];
                c \<leftarrow> c;
                Some (Some c, add_child v d name c)
              }
              else do {
                (c, v) \<leftarrow> allocDentry v;
                let v = set_dentry v c (mk_dentry name (Some sub) (Some d) False);
                Some (Some c, add_child v d name c)
              }
        })"

section \<open>Paths\<close>

record path =
  p_base :: "nat option"
  p_name :: string
  p_dirs :: "string list"

text \<open>
  One round of the scan: the array of start and length, the flag of a pending separator, the
  number of components completed, and the position.
\<close>

definition scan_step :: "char \<Rightarrow> (nat \<times> nat) list \<times> bool \<times> nat \<times> nat \<Rightarrow> (nat \<times> nat) list \<times> bool \<times> nat \<times> nat" where
  "scan_step c st =
     (case st of (ind, rep, dirnum, i) \<Rightarrow>
        if c = CHR ''/'' then
          if \<not> rep then (ind, True, Suc dirnum, Suc i) else (ind, rep, dirnum, Suc i)
        else
          let ind = ind[dirnum := (fst (ind ! dirnum), Suc (snd (ind ! dirnum)))]
          in if rep then (ind[dirnum := (i, snd (ind ! dirnum))], False, dirnum, Suc i)
             else (ind, rep, dirnum, Suc i))"

fun scan :: "string \<Rightarrow> (nat \<times> nat) list \<times> bool \<times> nat \<times> nat \<Rightarrow> (nat \<times> nat) list \<times> bool \<times> nat \<times> nat" where
  "scan [] st = st"
| "scan (c # cs) st = scan cs (scan_step c st)"

definition substr :: "string \<Rightarrow> nat \<Rightarrow> nat \<Rightarrow> string" where "substr s i n = take n (drop i s)"

definition dir_names :: "string \<Rightarrow> string list" where
  "dir_names s =
     (case scan s (replicate (length s) (0, 0), True, 0, 0) of (ind, rep, dirnum, _) \<Rightarrow>
        let dirnum = (if \<not> rep then Suc dirnum else dirnum)
        in map (\<lambda>i. substr s (fst (ind ! i)) (snd (ind ! i))) [0..<dirnum])"

text \<open>\<open>cwd\<close> is the working directory of the current process.\<close>

definition root_dentry :: "vfs \<Rightarrow> nat option" where
  "root_dentry v = do { f \<leftarrow> map_of (mnt_table v) ''/''; fs_root v f }"

definition pathbuild :: "vfs \<Rightarrow> nat \<Rightarrow> path \<Rightarrow> path option" where
  "pathbuild v cwd p =
     (if p_name p = [] then Some (p\<lparr>p_base := Some cwd\<rparr>)
      else do {
        base \<leftarrow> (if hd (p_name p) = CHR ''/'' then do { f \<leftarrow> map_of (mnt_table v) ''/''; Some (fs_root v f) }
                 else if p_base p = None then Some (Some cwd) else Some (p_base p));
        base \<leftarrow> base;
        Some (p\<lparr>p_base := Some base, p_dirs := dir_names (p_name p)\<rparr>)
      })"

definition mk_path :: "vfs \<Rightarrow> nat \<Rightarrow> string \<Rightarrow> nat option \<Rightarrow> path option" where
  "mk_path v cwd name base = pathbuild v cwd \<lparr>p_base = base, p_name = name, p_dirs = []\<rparr>"

partial_function (option) ancestor_names :: "vfs \<Rightarrow> nat \<Rightarrow> string list \<Rightarrow> string list option" where
  "ancestor_names v e names =
     Option.bind (dentry_isRoot v e) (\<lambda>r.
     Option.bind (d_node (d_pool v e)) (\<lambda>n.
       if r \<and> fs_is_root v (node_fs v n) then Some names
       else Option.bind (getParent v e) (\<lambda>p. ancestor_names v p (d_name (d_pool v e) # names))))"

text \<open>
  The loop that drops the dots: an erased element leaves the iterator at the element behind it.
\<close>

fun join_names :: "string list \<Rightarrow> string" where
  "join_names [] = []"
| "join_names (n # ns) =
     (if n = ''.'' \<or> n = ''..'' then join_names ns
      else if ns \<noteq> [] \<and> hd ns = ''..'' then join_names ns
      else CHR ''/'' # n @ join_names ns)"

definition AbsolutePath :: "vfs \<Rightarrow> path \<Rightarrow> string option" where
  "AbsolutePath v p =
     do {
       base \<leftarrow> p_base p;
       names \<leftarrow> ancestor_names v base (p_dirs p);
       let s = join_names names;
       Some (if s = [] then ''/'' else s)
     }"

fun longest_mount :: "(string \<times> nat) list \<Rightarrow> string \<Rightarrow> string \<Rightarrow> string" where
  "longest_mount [] s best = best"
| "longest_mount ((prefix, f) # tbl) s best =
     longest_mount tbl s
       (if length prefix \<le> length s \<and> length best < length prefix \<and> take (length prefix) s = prefix
        then prefix else best)"

definition pathHitTable :: "vfs \<Rightarrow> nat \<Rightarrow> path \<Rightarrow> (nat option \<times> path) option" where
  "pathHitTable v cwd p =
     do {
       s \<leftarrow> AbsolutePath v p;
       let prefix = longest_mount (mnt_table v) s [];
       if prefix = [] then Some (None, p)
       else do {
         f \<leftarrow> map_of (mnt_table v) prefix;
         let root = fs_root v f;
         let p = p\<lparr>p_base := root, p_name := drop (length prefix) s\<rparr>;
         if p_name p = [] then Some (root, p\<lparr>p_dirs := []\<rparr>)
         else do { p \<leftarrow> pathbuild v cwd p; Some (root, p) }
       }
     }"

fun search_names :: "inode_ops \<Rightarrow> vfs \<Rightarrow> bool \<Rightarrow> nat \<Rightarrow> string list \<Rightarrow> (nat option \<times> vfs) option" where
  "search_names ops v parent entry [] = Some (Some entry, v)"
| "search_names ops v parent entry (n # ns) =
     do {
       mp \<leftarrow> isMntPoint v entry;
       if mp then None
       else if parent \<and> ns = [] then Some (Some entry, v)
       else do {
         (nxt, v) \<leftarrow> (if n = ''.'' then Some (Some entry, v)
                      else if n = ''..'' then Some (getParent v entry, v)
                      else EntrySearch ops v entry n);
         case nxt of
           None \<Rightarrow> if n = ''..'' \<and> ns \<noteq> [] then None else Some (None, v)
         | Some e \<Rightarrow> search_names ops v parent e ns
       }
     }"

definition pathSearch :: "inode_ops \<Rightarrow> vfs \<Rightarrow> path \<Rightarrow> bool \<Rightarrow> (nat option \<times> vfs) option" where
  "pathSearch ops v p parent =
     (if p_name p = ''/'' then do { f \<leftarrow> map_of (mnt_table v) ''/''; Some (fs_root v f, v) }
      else case p_base p of
        None \<Rightarrow> Some (None, v)
      | Some base \<Rightarrow> search_names ops v parent base (p_dirs p))"

definition path_mount ::
  "inode_ops \<Rightarrow> (nat \<Rightarrow> nat \<Rightarrow> nat \<Rightarrow> string \<Rightarrow> vfs \<Rightarrow> (int \<times> vfs) option) \<Rightarrow> vfs \<Rightarrow> path \<Rightarrow> path \<Rightarrow> string \<Rightarrow>
   (int \<times> vfs) option" where
  "path_mount ops fs_mount v p dev fstype =
     do {
       (mntEnt, v) \<leftarrow> pathSearch ops v p False;
       (devEnt, v) \<leftarrow> pathSearch ops v dev False;
       case (devEnt, mntEnt) of
         (Some de, Some me) \<Rightarrow> do {
           n \<leftarrow> d_node (d_pool v me);
           (r, v) \<leftarrow> fs_mount (node_fs v n) de me fstype v;
           Some (if r = 0 then 0 else - 1, v)
         }
       | _ \<Rightarrow> Some (0, v)
     }"

definition path_umount ::
  "inode_ops \<Rightarrow> (nat \<Rightarrow> nat \<Rightarrow> vfs \<Rightarrow> (int \<times> vfs) option) \<Rightarrow> vfs \<Rightarrow> path \<Rightarrow> (int \<times> vfs) option" where
  "path_umount ops fs_umount v p =
     do {
       (mnt, v) \<leftarrow> pathSearch ops v p False;
       mnt \<leftarrow> mnt;
       parent \<leftarrow> getParent v mnt;
       n \<leftarrow> d_node (d_pool v parent);
       (r, v) \<leftarrow> fs_umount (node_fs v n) mnt v;
       if r = 0 then Some (0, v\<lparr>mnt_table := filter (\<lambda>e. fst e \<noteq> p_name p) (mnt_table v)\<rparr>)
       else Some (0, v)
     }"

section \<open>Splitting\<close>

fun split_slash :: "string \<Rightarrow> string list" where
  "split_slash [] = [[]]"
| "split_slash (c # cs) =
     (if c = CHR ''/'' then [] # split_slash cs
      else (c # hd (split_slash cs)) # tl (split_slash cs))"

text \<open>The reference: the non-empty parts between slashes.\<close>

definition components :: "string \<Rightarrow> string list" where
  "components s = filter (\<lambda>w. w \<noteq> []) (split_slash s)"

lemma split_slash_nonempty [simp]: "split_slash s \<noteq> []" by (cases s) auto

lemma split_slash_snoc:
  "split_slash (xs @ [c]) =
     (if c = CHR ''/'' then split_slash xs @ [[]]
      else butlast (split_slash xs) @ [last (split_slash xs) @ [c]])"
proof (induction xs)
  case (Cons x xs)
  then show ?case by (cases "split_slash xs") auto
qed simp

lemma scan_snoc: "scan (xs @ [c]) st = scan_step c (scan xs st)"
  by (induction xs arbitrary: st) simp_all

definition scanned :: "string \<Rightarrow> string \<Rightarrow> (nat \<times> nat) list \<times> bool \<times> nat \<times> nat \<Rightarrow> bool" where
  "scanned s xs st \<longleftrightarrow>
     (case st of (ind, rep, dirnum, i) \<Rightarrow>
        i = length xs \<and> length ind = length s \<and> dirnum + (if rep then 0 else 1) \<le> i \<and>
        filter (\<lambda>w. w \<noteq> []) (butlast (split_slash xs)) =
          map (\<lambda>k. substr s (fst (ind ! k)) (snd (ind ! k))) [0..<dirnum] \<and>
        (rep \<longleftrightarrow> last (split_slash xs) = []) \<and>
        (\<not> rep \<longrightarrow> fst (ind ! dirnum) + snd (ind ! dirnum) = i \<and>
           last (split_slash xs) = substr s (fst (ind ! dirnum)) (snd (ind ! dirnum))) \<and>
        (\<forall>k < length s. dirnum + (if rep then 0 else 1) \<le> k \<longrightarrow> ind ! k = (0, 0)))"

lemma substr_extend: "st + n < length s \<Longrightarrow> substr s st (Suc n) = substr s st n @ [s ! (st + n)]"
  by (simp add: substr_def take_Suc_conv_app_nth)

lemma scan_step_scanned:
  assumes inv: "scanned s xs st" and s: "s = xs @ c # ys"
  shows "scanned s (xs @ [c]) (scan_step c st)"
proof -
  obtain ind rep dirnum i where S: "st = (ind, rep, dirnum, i)" by (metis prod_cases4)
  let ?L = "split_slash xs" and ?sub = "\<lambda>ind k. substr s (fst (ind ! k)) (snd (ind ! k))"
  have I: "i = length xs" "length ind = length s" "dirnum + (if rep then 0 else 1) \<le> i"
    "filter (\<lambda>w. w \<noteq> []) (butlast ?L) = map (?sub ind) [0..<dirnum]" "rep \<longleftrightarrow> last ?L = []"
    "\<not> rep \<longrightarrow> fst (ind ! dirnum) + snd (ind ! dirnum) = i \<and> last ?L = ?sub ind dirnum"
    "\<forall>k < length s. dirnum + (if rep then 0 else 1) \<le> k \<longrightarrow> ind ! k = (0, 0)"
    using inv unfolding S scanned_def by auto
  have fil: "filter (\<lambda>w. w \<noteq> []) ?L = filter (\<lambda>w. w \<noteq> []) (butlast ?L) @ (if last ?L = [] then [] else [last ?L])"
    by (subst append_butlast_last_id [symmetric, of ?L]) (simp_all del: append_butlast_last_id)
  have dl: "dirnum < length s" "i < length s" using I(1,3) s by (auto split: if_splits)
  have si: "s ! i = c" using s I(1) by simp
  have z: "ind ! dirnum = (0, 0)" if rep using I(7) dl that by simp
  have keep: "map (?sub (ind[dirnum := x])) [0..<dirnum] = map (?sub ind) [0..<dirnum]" for x by simp
  consider (slash) "c = CHR ''/''" | (first) "c \<noteq> CHR ''/''" "rep" | (more) "c \<noteq> CHR ''/''" "\<not> rep" by blast
  then show ?thesis
  proof cases
    case slash
    have 1: "scan_step c st = (ind, True, if rep then dirnum else Suc dirnum, Suc i)"
      using slash by (simp add: S scan_step_def)
    have 2: "filter (\<lambda>w. w \<noteq> []) ?L = map (?sub ind) [0..<if rep then dirnum else Suc dirnum]"
      using I(4-6) fil by auto
    show ?thesis unfolding 1 scanned_def using I(1-3,7) 2 slash by (simp add: split_slash_snoc)
  next
    case first
    let ?ind = "ind[dirnum := (i, Suc 0)]"
    have 1: "scan_step c st = (?ind, False, dirnum, Suc i)"
      using first dl I(2) z by (simp add: S scan_step_def Let_def)
    have one: "substr s i (Suc 0) = [c]" using substr_extend [of i 0 s] dl si by (simp add: substr_def)
    have l: "last ?L = []" using I(5) first by simp
    have zz: "\<forall>k < length s. Suc dirnum \<le> k \<longrightarrow> ?ind ! k = (0, 0)" using I(7) first by simp
    show ?thesis unfolding 1 scanned_def
      using I(1-4) zz dl keep [of "(i, Suc 0)"] one l first by (simp add: split_slash_snoc)
  next
    case more
    let ?ind = "ind[dirnum := (fst (ind ! dirnum), Suc (snd (ind ! dirnum)))]"
    have 1: "scan_step c st = (?ind, False, dirnum, Suc i)" using more by (simp add: S scan_step_def Let_def)
    have e: "fst (ind ! dirnum) + snd (ind ! dirnum) = i" "last ?L = ?sub ind dirnum" using I(6) more by simp_all
    have x: "substr s (fst (ind ! dirnum)) (Suc (snd (ind ! dirnum))) = ?sub ind dirnum @ [c]"
      using substr_extend [of "fst (ind ! dirnum)" "snd (ind ! dirnum)" s] e dl si by simp
    have zz: "\<forall>k < length s. Suc dirnum \<le> k \<longrightarrow> ?ind ! k = (0, 0)" using I(7) more by simp
    show ?thesis unfolding 1 scanned_def
      using I(1-4) zz dl keep [of "(fst (ind ! dirnum), Suc (snd (ind ! dirnum)))"] x e more
      by (simp add: split_slash_snoc)
  qed
qed

lemma scan_scanned:
  "s = xs @ ys \<Longrightarrow> scanned s xs (scan xs (replicate (length s) (0, 0), True, 0, 0))"
proof (induction xs arbitrary: ys rule: rev_induct)
  case Nil
  then show ?case by (simp add: scanned_def)
next
  case (snoc c xs)
  then show ?case using scan_step_scanned [of s xs _ c ys] by (simp add: scan_snoc)
qed

lemma dir_names_components: "dir_names s = components s"
proof -
  obtain ind rep dirnum i where S: "scan s (replicate (length s) (0, 0), True, 0, 0) = (ind, rep, dirnum, i)"
    by (metis prod_cases4)
  have I: "scanned s s (ind, rep, dirnum, i)" using scan_scanned [of s s "[]"] S by simp
  let ?L = "split_slash s"
  have "filter (\<lambda>w. w \<noteq> []) ?L = filter (\<lambda>w. w \<noteq> []) (butlast ?L) @ (if last ?L = [] then [] else [last ?L])"
    by (subst append_butlast_last_id [symmetric, of ?L]) (simp_all del: append_butlast_last_id)
  then show ?thesis using I unfolding dir_names_def S components_def scanned_def by (cases rep) auto
qed

section \<open>Mount table\<close>

lemma longest_mount_props:
  "(longest_mount tbl s best = best \<or>
      (\<exists>f. (longest_mount tbl s best, f) \<in> set tbl) \<and> take (length (longest_mount tbl s best)) s = longest_mount tbl s best) \<and>
   length best \<le> length (longest_mount tbl s best) \<and>
   (\<forall>(p, f) \<in> set tbl. length p \<le> length s \<and> take (length p) s = p \<longrightarrow> length p \<le> length (longest_mount tbl s best))"
proof (induction tbl s best rule: longest_mount.induct)
  case (1 s best)
  then show ?case by simp
next
  case (2 prefix f tbl s best)
  let ?b = "if length prefix \<le> length s \<and> length best < length prefix \<and> take (length prefix) s = prefix then prefix else best"
  have r: "longest_mount ((prefix, f) # tbl) s best = longest_mount tbl s ?b" by simp
  show ?case
  proof (cases "length prefix \<le> length s \<and> length best < length prefix \<and> take (length prefix) s = prefix")
    case True
    then have b: "?b = prefix" by (rule if_P)
    show ?thesis using 2 True unfolding r b by auto
  next
    case False
    then have b: "?b = best" by (rule if_not_P)
    show ?thesis using 2 False unfolding r b by (auto simp: not_less intro: order_trans)
  qed
qed

section \<open>Children\<close>

lemma map_of_remove: "map_of (filter (\<lambda>e. fst e \<noteq> name) xs) n = (if n = name then None else map_of xs n)"
  by (induction xs) auto

lemma add_child_children:
  "map_of (d_children (d_pool (add_child v d name c) d)) n =
     (if n = name then Some c else map_of (d_children (d_pool v d)) n)"
  by (simp add: add_child_def set_dentry_def map_of_remove)

lemma EntryCreate_children:
  assumes "EntryCreate ops v d name attrs dev = Some (Some c, v')" and "d \<notin> set (d_free v)"
  shows "map_of (d_children (d_pool v' d)) n = (if n = name then Some c else map_of (d_children (d_pool v d)) n)"
proof -
  obtain node v1 where a: "allocDentry v = Some (c, v1)"
    and v': "v' = add_child (dup_dentry (set_dentry v1 c (mk_dentry name (Some node) (Some d) False)) c) d name c"
    using assms(1) by (auto simp: EntryCreate_def bind_eq_Some_conv Let_def split: if_splits option.splits)
  have "c \<noteq> d" "d_pool v1 = d_pool v" using a assms(2) by (auto simp: allocDentry_def split: list.splits)
  then show ?thesis unfolding v' add_child_children by (simp add: set_dentry_def dup_dentry_def)
qed

section \<open>Properties\<close>

text \<open>
  C20: the scan of \<^verbatim>\<open>pathbuild\<close>, with its array of offsets and lengths, computes the path components:
  the non-empty parts between slashes, in order, for every string.
\<close>

theorem pathbuild_components:
  assumes "pathbuild v cwd p = Some p'" and "p_name p \<noteq> []"
  shows "p_dirs p' = filter (\<lambda>w. w \<noteq> []) (split_slash (p_name p)) \<and> p_name p' = p_name p \<and>
    (hd (p_name p) = CHR ''/'' \<longrightarrow> p_base p' = root_dentry v) \<and>
    (hd (p_name p) \<noteq> CHR ''/'' \<longrightarrow> p_base p' = Some (case p_base p of None \<Rightarrow> cwd | Some b \<Rightarrow> b))"
  using assms dir_names_components [of "p_name p"]
  by (auto simp: pathbuild_def components_def root_dentry_def bind_eq_Some_conv split: if_splits option.splits)

theorem pathbuild_components_witness:
  "\<exists>p'. pathbuild \<lparr>d_pool = \<lambda>_. mk_dentry [] None None False, d_free = [], node_fs = \<lambda>_. 0, fs_root = \<lambda>_. Some 1,
      fs_mnt = \<lambda>_. None, fs_is_root = \<lambda>_. True, mnt_table = [(''/'', 0)]\<rparr> 7
      \<lparr>p_base = None, p_name = ''//a/bc/'', p_dirs = []\<rparr> = Some p' \<and>
    p_dirs p' = [''a'', ''bc''] \<and> p_base p' = Some 1"
proof -
  let ?v = "\<lparr>d_pool = \<lambda>_. mk_dentry [] None None False, d_free = [], node_fs = \<lambda>_. 0, fs_root = \<lambda>_. Some 1,
      fs_mnt = \<lambda>_. None, fs_is_root = \<lambda>_. True, mnt_table = [(''/'', 0)]\<rparr>"
  let ?p = "\<lparr>p_base = None, p_name = ''//a/bc/'', p_dirs = []\<rparr>"
  obtain p' where p': "pathbuild ?v 7 ?p = Some p'" by (simp add: pathbuild_def)
  from pathbuild_components [OF this] show ?thesis using p' by (simp add: root_dentry_def)
qed

text \<open>
  an entry once found stays found. When \<^verbatim>\<open>EntrySearch\<close> returns an entry, it is registered under its
  name in the directory, and repeating the search returns the same entry and changes nothing.
\<close>

theorem EntrySearch_caches:
  assumes "EntrySearch ops v d name = Some (Some c, v')" and "d \<notin> set (d_free v)"
  shows "map_of (d_children (d_pool v' d)) name = Some c \<and>
    EntrySearch ops v' d name = Some (Some c, v') \<and>
    (\<forall>n. n \<noteq> name \<longrightarrow> map_of (d_children (d_pool v' d)) n = map_of (d_children (d_pool v d)) n)"
proof -
  have "map_of (d_children (d_pool v' d)) name = Some c \<and>
      (\<forall>n. n \<noteq> name \<longrightarrow> map_of (d_children (d_pool v' d)) n = map_of (d_children (d_pool v d)) n)"
  proof (cases "map_of (d_children (d_pool v d)) name")
    case (Some c')
    with assms show ?thesis by (simp add: EntrySearch_def)
  next
    case None
    with assms obtain n sub where n: "d_node (d_pool v d) = Some n" and sub: "io_lookup ops n name = Some sub"
      by (auto simp: EntrySearch_def bind_eq_Some_conv split: option.splits)
    show ?thesis
    proof (cases "name = ''busybox_cmd.txt''")
      case True
      with None n sub assms(1) obtain v1 where
        e: "EntryCreate ops v d name (io_attr ops sub) [] = Some (Some c, v1)" and v': "v' = add_child v1 d name c"
        by (auto simp: EntrySearch_def bind_eq_Some_conv)
      show ?thesis using EntryCreate_children [OF e assms(2)] unfolding v' add_child_children by auto
    next
      case False
      with None n sub assms(1) obtain v1 where a: "allocDentry v = Some (c, v1)"
        and v': "v' = add_child (set_dentry v1 c (mk_dentry name (Some sub) (Some d) False)) d name c"
        by (auto simp: EntrySearch_def bind_eq_Some_conv Let_def)
      have "c \<noteq> d" "d_pool v1 = d_pool v" using a assms(2) by (auto simp: allocDentry_def split: list.splits)
      then show ?thesis unfolding v' add_child_children by (simp add: set_dentry_def)
    qed
  qed
  then show ?thesis by (simp add: EntrySearch_def)
qed

theorem EntrySearch_caches_witness:
  "\<exists>v c v'. EntrySearch \<lparr>io_lookup = \<lambda>n s. if s = ''bin'' then Some 5 else None, io_mknode = \<lambda>_ _ _ _. None, io_attr = \<lambda>_. \<lparr>filetype = FT_NORMAL, fa_value = 0x1ff\<rparr>\<rparr>
      v 0 ''bin'' = Some (Some c, v') \<and> map_of (d_children (d_pool v' 0)) ''bin'' = Some c \<and>
    EntrySearch \<lparr>io_lookup = \<lambda>n s. if s = ''bin'' then Some 5 else None, io_mknode = \<lambda>_ _ _ _. None, io_attr = \<lambda>_. \<lparr>filetype = FT_NORMAL, fa_value = 0x1ff\<rparr>\<rparr>
      v' 0 ''bin'' = Some (Some c, v')"
proof -
  let ?o = "\<lparr>io_lookup = \<lambda>n s. if s = ''bin'' then Some 5 else None, io_mknode = \<lambda>_ _ _ _. None, io_attr = \<lambda>_. \<lparr>filetype = FT_NORMAL, fa_value = 0x1ff\<rparr>\<rparr>"
  let ?v = "\<lparr>d_pool = \<lambda>_. mk_dentry ''/'' (Some 2) None True, d_free = [3, 4], node_fs = \<lambda>_. 0, fs_root = \<lambda>_. Some 0,
      fs_mnt = \<lambda>_. None, fs_is_root = \<lambda>_. True, mnt_table = [(''/'', 0)]\<rparr>"
  obtain c v' where r: "EntrySearch ?o ?v 0 ''bin'' = Some (Some c, v')"
    by (simp add: EntrySearch_def mk_dentry_def allocDentry_def Let_def)
  from EntrySearch_caches [OF this] r show ?thesis by auto
qed

text \<open>
  the mount table lookup picks the longest registered prefix of the path.
\<close>

theorem longest_mount_is_longest:
  assumes "longest_mount tbl s [] \<noteq> []"
  shows "(\<exists>f. (longest_mount tbl s [], f) \<in> set tbl) \<and> take (length (longest_mount tbl s [])) s = longest_mount tbl s [] \<and>
    (\<forall>(p, f) \<in> set tbl. length p \<le> length s \<and> take (length p) s = p \<longrightarrow> length p \<le> length (longest_mount tbl s []))"
  using longest_mount_props [of tbl s "[]"] assms by auto

theorem longest_mount_is_longest_witness:
  "(\<exists>f. (longest_mount [(''/'', 0), (''/mnt'', 1)] ''/mnt/a'' [], f) \<in> set [(''/'', 0::nat), (''/mnt'', 1)]) \<and>
    longest_mount [(''/'', 0), (''/mnt'', 1)] ''/mnt/a'' [] = ''/mnt''"
  using longest_mount_is_longest [of "[(''/'', 0), (''/mnt'', 1)]" "''/mnt/a''"] by simp

text \<open>
  the absolute path of \<^verbatim>\<open>a/b/../..\<close> comes out as \<^verbatim>\<open>/a\<close>: a component is dropped only when the very
  next one is \<^verbatim>\<open>..\<close>, so two of them in a row go up one directory only.
\<close>

theorem dotdot_twice_goes_up_once:
  assumes "a \<noteq> ''.''" "a \<noteq> ''..''" "b \<noteq> ''.''" "b \<noteq> ''..''"
  shows "join_names [a, ''..''] = [] \<and> join_names [a, b, ''..'', ''..''] = CHR ''/'' # a"
  using assms by simp

theorem dotdot_twice_goes_up_once_witness:
  "join_names [''usr'', ''..''] = [] \<and> join_names [''usr'', ''bin'', ''..'', ''..''] = ''/usr''"
  using dotdot_twice_goes_up_once [of "''usr''" "''bin''"] by simp

end
