(* ===== verification/Pages.thy ===== *)
theory Pages
  imports Kernel_Prelude
begin

text \<open>
  Page arithmetic of \<^verbatim>\<open>hsai/include/mem/page.hh\<close>, the RISC-V page table entry of
  \<^verbatim>\<open>hal/riscv/page.cc\<close> with its bit layout from \<^verbatim>\<open>hal/riscv/include/riscv.hh\<close>, the memory
  interface of the QEMU board (\<^verbatim>\<open>hal/riscv/qemu/rv_mem.cc\<close>) and the virtual memory layout of
  \<^verbatim>\<open>kernel/include/mm/memlayout.hh\<close>. A \<^verbatim>\<open>hsai::Pte\<close> is the address of the entry; reading and
  writing it goes through memory.
\<close>

section \<open>Page arithmetic (page.hh)\<close>

definition page_size :: u64 where
  [simp]: "page_size = 4096"

definition page_number_mask :: u64 where
  [simp]: "page_number_mask = 0x1FF"

partial_function (option) lowest_1_bit_loop :: "u64 \<Rightarrow> u64 \<Rightarrow> u64 \<Rightarrow> u64 option" where
  "lowest_1_bit_loop i k cnt =
     (if k AND i = 0 then lowest_1_bit_loop i (push_bit 1 k) (cnt + 1) else Some cnt)"

definition lowest_1_bit :: "u64 \<Rightarrow> u64 option" where
  "lowest_1_bit i = lowest_1_bit_loop i 1 0"

partial_function (option) mask_width_loop :: "u64 \<Rightarrow> u64 \<Rightarrow> u64 \<Rightarrow> u64 option" where
  "mask_width_loop mk i k =
     (if i AND mk \<noteq> 0 then mask_width_loop mk (push_bit 1 i) (k + 1) else Some k)"

text \<open>
  The shifts the compiler evaluates from the two loops; \<open>page_constants\<close> below shows that the
  loops return them.
\<close>

definition page_size_shift :: nat where
  [simp]: "page_size_shift = 12"

definition page_number_mask_width :: nat where
  [simp]: "page_number_mask_width = 9"

definition page_round_up :: "u64 \<Rightarrow> u64" where
  "page_round_up addr = (addr + page_size - 1) AND NOT (page_size - 1)"

definition page_round_down :: "u64 \<Rightarrow> u64" where
  "page_round_down addr = addr AND NOT (page_size - 1)"

definition is_page_align :: "u64 \<Rightarrow> bool" where
  "is_page_align addr \<longleftrightarrow> addr AND (page_size - 1) = 0"

definition pgd_mask :: u64 where
  "pgd_mask = push_bit (page_number_mask_width * 3) (push_bit page_size_shift page_number_mask)"

definition pud_mask :: u64 where
  "pud_mask = push_bit (page_number_mask_width * 2) (push_bit page_size_shift page_number_mask)"

definition pmd_mask :: u64 where
  "pmd_mask = push_bit (page_number_mask_width * 1) (push_bit page_size_shift page_number_mask)"

definition pt_mask :: u64 where
  "pt_mask = push_bit (page_number_mask_width * 0) (push_bit page_size_shift page_number_mask)"

definition pgd_mask_shift :: nat where [simp]: "pgd_mask_shift = 39"
definition pud_mask_shift :: nat where [simp]: "pud_mask_shift = 30"
definition pmd_mask_shift :: nat where [simp]: "pmd_mask_shift = 21"
definition pt_mask_shift :: nat where [simp]: "pt_mask_shift = 12"

definition pgd_num :: "u64 \<Rightarrow> u64" where
  "pgd_num va = (if pgd_mask = 0 then - 1 else drop_bit pgd_mask_shift (va AND pgd_mask))"

definition pud_num :: "u64 \<Rightarrow> u64" where
  "pud_num va = (if pud_mask = 0 then - 1 else drop_bit pud_mask_shift (va AND pud_mask))"

definition pmd_num :: "u64 \<Rightarrow> u64" where
  "pmd_num va = (if pmd_mask = 0 then - 1 else drop_bit pmd_mask_shift (va AND pmd_mask))"

definition pt_num :: "u64 \<Rightarrow> u64" where
  "pt_num va = (if pt_mask = 0 then - 1 else drop_bit pt_mask_shift (va AND pt_mask))"

section \<open>Page table entries (riscv.hh, hal/riscv/page.cc)\<close>

definition pte_valid_m :: u64 where [simp]: "pte_valid_m = 1"
definition pte_read_m :: u64 where [simp]: "pte_read_m = 2"
definition pte_write_m :: u64 where [simp]: "pte_write_m = 4"
definition pte_execute_m :: u64 where [simp]: "pte_execute_m = 8"
definition pte_user_m :: u64 where [simp]: "pte_user_m = 16"
definition pte_global_m :: u64 where [simp]: "pte_global_m = 32"
definition pte_accessed_m :: u64 where [simp]: "pte_accessed_m = 64"
definition pte_dirty_m :: u64 where [simp]: "pte_dirty_m = 128"
definition pte_rsw_m :: u64 where [simp]: "pte_rsw_m = 768"

definition pte_flags_m :: u64 where
  "pte_flags_m = pte_valid_m OR pte_read_m OR pte_write_m OR pte_execute_m OR pte_user_m
     OR pte_global_m OR pte_accessed_m OR pte_dirty_m OR pte_rsw_m"

definition map_code_page_flags :: u64 where
  "map_code_page_flags = pte_valid_m OR pte_read_m OR pte_execute_m"
definition map_data_page_flags :: u64 where
  "map_data_page_flags = pte_valid_m OR pte_read_m OR pte_write_m"
definition map_dir_page_flags :: u64 where "map_dir_page_flags = pte_valid_m"
definition super_plv_flag :: u64 where "super_plv_flag = 0"
definition user_plv_flag :: u64 where "user_plv_flag = pte_user_m"
definition valid_flag :: u64 where "valid_flag = pte_valid_m"

definition pte_is_null :: "u64 \<Rightarrow> bool" where "pte_is_null p \<longleftrightarrow> p = 0"
definition pte_is_valid :: "mem \<Rightarrow> u64 \<Rightarrow> bool" where
  "pte_is_valid m p \<longleftrightarrow> ld64 m p AND pte_valid_m \<noteq> 0"
definition pte_is_dirty :: "mem \<Rightarrow> u64 \<Rightarrow> bool" where
  "pte_is_dirty m p \<longleftrightarrow> ld64 m p AND pte_dirty_m \<noteq> 0"
definition pte_is_readable :: "mem \<Rightarrow> u64 \<Rightarrow> bool" where
  "pte_is_readable m p \<longleftrightarrow> ld64 m p AND pte_read_m \<noteq> 0"
definition pte_is_writable :: "mem \<Rightarrow> u64 \<Rightarrow> bool" where
  "pte_is_writable m p \<longleftrightarrow> ld64 m p AND pte_write_m \<noteq> 0"
definition pte_is_executable :: "mem \<Rightarrow> u64 \<Rightarrow> bool" where
  "pte_is_executable m p \<longleftrightarrow> ld64 m p AND pte_execute_m \<noteq> 0"
definition pte_is_present :: "mem \<Rightarrow> u64 \<Rightarrow> bool" where
  "pte_is_present m p \<longleftrightarrow> ld64 m p AND pte_valid_m \<noteq> 0"
definition pte_is_dir_page :: "mem \<Rightarrow> u64 \<Rightarrow> bool" where
  "pte_is_dir_page m p \<longleftrightarrow>
     ld64 m p AND (pte_valid_m OR pte_read_m OR pte_execute_m OR pte_write_m) = map_dir_page_flags"
definition pte_is_super_plv :: "mem \<Rightarrow> u64 \<Rightarrow> bool" where
  "pte_is_super_plv m p \<longleftrightarrow> ld64 m p AND pte_user_m = 0"
definition pte_is_user_plv :: "mem \<Rightarrow> u64 \<Rightarrow> bool" where
  "pte_is_user_plv m p \<longleftrightarrow> ld64 m p AND pte_user_m \<noteq> 0"

definition pte_set_super_plv :: "mem \<Rightarrow> u64 \<Rightarrow> mem" where
  "pte_set_super_plv m p = st64 m p (ld64 m p AND NOT user_plv_flag)"
definition pte_set_user_plv :: "mem \<Rightarrow> u64 \<Rightarrow> mem" where
  "pte_set_user_plv m p = st64 m p (ld64 m p OR user_plv_flag)"

definition pte_to_pa :: "mem \<Rightarrow> u64 \<Rightarrow> u64" where
  "pte_to_pa m p = push_bit 12 (drop_bit 10 (ld64 m p))"
definition pte_get_flags :: "mem \<Rightarrow> u64 \<Rightarrow> u64" where
  "pte_get_flags m p = ld64 m p AND pte_flags_m"
definition pte_get_data :: "mem \<Rightarrow> u64 \<Rightarrow> u64" where "pte_get_data m p = ld64 m p"
definition pte_clear_data :: "mem \<Rightarrow> u64 \<Rightarrow> mem" where "pte_clear_data m p = st64 m p 0"

definition pte_set_data :: "mem \<Rightarrow> u64 \<Rightarrow> u64 \<Rightarrow> mem" where
  "pte_set_data m p data =
     (let low = data AND pte_flags_m
      in st64 m p (push_bit 10 (drop_bit 12 data) OR low))"

section \<open>The board's memory interface and the layout of virtual memory\<close>

definition PHYSTOP :: u64 where "PHYSTOP = 0x88000000"

text \<open>\<^verbatim>\<open>kernel_end\<close> is a linker symbol: an argument.\<close>

definition mem_start :: "u64 \<Rightarrow> u64" where
  "mem_start kernel_end = (kernel_end + (0x100000 - 1)) AND NOT (0x100000 - 1)"
definition mem_size :: "u64 \<Rightarrow> u64" where
  "mem_size kernel_end = PHYSTOP - mem_start kernel_end"
definition to_vir :: "u64 \<Rightarrow> u64" where [simp]: "to_vir addr = addr"
definition to_phy :: "u64 \<Rightarrow> u64" where [simp]: "to_phy addr = addr"
definition to_io :: "u64 \<Rightarrow> u64" where [simp]: "to_io addr = addr"
definition to_dma :: "u64 \<Rightarrow> u64" where [simp]: "to_dma addr = addr"

definition vm_user_start :: u64 where "vm_user_start = 0"
definition vm_user_end :: u64 where "vm_user_end = vm_user_start + push_bit 24 page_size"
definition vm_trap_frame :: u64 where "vm_trap_frame = vm_user_end - page_size"
definition vm_ustack_end :: u64 where "vm_ustack_end = vm_trap_frame - page_size"
definition vm_kernel_start :: u64 where "vm_kernel_start = push_bit 36 3"
definition vm_kernel_end :: u64 where "vm_kernel_end = vm_kernel_start + push_bit 24 page_size"

section \<open>Rounding\<close>

lemma page_constants:
  "lowest_1_bit page_size = Some (of_nat page_size_shift)"
  "mask_width_loop page_number_mask 1 0 = Some (of_nat page_number_mask_width)"
  "lowest_1_bit pgd_mask = Some (of_nat pgd_mask_shift)"
  "lowest_1_bit pud_mask = Some (of_nat pud_mask_shift)"
  "lowest_1_bit pmd_mask = Some (of_nat pmd_mask_shift)"
  "lowest_1_bit pt_mask = Some (of_nat pt_mask_shift)"
  by (simp_all add: lowest_1_bit_def lowest_1_bit_loop.simps mask_width_loop.simps
      pgd_mask_def pud_mask_def pmd_mask_def pt_mask_def)

lemma pte_flags_m_eq: "pte_flags_m = mask 10"
  by (simp add: pte_flags_m_def mask_eq_exp_minus_1)

lemma is_page_align_iff: "is_page_align a \<longleftrightarrow> unat a mod 4096 = 0"
  by (simp add: is_page_align_def and_4095_mod)

lemma and_not_plus_and: "(a AND NOT b) + (a AND b) = (a::u64)"
proof -
  have "(a AND NOT b) + (a AND b) = (a AND NOT b) OR (a AND b)"
    by (rule disjunctive_add_eq_or) (simp add: bit_eq_iff bit_simps)
  also have "\<dots> = a" by (rule bit_word_eqI) (auto simp: bit_simps)
  finally show ?thesis .
qed

lemma unat_page_round_down: "unat (page_round_down a) = unat a - unat a mod 4096"
proof -
  have eq: "a AND NOT 4095 = a - (a AND 4095)"
    using and_not_plus_and [of a 4095] by (simp add: eq_diff_eq)
  have "unat (a AND 4095) \<le> unat a" by (simp add: unat_and_4095)
  then have "unat (a - (a AND 4095)) = unat a - unat a mod 4096"
    unfolding unat_sub_if' by (simp add: unat_and_4095)
  moreover have "page_size - 1 = 4095" by simp
  ultimately show ?thesis unfolding page_round_down_def by (simp only: eq)
qed

lemma page_round_down_aligned [simp]: "unat (page_round_down a) mod 4096 = 0"
  by (simp add: unat_page_round_down)

lemma page_round_down_le: "page_round_down a \<le> a"
  by (simp add: word_le_nat_alt unat_page_round_down)

lemma unat_page_offset: "unat (a - page_round_down a) = unat a mod 4096"
proof -
  have "unat (page_round_down a) \<le> unat a" by (simp add: unat_page_round_down)
  then show ?thesis unfolding unat_sub_if' by (simp add: unat_page_round_down)
qed

lemma page_round_down_id: "is_page_align a \<Longrightarrow> page_round_down a = a"
  by (simp add: is_page_align_iff word_unat_eq_iff unat_page_round_down)

lemma page_round_up_down: "page_round_up a = page_round_down (a + 4095)"
  by (simp add: page_round_up_def page_round_down_def add_diff_eq [symmetric])

lemma unat_page_round_up:
  assumes "unat a + 4095 < 2 ^ 64"
  shows "unat (page_round_up a) = (unat a + 4095) div 4096 * 4096"
proof -
  have "unat (a + 4095) = unat a + 4095" using assms by (simp add: unat_word_ariths)
  then show ?thesis
    unfolding page_round_up_down unat_page_round_down by (simp add: minus_mod_eq_div_mult)
qed

lemma page_round_up_aligned [simp]: "unat (page_round_up a) mod 4096 = 0"
  by (simp add: page_round_up_down)

section \<open>Entries\<close>

lemma aligned_bits: "is_page_align pa \<Longrightarrow> bit pa n \<Longrightarrow> 12 \<le> n"
proof (rule ccontr)
  assume a: "is_page_align pa" "bit pa n" "\<not> 12 \<le> n"
  have m: "page_size - 1 = mask 12" by (simp add: mask_eq_exp_minus_1)
  have "pa AND mask 12 = 0" using a(1) unfolding is_page_align_def m .
  then have "\<not> (bit pa n \<and> bit (mask 12 :: u64) n)"
    by (metis bit_and_iff bit_0_eq bot_apply bot_bool_def)
  with a show False by (simp only: bit_mask_iff possible_bit_word) simp
qed

lemma flag_bits: "flags AND pte_flags_m = flags \<Longrightarrow> bit flags n \<Longrightarrow> n < 10"
  by (metis bit_and_iff bit_mask_iff pte_flags_m_eq)

lemma pte_set_data_pa:
  assumes "is_page_align pa" and "flags AND pte_flags_m = flags"
  shows "pte_to_pa (pte_set_data m p (pa OR flags)) p = pa"
  unfolding pte_to_pa_def pte_set_data_def Let_def ld64_st64_same
  by (rule bit_word_eqI)
     (use aligned_bits [OF assms(1)] flag_bits [OF assms(2)] in
      \<open>fastforce simp: bit_simps pte_flags_m_eq not_less\<close>)

lemma pte_set_data_flags:
  assumes "is_page_align pa" and "flags AND pte_flags_m = flags"
  shows "pte_get_flags (pte_set_data m p (pa OR flags)) p = flags"
  unfolding pte_get_flags_def pte_set_data_def Let_def ld64_st64_same
  by (rule bit_word_eqI)
     (use aligned_bits [OF assms(1)] flag_bits [OF assms(2)] in
      \<open>fastforce simp: bit_simps pte_flags_m_eq not_less\<close>)

section \<open>Page table indices\<close>

lemma index_masks:
  "pud_mask = push_bit 30 (mask 9)" "pmd_mask = push_bit 21 (mask 9)" "pt_mask = push_bit 12 (mask 9)"
  by (simp_all add: pud_mask_def pmd_mask_def pt_mask_def mask_eq_exp_minus_1)

lemma index_masks_nz: "pud_mask \<noteq> 0" "pmd_mask \<noteq> 0" "pt_mask \<noteq> 0"
  by (simp_all add: pud_mask_def pmd_mask_def pt_mask_def)

lemma bit_pud_num: "bit (pud_num va) n \<longleftrightarrow> n < 9 \<and> bit va (n + 30)"
proof -
  have "pud_num va = drop_bit 30 (va AND pud_mask)"
    by (simp add: pud_num_def index_masks_nz)
  then show ?thesis unfolding index_masks by (auto simp: bit_simps add.commute)
qed

lemma bit_pmd_num: "bit (pmd_num va) n \<longleftrightarrow> n < 9 \<and> bit va (n + 21)"
proof -
  have "pmd_num va = drop_bit 21 (va AND pmd_mask)"
    by (simp add: pmd_num_def index_masks_nz)
  then show ?thesis unfolding index_masks by (auto simp: bit_simps add.commute)
qed

lemma bit_pt_num: "bit (pt_num va) n \<longleftrightarrow> n < 9 \<and> bit va (n + 12)"
proof -
  have "pt_num va = drop_bit 12 (va AND pt_mask)"
    by (simp add: pt_num_def index_masks_nz)
  then show ?thesis unfolding index_masks by (auto simp: bit_simps add.commute)
qed

lemma index_less_512:
  assumes "\<And>n. bit (x::u64) n \<Longrightarrow> n < 9"
  shows "x < 512"
proof -
  have "take_bit 9 x = x"
    by (rule bit_word_eqI) (use assms in \<open>auto simp: bit_take_bit_iff\<close>)
  then have "unat x = unat x mod 2 ^ 9"
    by (metis take_bit_eq_mod unsigned_take_bit_eq)
  also have "\<dots> < 2 ^ 9" by (rule mod_less_divisor) simp
  finally have "unat x < 512" by simp
  then show ?thesis by (simp add: word_less_nat_alt)
qed

lemma va_index_bounds: "pud_num va < 512" "pmd_num va < 512" "pt_num va < 512"
  by (auto intro!: index_less_512 simp: bit_pud_num bit_pmd_num bit_pt_num)

section \<open>Properties\<close>

text \<open>
  page rounding. Rounding down gives the page that contains the address; rounding up gives
  the least page boundary not below it, except within 4095 bytes of the end of the address
  space, where the sum wraps around and the result is 0.
\<close>

theorem page_rounding:
  "is_page_align (page_round_down a) \<and> is_page_align (page_round_up a) \<and>
   page_round_down a \<le> a \<and> a - page_round_down a < page_size \<and>
   (if unat a + 4095 < 2 ^ 64
    then a \<le> page_round_up a \<and> page_round_up a - a < page_size
    else page_round_up a = 0)"
proof -
  have up: "a \<le> page_round_up a \<and> page_round_up a - a < page_size" if lt: "unat a + 4095 < 2 ^ 64"
  proof -
    have u: "unat (page_round_up a) = (unat a + 4095) div 4096 * 4096"
      by (rule unat_page_round_up [OF lt])
    have le: "unat a \<le> (unat a + 4095) div 4096 * 4096"
      and lt': "(unat a + 4095) div 4096 * 4096 < unat a + 4096" by linarith+
    show ?thesis
      using le lt' by (simp add: word_le_nat_alt word_less_nat_alt unat_sub_if' u)
  qed
  have wrap: "page_round_up a = 0" if "\<not> unat a + 4095 < 2 ^ 64"
  proof -
    have "unat (a + 4095) = unat a + 4095 - 2 ^ 64"
      using that unat_less_2p [of a] by (simp add: unat_word_ariths le_mod_geq)
    then have "unat (a + 4095) < 4096" using unat_less_2p [of a] by simp
    then have "unat (page_round_up a) = 0"
      unfolding page_round_up_down unat_page_round_down by simp
    then show ?thesis by (simp add: unat_eq_zero)
  qed
  have off: "a - page_round_down a < page_size"
    by (simp add: word_less_nat_alt unat_page_offset)
  show ?thesis
    using up wrap off by (simp add: is_page_align_iff page_round_down_le)
qed

text \<open>
  C29: a page table entry keeps what is stored in it: from an entry written with a page-aligned
  physical address and flags of the flag field, \<^verbatim>\<open>to_pa\<close> and \<^verbatim>\<open>get_flags\<close> read back exactly
  this address and these flags, although \<^verbatim>\<open>set_data\<close> and \<^verbatim>\<open>to_pa\<close> shift by 12 and by 10.
\<close>

theorem pte_roundtrip:
  assumes "is_page_align pa" and "flags AND pte_flags_m = flags"
  shows "pte_to_pa (pte_set_data m p (pa OR flags)) p = pa \<and>
    pte_get_flags (pte_set_data m p (pa OR flags)) p = flags"
  using pte_set_data_pa [OF assms] pte_set_data_flags [OF assms] by simp

theorem pte_roundtrip_witness:
  "pte_to_pa (pte_set_data (\<lambda>x. 0) 64 (0x80200000 OR 23)) 64 = 0x80200000 \<and>
   pte_get_flags (pte_set_data (\<lambda>x. 0) 64 (0x80200000 OR 23)) 64 = 23"
  by (rule pte_roundtrip) (simp_all add: is_page_align_def pte_flags_m_def)

text \<open>
  the three table indices and the page offset of a virtual address below \<open>2 ^ 39\<close> determine
  it, and each index addresses one of the 512 entries of a table.
\<close>

theorem va_split:
  assumes "va < 0x8000000000"
  shows "va = push_bit 30 (pud_num va) OR push_bit 21 (pmd_num va) OR push_bit 12 (pt_num va)
      OR (va AND (page_size - 1))
    \<and> pud_num va < 512 \<and> pmd_num va < 512 \<and> pt_num va < 512"
proof -
  have high: "\<not> bit va n" if "39 \<le> n" for n
  proof -
    have "unat va < 2 ^ 39" using assms by (simp add: word_less_nat_alt)
    then have "take_bit 39 va = va"
      by (simp add: word_unat_eq_iff unsigned_take_bit_eq take_bit_nat_eq_self)
    with that show ?thesis by (metis bit_take_bit_iff not_less)
  qed
  have m: "page_size - 1 = mask 12" by (simp add: mask_eq_exp_minus_1)
  have "va = push_bit 30 (pud_num va) OR push_bit 21 (pmd_num va) OR push_bit 12 (pt_num va)
      OR (va AND (page_size - 1))"
  proof (rule bit_word_eqI)
    fix n assume "n < LENGTH(64)"
    consider "n < 12" | "12 \<le> n" "n < 21" | "21 \<le> n" "n < 30" | "30 \<le> n" "n < 39" | "39 \<le> n"
      by linarith
    then show "bit va n = bit (push_bit 30 (pud_num va) OR push_bit 21 (pmd_num va)
        OR push_bit 12 (pt_num va) OR (va AND (page_size - 1))) n"
      unfolding m using high [of n] \<open>n < LENGTH(64)\<close>
      by cases (auto simp: bit_or_iff bit_push_bit_iff bit_pud_num bit_pmd_num bit_pt_num
          bit_and_iff bit_mask_iff)
  qed
  with va_index_bounds show ?thesis by blast
qed

theorem va_split_witness:
  "(0x1234567890::u64) = push_bit 30 (pud_num 0x1234567890) OR push_bit 21 (pmd_num 0x1234567890)
     OR push_bit 12 (pt_num 0x1234567890) OR (0x1234567890 AND (page_size - 1))
    \<and> pud_num 0x1234567890 < 512 \<and> pmd_num 0x1234567890 < 512 \<and> pt_num 0x1234567890 < 512"
  by (rule va_split) simp

end
