(* ===== verification/Klib.thy ===== *)
theory Klib
  imports Kernel_Prelude
begin

text \<open>
  The freestanding C library of the kernel, \<^verbatim>\<open>kernel/klib/klib.cc\<close>, and the bit and number
  helpers of \<^verbatim>\<open>kernel/klib/common.cc\<close>, over byte memory. Every loop is written with the
  source's own guard on pointers and counters. A loop bounded by a counter is a
  \<^theory_text>\<open>function\<close>; a loop that scans for a terminator is a
  \<^theory_text>\<open>partial_function\<close> whose \<open>None\<close> means that it never leaves the loop. The
  pointer a routine returns is its first argument and is not repeated in the model.
\<close>

section \<open>Block operations\<close>

function memset_loop :: "mem \<Rightarrow> u64 \<Rightarrow> u64 \<Rightarrow> u8 \<Rightarrow> u64 \<Rightarrow> mem" where
  "memset_loop m s b c n = (if b - s < n then memset_loop (m(b := c)) s (b + 1) c n else m)"
  by pat_completeness auto
termination
  by (relation "measure (\<lambda>(m, s, b, c, n). unat (n - (b - s)))")
    (simp_all add: word_add_cancel_less)

declare memset_loop.simps [simp del]

definition memset :: "mem \<Rightarrow> u64 \<Rightarrow> u32 \<Rightarrow> u64 \<Rightarrow> mem" where
  "memset m s c n = memset_loop m s s (ucast c) n"

partial_function (option) memmove_loop :: "mem \<Rightarrow> u64 \<Rightarrow> u64 \<Rightarrow> u64 \<Rightarrow> mem option" where
  "memmove_loop m src i j =
     (if src \<le> i then memmove_loop (m(j := m i)) src (i - 1) (j - 1) else Some m)"

definition memmove :: "mem \<Rightarrow> u64 \<Rightarrow> u64 \<Rightarrow> u64 \<Rightarrow> mem option" where
  "memmove m dst src n =
     (if n \<le> 0 then Some m
      else memmove_loop m src (src + (n - 1)) (dst + (n - 1)))"

function memcpy_loop :: "mem \<Rightarrow> u64 \<Rightarrow> u64 \<Rightarrow> u64 \<Rightarrow> u64 \<Rightarrow> mem" where
  "memcpy_loop m out i j n =
     (if j - out < n then memcpy_loop (m(j := m i)) out (i + 1) (j + 1) n else m)"
  by pat_completeness auto
termination
  by (relation "measure (\<lambda>(m, out, i, j, n). unat (n - (j - out)))")
    (simp_all add: word_add_cancel_less)

declare memcpy_loop.simps [simp del]

definition memcpy :: "mem \<Rightarrow> u64 \<Rightarrow> u64 \<Rightarrow> u64 \<Rightarrow> mem" where
  "memcpy m out src n = memcpy_loop m out src out n"

partial_function (option) memcmp_loop :: "mem \<Rightarrow> u64 \<Rightarrow> u64 \<Rightarrow> u64 \<Rightarrow> u64 \<Rightarrow> int option" where
  "memcmp_loop m i j cnt n =
     (if m i = m j
      then if m i = 0 \<or> n \<le> cnt then Some 0 else memcmp_loop m (i + 1) (j + 1) (cnt + 1) n
      else Some (if m i < m j then - 1 else 1))"

definition memcmp :: "mem \<Rightarrow> u64 \<Rightarrow> u64 \<Rightarrow> u64 \<Rightarrow> int option" where
  "memcmp m s1 s2 n = (if n = 0 then Some 0 else memcmp_loop m s1 s2 1 n)"

function memchr_loop :: "mem \<Rightarrow> u64 \<Rightarrow> u8 \<Rightarrow> u64 \<Rightarrow> u64 option" where
  "memchr_loop m src d len =
     (if len = 0 then None
      else if m src = d then Some src else memchr_loop m (src + 1) d (len - 1))"
  by pat_completeness auto
termination
  by (relation "measure (\<lambda>(m, src, d, len). unat len)")
    (simp_all add: measure_unat)

declare memchr_loop.simps [simp del]

text \<open>\<open>None\<close> is the null pointer here: the loop is bounded by \<^verbatim>\<open>length\<close> and always ends.\<close>

definition memchr :: "mem \<Rightarrow> u64 \<Rightarrow> u32 \<Rightarrow> u64 \<Rightarrow> u64 option" where
  "memchr m src c len = memchr_loop m src (ucast c) len"

section \<open>C strings\<close>

partial_function (option) strlen_loop :: "mem \<Rightarrow> u64 \<Rightarrow> u64 \<Rightarrow> u64 option" where
  "strlen_loop m s len = (if m s \<noteq> 0 then strlen_loop m (s + 1) (len + 1) else Some len)"

definition strlen :: "mem \<Rightarrow> u64 \<Rightarrow> u64 option" where
  "strlen m s = strlen_loop m s 0"

partial_function (option) strcpy_loop :: "mem \<Rightarrow> u64 \<Rightarrow> u64 \<Rightarrow> mem option" where
  "strcpy_loop m src j =
     (if m src \<noteq> 0 then strcpy_loop (m(j := m src)) (src + 1) (j + 1) else Some (m(j := 0)))"

definition strcpy :: "mem \<Rightarrow> u64 \<Rightarrow> u64 \<Rightarrow> mem option" where
  "strcpy m dst src = strcpy_loop m src dst"

function strncpy_pad :: "mem \<Rightarrow> u64 \<Rightarrow> u64 \<Rightarrow> u64 \<Rightarrow> mem" where
  "strncpy_pad m j cnt n = (if cnt < n then strncpy_pad (m(j := 0)) (j + 1) (cnt + 1) n else m)"
  by pat_completeness auto
termination
  by (relation "measure (\<lambda>(m, j, cnt, n). unat (n - cnt))") (simp_all add: word_minus_Suc_less)

function strncpy_copy :: "mem \<Rightarrow> u64 \<Rightarrow> u64 \<Rightarrow> u64 \<Rightarrow> u64 \<Rightarrow> mem \<times> u64 \<times> u64" where
  "strncpy_copy m src j cnt n =
     (if m src \<noteq> 0 \<and> cnt < n then strncpy_copy (m(j := m src)) (src + 1) (j + 1) (cnt + 1) n
      else (m, j, cnt))"
  by pat_completeness auto
termination
  by (relation "measure (\<lambda>(m, src, j, cnt, n). unat (n - cnt))")
    (simp_all add: word_minus_Suc_less)

declare strncpy_pad.simps [simp del] strncpy_copy.simps [simp del]

definition strncpy :: "mem \<Rightarrow> u64 \<Rightarrow> u64 \<Rightarrow> u64 \<Rightarrow> mem" where
  "strncpy m dst src n =
     (case strncpy_copy m src dst 0 n of (m', j, cnt) \<Rightarrow> strncpy_pad m' j cnt n)"

partial_function (option) strcat_end :: "mem \<Rightarrow> u64 \<Rightarrow> u64 option" where
  "strcat_end m j = (if m j \<noteq> 0 then strcat_end m (j + 1) else Some j)"

text \<open>The copying loop of \<^verbatim>\<open>strcat\<close> is letter for letter the one of \<^verbatim>\<open>strcpy\<close>.\<close>

definition strcat :: "mem \<Rightarrow> u64 \<Rightarrow> u64 \<Rightarrow> mem option" where
  "strcat m dst src = do { j \<leftarrow> strcat_end m dst; strcpy_loop m src j }"

partial_function (option) strcmp :: "mem \<Rightarrow> u64 \<Rightarrow> u64 \<Rightarrow> int option" where
  "strcmp m s1 s2 =
     (if m s1 = m s2 then if m s1 = 0 then Some 0 else strcmp m (s1 + 1) (s2 + 1)
      else Some (if m s1 < m s2 then - 1 else 1))"

partial_function (option) strncmp_loop :: "mem \<Rightarrow> u64 \<Rightarrow> u64 \<Rightarrow> u64 \<Rightarrow> u64 \<Rightarrow> int option" where
  "strncmp_loop m s1 s2 cnt n =
     (if m s1 = m s2
      then if m s1 = 0 \<or> cnt = n then Some 0 else strncmp_loop m (s1 + 1) (s2 + 1) (cnt + 1) n
      else Some (if m s1 < m s2 then - 1 else 1))"

definition strncmp :: "mem \<Rightarrow> u64 \<Rightarrow> u64 \<Rightarrow> u64 \<Rightarrow> int option" where
  "strncmp m s1 s2 n = (if n = 0 then Some 0 else strncmp_loop m s1 s2 1 n)"

text \<open>The result of \<^verbatim>\<open>strrchr\<close> and \<^verbatim>\<open>strchr\<close> is an address, 0 standing for the null pointer.\<close>

partial_function (option) strrchr_loop :: "mem \<Rightarrow> u64 \<Rightarrow> u8 \<Rightarrow> u64 \<Rightarrow> u64 option" where
  "strrchr_loop m s c j =
     (if m s \<noteq> 0 then strrchr_loop m (s + 1) c (if m s = c then s else j) else Some j)"

definition strrchr :: "mem \<Rightarrow> u64 \<Rightarrow> u8 \<Rightarrow> u64 option" where
  "strrchr m s c = strrchr_loop m s c 0"

partial_function (option) strchr :: "mem \<Rightarrow> u64 \<Rightarrow> u8 \<Rightarrow> u64 option" where
  "strchr m s c = (if m s \<noteq> 0 then if m s = c then Some s else strchr m (s + 1) c else Some 0)"

text \<open>
  \<^verbatim>\<open>snstr\<close> narrows a string of 16-bit characters. Both loops test \<^verbatim>\<open>len\<close> and then decrement
  it; \<^verbatim>\<open>len\<close> is an \<^verbatim>\<open>int\<close>, so the copying loop of a call with a negative \<^verbatim>\<open>len\<close> is left
  only at the end of the string.
\<close>

definition ld16 :: "mem \<Rightarrow> u64 \<Rightarrow> u16" where
  "ld16 m a = ucast (m a) OR push_bit 8 (ucast (m (a + 1)))"

partial_function (option) snstr_copy :: "mem \<Rightarrow> u64 \<Rightarrow> u64 \<Rightarrow> int \<Rightarrow> (mem \<times> u64 \<times> int) option" where
  "snstr_copy m dst src len =
     (if len \<noteq> 0 \<and> ld16 m src \<noteq> 0
      then snstr_copy (m(dst := ucast (ld16 m src AND 255))) (dst + 1) (src + 2) (len - 1)
      else Some (m, dst, len - 1))"

function snstr_pad :: "mem \<Rightarrow> u64 \<Rightarrow> int \<Rightarrow> mem" where
  "snstr_pad m dst len = (if len > 0 then snstr_pad (m(dst := 0)) (dst + 1) (len - 1) else m)"
  by pat_completeness auto
termination
  by (relation "measure (\<lambda>(m, dst, len). nat len)") simp_all

declare snstr_pad.simps [simp del]

definition snstr :: "mem \<Rightarrow> u64 \<Rightarrow> u64 \<Rightarrow> int \<Rightarrow> mem option" where
  "snstr m dst src len =
     do { (m', dst', len') \<leftarrow> snstr_copy m dst src len; Some (snstr_pad m' dst' len') }"

text \<open>\<^verbatim>\<open>strncmpamb\<close> accepts two characters that differ in case only; \<^verbatim>\<open>'A' - 'a'\<close> is \<open>- 32\<close>.\<close>

definition same_letter :: "u8 \<Rightarrow> u8 \<Rightarrow> bool" where
  "same_letter a b \<longleftrightarrow> a = b
     \<or> 97 \<le> a \<and> a \<le> 122 \<and> uint b - uint a = - 32
     \<or> 65 \<le> a \<and> a \<le> 90 \<and> uint a - uint b = - 32"

partial_function (option) strncmpamb_loop :: "mem \<Rightarrow> u64 \<Rightarrow> u64 \<Rightarrow> u64 \<Rightarrow> u64 \<Rightarrow> int option" where
  "strncmpamb_loop m s1 s2 cnt n =
     (if same_letter (m s1) (m s2)
      then if m s1 = 0 \<or> cnt = n then Some 0 else strncmpamb_loop m (s1 + 1) (s2 + 1) (cnt + 1) n
      else Some (if m s1 < m s2 then - 1 else 1))"

definition strncmpamb :: "mem \<Rightarrow> u64 \<Rightarrow> u64 \<Rightarrow> u64 \<Rightarrow> int option" where
  "strncmpamb m s1 s2 n = (if n = 0 then Some 0 else strncmpamb_loop m s1 s2 1 n)"

section \<open>Rounding a float, on its bit pattern\<close>

text \<open>
  The argument and the result are the IEEE single-precision bit patterns the source reads
  through its union. Not-a-number and the infinities have exponent 128, so the comparisons
  \<^verbatim>\<open>x != x\<close> and \<^verbatim>\<open>x == 1.0f / 0.0f\<close> are those on patterns with all exponent bits set.
\<close>

definition ceilf :: "u32 \<Rightarrow> u32" where
  "ceilf x =
     (let sgn = x AND 0x80000000;
          exponent = uint (drop_bit 23 x AND 0xFF) - 127;
          mantissa = x AND 0x7FFFFF
      in if exponent \<ge> 23 \<or> drop_bit 23 x AND 0xFF = 0xFF then x
         else if exponent < 0 then (if sgn \<noteq> 0 then 0x80000000 else 0x3F800000)
         else
           let low = push_bit (nat (23 - exponent)) 1 - 1
           in if mantissa AND low = 0 then x
              else (if sgn = 0 then x + push_bit (nat (23 - exponent)) 1 else x) AND NOT low)"

section \<open>Bits and numbers (common.cc)\<close>

definition bit_set :: "mem \<Rightarrow> u64 \<Rightarrow> u32 \<Rightarrow> mem" where
  "bit_set m data kbit =
     (let mv = kbit div 8; rs = kbit mod 8; p = data + ucast mv
      in m(p := m p OR push_bit (unat rs) 1))"

definition bit_reset :: "mem \<Rightarrow> u64 \<Rightarrow> u32 \<Rightarrow> mem" where
  "bit_reset m data kbit =
     (let mv = kbit div 8; rs = kbit mod 8; p = data + ucast mv
      in m(p := m p AND NOT (push_bit (unat rs) 1)))"

definition bit_test :: "mem \<Rightarrow> u64 \<Rightarrow> u32 \<Rightarrow> bool" where
  "bit_test m data kbit =
     (let mv = kbit div 8; rs = kbit mod 8; p = data + ucast mv
      in m p AND push_bit (unat rs) 1 \<noteq> 0)"

function compare_loop :: "mem \<Rightarrow> u64 \<Rightarrow> u64 \<Rightarrow> u32 \<Rightarrow> u32 \<Rightarrow> int" where
  "compare_loop m s t i len =
     (if i < len
      then if m (s + ucast i) \<noteq> m (t + ucast i) then sint i else compare_loop m s t (i + 1) len
      else 0)"
  by pat_completeness auto
termination
  by (relation "measure (\<lambda>(m, s, t, i, len). unat (len - i))") (simp_all add: word_minus_Suc_less)

declare compare_loop.simps [simp del]

definition compare :: "mem \<Rightarrow> u64 \<Rightarrow> u64 \<Rightarrow> u32 \<Rightarrow> int" where
  "compare m s t len = compare_loop m s t 0 len"

partial_function (option) lowest_bit_loop :: "u64 \<Rightarrow> int \<Rightarrow> int option" where
  "lowest_bit_loop x pos =
     (if x AND 1 = 0 then lowest_bit_loop (drop_bit 1 x) (pos + 1) else Some pos)"

definition lowest_bit :: "u64 \<Rightarrow> int option" where
  "lowest_bit x = (if x = 0 then Some (- 1) else lowest_bit_loop x 0)"

partial_function (option) highest_bit_loop :: "u64 \<Rightarrow> int \<Rightarrow> int option" where
  "highest_bit_loop x pos =
     (if x AND push_bit 63 (NOT 0) = 0 then highest_bit_loop (push_bit 1 x) (pos - 1) else Some pos)"

definition highest_bit :: "u64 \<Rightarrow> int option" where
  "highest_bit x = (if x = 0 then Some (- 1) else highest_bit_loop x 63)"

definition unicode_to_ascii :: "u16 \<Rightarrow> u8" where
  "unicode_to_ascii uc = ucast (uc AND 255)"

function power_loop :: "u64 \<Rightarrow> u64 \<Rightarrow> u64 \<Rightarrow> u64" where
  "power_loop ans x y =
     (if y = 0 then ans
      else power_loop (if y AND 1 \<noteq> 0 then ans * x else ans) (x * x) (drop_bit 1 y))"
  by pat_completeness auto
termination
  by (relation "measure (\<lambda>(ans, x, y). unat y)") (simp_all add: unat_drop_bit_1_less)

declare power_loop.simps [simp del]

definition math_power :: "u64 \<Rightarrow> u64 \<Rightarrow> u64" where
  "math_power x y = power_loop 1 x y"

section \<open>Specification vocabulary\<close>

text \<open>\<open>cstr m a xs\<close>: a C string with the (non-zero) characters \<open>xs\<close> lies at \<open>a\<close>.\<close>

fun cstr :: "mem \<Rightarrow> u64 \<Rightarrow> u8 list \<Rightarrow> bool" where
  "cstr m a [] \<longleftrightarrow> m a = 0"
| "cstr m a (x # xs) \<longleftrightarrow> x \<noteq> 0 \<and> m a = x \<and> cstr m (a + 1) xs"

text \<open>The order \<^verbatim>\<open>strcmp\<close> is to compute: lexicographic on unsigned characters.\<close>

fun str_order :: "u8 list \<Rightarrow> u8 list \<Rightarrow> int" where
  "str_order [] [] = 0"
| "str_order [] (y # ys) = - 1"
| "str_order (x # xs) [] = 1"
| "str_order (x # xs) (y # ys) = (if x = y then str_order xs ys else if x < y then - 1 else 1)"

section \<open>What the block operations do\<close>

lemma memset_loop_range:
  "b - s \<le> n \<Longrightarrow> memset_loop m s b c n x = (if b - s \<le> x - s \<and> x - s < n then c else m x)"
proof (induction m s b c n rule: memset_loop.induct)
  case (1 m s b c n)
  show ?case
  proof (cases "b - s < n")
    case True
    have eq: "b + 1 - s = b - s + 1" by simp
    have u: "unat (b - s + 1) = Suc (unat (b - s))" by (rule unat_Suc_less [OF True])
    have le: "b + 1 - s \<le> n" using True unfolding eq word_le_nat_alt u by (simp add: word_less_nat_alt)
    have xb: "x = b \<longleftrightarrow> unat (x - s) = unat (b - s)"
      unfolding word_unat_eq_iff [symmetric] by simp
    show ?thesis
      unfolding memset_loop.simps [of m s b c n] if_P [OF True] "1.IH" [OF True le] eq
      using True by (auto simp: xb word_le_nat_alt u word_less_nat_alt)
  next
    case False
    with "1.prems" show ?thesis by (subst memset_loop.simps) (auto)
  qed
qed

lemma memset_range: "memset m s c n x = (if x - s < n then ucast c else m x)"
  by (simp add: memset_def memset_loop_range)

lemma memmove_loop_copies:
  "src \<noteq> 0 \<Longrightarrow> unat src + k < 2 ^ 64 \<Longrightarrow> src = dst \<or> k < unat (src - dst) \<Longrightarrow>
     memmove_loop m src (src + of_nat k) (dst + of_nat k) =
       Some (\<lambda>x. if unat (x - dst) \<le> k then m (src + (x - dst)) else m x)"
proof (induction k arbitrary: m)
  case 0
  have "\<not> src \<le> src - 1" using 0(1) by (rule word_pred_less)
  then show ?case
    by (subst memmove_loop.simps, subst memmove_loop.simps) (auto simp: fun_eq_iff unat_eq_zero)
next
  case (Suc k)
  let ?m = "m(dst + of_nat (Suc k) := m (src + of_nat (Suc k)))"
  have le: "src \<le> src + of_nat (Suc k)"
    using Suc.prems(2) by (simp add: word_le_nat_alt unat_word_ariths unat_of_nat)
  have "memmove_loop ?m src (src + of_nat k) (dst + of_nat k) =
      Some (\<lambda>x. if unat (x - dst) \<le> k then ?m (src + (x - dst)) else ?m x)"
    using Suc.prems by (intro Suc.IH) auto
  moreover have "(if unat (x - dst) \<le> k then ?m (src + (x - dst)) else ?m x) =
      (if unat (x - dst) \<le> Suc k then m (src + (x - dst)) else m x)" for x
  proof -
    have at: "x = dst + of_nat (Suc k) \<longleftrightarrow> unat (x - dst) = Suc k"
      using Suc.prems(2) by (intro word_eq_offset) simp
    have "src + (x - dst) \<noteq> dst + of_nat (Suc k)" if "unat (x - dst) \<le> k" "src \<noteq> dst"
      using word_offset_collide [of src x dst "Suc k"] that Suc.prems(3) by auto
    then show ?thesis using at by (cases "src = dst") auto
  qed
  ultimately show ?case
    using le by (subst memmove_loop.simps) (simp add: algebra_simps)
qed

lemma memmove_copies:
  assumes "src \<noteq> 0" and "unat src + unat n \<le> 2 ^ 64" and "src = dst \<or> n \<le> src - dst"
  shows "memmove m dst src n = Some (\<lambda>x. if x - dst < n then m (src + (x - dst)) else m x)"
proof (cases "n = 0")
  case False
  then obtain k where k: "unat n = Suc k" by (metis not0_implies_Suc unat_eq_zero)
  then have n1: "n - 1 = of_nat k" 
    by (metis False diff_Suc_1 of_nat_unat ucast_id unat_minus_one)
  have "memmove_loop m src (src + of_nat k) (dst + of_nat k) =
      Some (\<lambda>x. if unat (x - dst) \<le> k then m (src + (x - dst)) else m x)"
    using assms k by (intro memmove_loop_copies) (auto simp: word_le_nat_alt)
  with False n1 k show ?thesis by (simp add: memmove_def word_less_nat_alt less_Suc_eq_le)
qed (simp add: memmove_def)


lemma memcpy_loop_range:
  "j - out \<le> n \<Longrightarrow> i - src = j - out \<Longrightarrow> out = src \<or> n \<le> out - src \<Longrightarrow>
     memcpy_loop m out i j n x =
       (if j - out \<le> x - out \<and> x - out < n then m (src + (x - out)) else m x)"
proof (induction m out i j n rule: memcpy_loop.induct)
  case (1 m out i j n)
  show ?case
  proof (cases "j - out < n")
    case True
    have eq: "j + 1 - out = j - out + 1" "i + 1 - src = i - src + 1" by simp_all
    have u: "unat (j - out + 1) = Suc (unat (j - out))" by (rule unat_Suc_less [OF True])
    have le: "j + 1 - out \<le> n" using True unfolding eq word_le_nat_alt u by (simp add: word_less_nat_alt)
    have xb: "x = j \<longleftrightarrow> unat (x - out) = unat (j - out)"
      unfolding word_unat_eq_iff [symmetric] by simp
    have ij: "i + 1 - src = j + 1 - out" using "1.prems"(2) by (simp add: eq)
    have i: "i = src + (j - out)" using "1.prems"(2) by (simp add: algebra_simps)
    have fresh: "(m(j := m i)) (src + (x - out)) = m (src + (x - out))"
      if "unat (j - out) < unat (x - out)" "x - out < n"
      using word_offset_ahead [of src x out j n] that "1.prems"(3) i by auto
    have step: "memcpy_loop m out i j n x =
        (if j + 1 - out \<le> x - out \<and> x - out < n then (m(j := m i)) (src + (x - out))
         else (m(j := m i)) x)"
      unfolding memcpy_loop.simps [of m out i j n] if_P [OF True]
      by (rule "1.IH" [OF True le ij "1.prems"(3)])
    show ?thesis
    proof (cases "x = j")
      case True
      with \<open>j - out < n\<close> i show ?thesis
        unfolding step by (simp add: eq word_le_nat_alt u)
    next
      case False
      with xb have "unat (x - out) \<noteq> unat (j - out)" by simp
      with False fresh show ?thesis
        unfolding step by (auto simp: eq word_le_nat_alt u simp del: fun_upd_apply) simp_all
    qed
  next
    case False
    with "1.prems" show ?thesis by (subst memcpy_loop.simps) (auto)
  qed
qed

lemma memcpy_range:
  assumes "out = src \<or> n \<le> out - src"
  shows "memcpy m out src n x = (if x - out < n then m (src + (x - out)) else m x)"
  using assms by (simp add: memcpy_def memcpy_loop_range [of out out n src src])

lemma memcmp_loop_strncmp_loop:
  "cnt \<le> n \<Longrightarrow> memcmp_loop m i j cnt n = strncmp_loop m i j cnt n"
proof (induction "unat (n - cnt)" arbitrary: i j cnt rule: less_induct)
  case less
  show ?case
  proof (cases "cnt = n")
    case False
    with less.prems have lt: "cnt < n" by simp
    have "cnt + 1 \<le> n" using lt unat_Suc_less [OF lt] by (simp add: word_le_nat_alt word_less_nat_alt)
    then have "memcmp_loop m (i + 1) (j + 1) (cnt + 1) n = strncmp_loop m (i + 1) (j + 1) (cnt + 1) n"
      using less.hyps word_minus_Suc_less [OF lt] by simp
    with False lt show ?thesis
      by (subst memcmp_loop.simps, subst strncmp_loop.simps) auto
  qed (subst memcmp_loop.simps, subst strncmp_loop.simps, simp)
qed

lemma memcmp_strncmp: "memcmp m s1 s2 n = strncmp m s1 s2 n"
proof (cases "n = 0")
  case False
  then have "1 \<le> n" by (simp add: word_le_nat_alt unat_gt_0 Suc_le_eq)
  with False show ?thesis by (simp add: memcmp_def strncmp_def memcmp_loop_strncmp_loop)
qed (simp add: memcmp_def strncmp_def)

lemma strlen_loop_cstr: "cstr m s xs \<Longrightarrow> strlen_loop m s len = Some (len + of_nat (length xs))"
  by (induction xs arbitrary: s len) (subst strlen_loop.simps, simp)+

lemma strlen_cstr: "cstr m s xs \<Longrightarrow> strlen m s = Some (of_nat (length xs))"
  by (simp add: strlen_def strlen_loop_cstr)

lemma strcat_end_cstr: "cstr m s xs \<Longrightarrow> strcat_end m s = Some (s + of_nat (length xs))"
  by (induction xs arbitrary: s) (subst strcat_end.simps, simp add: algebra_simps)+

lemma str_order_0: "str_order xs ys = 0 \<longleftrightarrow> xs = ys"
  by (induction xs ys rule: str_order.induct) auto

lemma strcmp_cstr: "cstr m a xs \<Longrightarrow> cstr m b ys \<Longrightarrow> strcmp m a b = Some (str_order xs ys)"
proof (induction xs ys arbitrary: a b rule: str_order.induct)
  case (2 y ys)
  then show ?case by (subst strcmp.simps) (auto simp: word_neq_0_conv)
next
  case (3 x xs)
  then show ?case by (subst strcmp.simps) (auto)
qed (subst strcmp.simps, auto)+

lemma cstr_frame: "cstr m a xs \<Longrightarrow> (\<And>k. k \<le> length xs \<Longrightarrow> m' (a + of_nat k) = m (a + of_nat k)) \<Longrightarrow> cstr m' a xs"
proof (induction xs arbitrary: a)
  case Nil
  then show ?case using Nil(2) [of 0] by simp
next
  case (Cons x xs)
  have "cstr m' (a + 1) xs"
  proof (rule Cons.IH)
    fix k assume "k \<le> length xs"
    then show "m' (a + 1 + of_nat k) = m (a + 1 + of_nat k)" using Cons.prems(2) [of "Suc k"] by (simp add: algebra_simps)
  qed (use Cons.prems in auto)
  then show ?case using Cons.prems(1) Cons.prems(2) [of 0] by simp
qed

lemma strcpy_loop_cstr:
  "cstr m src xs \<Longrightarrow> (\<And>k l. k \<le> length xs \<Longrightarrow> l \<le> length xs \<Longrightarrow> src + of_nat k \<noteq> j + of_nat l) \<Longrightarrow> length xs < 2^64 \<Longrightarrow>
   \<exists>m'. strcpy_loop m src j = Some m' \<and> cstr m' j xs \<and> (\<forall>x. length xs < unat (x - j) \<longrightarrow> m' x = m x)"
proof (induction xs arbitrary: m src j)
  case Nil
  then show ?case by (subst strcpy_loop.simps) auto
next
  case (Cons x xs)
  let ?m = "m(j := x)"
  have ne: "src + of_nat k \<noteq> j" if "k \<le> Suc (length xs)" for k
    using Cons.prems(2) [of k 0] that by simp
  have src1: "cstr ?m (src + 1) xs"
  proof (rule cstr_frame)
    show "cstr m (src + 1) xs" using Cons.prems by simp
    fix k assume "k \<le> length xs"
    then show "?m (src + 1 + of_nat k) = m (src + 1 + of_nat k)"
      using ne [of "Suc k"] by (simp add: algebra_simps)
  qed
  have sep: "src + 1 + of_nat k \<noteq> j + 1 + of_nat l" if "k \<le> length xs" "l \<le> length xs" for k l
    using Cons.prems(2) [of "Suc k" "Suc l"] that by (simp add: algebra_simps)
  have "length xs < 2 ^ 64" using Cons.prems(3) by simp
  from Cons.IH [OF src1 sep this]
  obtain m' where m': "strcpy_loop ?m (src + 1) (j + 1) = Some m'" "cstr m' (j + 1) xs"
    "\<forall>x. length xs < unat (x - (j + 1)) \<longrightarrow> m' x = ?m x"
    by blast
  have off: "length xs < unat (y - (j + 1)) \<and> y \<noteq> j" if "Suc (length xs) < unat (y - j)" for y
  proof -
    have "unat (y - j - 1) = unat (y - j) - 1" using that by (intro unat_minus_one) auto
    with that show ?thesis by (auto simp: algebra_simps)
  qed
  have mj: "m' j = x"
  proof -
    have "j - (j + 1) = - 1" by simp
    then have "unat (j - (j + 1)) = 2 ^ 64 - 1" by (simp only: unat_max_word)
    then show ?thesis using m'(3) Cons.prems(3) by simp
  qed
  show ?case
    using m' Cons.prems off mj by (subst strcpy_loop.simps) auto
qed


lemma cstr_append:
  assumes "cstr m dst xs" and "length xs + length ys < 2 ^ 64"
    and "cstr m' (dst + of_nat (length xs)) ys"
    and "\<forall>x. length ys < unat (x - (dst + of_nat (length xs))) \<longrightarrow> m' x = m x"
  shows "cstr m' dst (xs @ ys)"
  using assms
proof (induction xs arbitrary: dst)
  case Nil
  then show ?case by simp
next
  case (Cons x xs)
  have "dst - (dst + of_nat (length (x # xs))) = 0 - of_nat (Suc (length xs))" by simp
  moreover have "length ys < unat (0 - of_nat (Suc (length xs)) :: u64)"
    using Cons.prems(2) by (simp add: unat_sub_if' unat_of_nat del: of_nat_Suc diff_0)
  ultimately have "m' dst = m dst" using Cons.prems(4) by simp
  moreover have "cstr m' (dst + 1) (xs @ ys)"
    using Cons.prems by (intro Cons.IH) (simp_all add: algebra_simps)
  ultimately show ?case using Cons.prems(1) by simp
qed

lemma compare_loop_same: "s = t \<Longrightarrow> compare_loop m s t i len = 0"
  by (induction m s t i len rule: compare_loop.induct) (subst compare_loop.simps, simp)

lemma power_halve: "(x::u64) ^ n = (if odd n then x else 1) * (x * x) ^ (n div 2)"
proof -
  have sq: "(x * x) ^ (n div 2) = x ^ (2 * (n div 2))"
    by (simp add: power_mult power2_eq_square)
  show ?thesis
  proof (cases "odd n")
    case True
    then have "x ^ n = x ^ Suc (2 * (n div 2))" by simp
    then have "x ^ n = x * x ^ (2 * (n div 2))" by (simp only: power_Suc)
    with True show ?thesis unfolding sq by (simp only: if_True not_False_eq_True)
  next
    case False
    then show ?thesis unfolding sq by simp
  qed
qed

lemma power_loop_eq: "power_loop ans x y = ans * x ^ unat y"
proof (induction ans x y rule: power_loop.induct)
  case (1 ans x y)
  show ?case
  proof (cases "y = 0")
    case False
    have odd: "y AND 1 \<noteq> 0 \<longleftrightarrow> odd (unat y)"
      by (metis and_one_eq odd_unat_iff even_iff_mod_2_eq_zero)
    have "x ^ unat y = (if odd (unat y) then x else 1) * (x * x) ^ (unat y div 2)"
      by (rule power_halve)
    then show ?thesis
      using 1 False odd by (subst power_loop.simps) (simp add: unat_drop_bit_1)
  qed (subst power_loop.simps, simp)
qed

lemma power_eq: "math_power x y = x ^ unat y"
  by (simp add: math_power_def power_loop_eq)

lemma bit_test_iff: "bit_test m data k \<longleftrightarrow> bit (m (data + ucast (k div 8))) (unat (k mod 8))"
  by (simp add: bit_test_def Let_def bit_iff_and_push_bit_not_eq_0)

lemma bit_pos_eq: "k div 8 = (l::u32) div 8 \<Longrightarrow> k mod 8 = l mod 8 \<Longrightarrow> k = l"
  by (metis div_mult_mod_eq)

lemma mod8_less: "unat ((k::u32) mod 8) < 8"
  by (simp add: unat_mod)

lemma bit_test_set: "bit_test (bit_set m data k) data l \<longleftrightarrow> l = k \<or> bit_test m data l"
proof (cases "k div 8 = l div 8")
  case True
  moreover have "unat (l mod 8) = unat (k mod 8) \<longleftrightarrow> l = k"
    using True bit_pos_eq [of l k] by (auto simp: word_unat_eq_iff [symmetric])
  ultimately show ?thesis using mod8_less [of l]
    by (auto simp: bit_test_iff bit_set_def Let_def bit_or_iff bit_push_bit_iff bit_1_iff bit_exp_iff)
next
  case False
  then show ?thesis by (auto simp: bit_test_iff bit_set_def Let_def)
qed

lemma bit_test_reset: "bit_test (bit_reset m data k) data l \<longleftrightarrow> l \<noteq> k \<and> bit_test m data l"
proof (cases "k div 8 = l div 8")
  case True
  moreover have "unat (l mod 8) = unat (k mod 8) \<longleftrightarrow> l = k"
    using True bit_pos_eq [of l k] by (auto simp: word_unat_eq_iff [symmetric])
  ultimately show ?thesis using mod8_less [of l]
    by (auto simp: bit_test_iff bit_reset_def Let_def bit_and_iff bit_not_iff bit_push_bit_iff bit_1_iff bit_exp_iff)
next
  case False
  then show ?thesis by (auto simp: bit_test_iff bit_reset_def Let_def)
qed

lemma lowest_bit_loop_least:
  "bit x n \<Longrightarrow> (\<And>k. k < n \<Longrightarrow> \<not> bit x k) \<Longrightarrow> lowest_bit_loop x pos = Some (pos + int n)"
proof (induction n arbitrary: x pos)
  case 0
  then show ?case by (subst lowest_bit_loop.simps) (simp add: and_one_eq bit_0 odd_iff_mod_2_eq_one)
next
  case (Suc n)
  have "\<not> bit x 0" using Suc.prems(2) [of 0] by simp
  moreover have "lowest_bit_loop (drop_bit 1 x) (pos + 1) = Some (pos + 1 + int n)"
    using Suc.prems by (intro Suc.IH) (auto simp: bit_simps)
  ultimately show ?case by (subst lowest_bit_loop.simps) (simp add: and_one_eq bit_0 even_iff_mod_2_eq_zero)
qed

lemma highest_bit_loop_greatest:
  "bit x n \<Longrightarrow> (\<And>k. n < k \<Longrightarrow> \<not> bit x k) \<Longrightarrow> n < 64 \<Longrightarrow> highest_bit_loop x pos = Some (pos - int (63 - n))"
proof (induction "63 - n" arbitrary: n x pos)
  case 0
  then have "n = 63" by simp
  have b: "bit (push_bit 63 (NOT 0) :: u64) k \<longleftrightarrow> k = 63" for k
    by (auto simp: bit_simps)
  have "x AND push_bit 63 (NOT 0) \<noteq> 0"
    using 0 b by (metis \<open>n = 63\<close> bit_and_iff bit_0_eq bot_apply bot_bool_def)
  then show ?case using \<open>n = 63\<close> by (subst highest_bit_loop.simps) simp
next
  case (Suc d)
  have n: "n < 63" using Suc(2) by simp
  have b: "bit (push_bit 63 (NOT 0) :: u64) k \<longleftrightarrow> k = 63" for k
    by (auto simp: bit_simps)
  have z: "x AND push_bit 63 (NOT 0) = 0"
    using Suc.prems(2) [OF n] b by (auto intro!: bit_word_eqI simp: bit_and_iff)
  have pb: "bit (push_bit 1 x) k \<longleftrightarrow> 1 \<le> k \<and> k < 64 \<and> bit x (k - 1)" for k
    by (simp add: bit_push_bit_iff del: push_bit_Suc)
  have "highest_bit_loop (push_bit 1 x) (pos - 1) = Some (pos - 1 - int (63 - Suc n))"
  proof (rule Suc.hyps(1))
    show "bit (push_bit 1 x) (Suc n)" unfolding pb using Suc.prems n by simp
    show "\<not> bit (push_bit 1 x) k" if "Suc n < k" for k
      unfolding pb using Suc.prems(2) [of "k - 1"] that by auto
  qed (use Suc(2) n in auto)
  with z n show ?case by (subst highest_bit_loop.simps) simp
qed


lemma memmove_loop_smear:
  "src \<noteq> 0 \<Longrightarrow> unat src + k < 2 ^ 64 \<Longrightarrow> src = dst + 1 \<Longrightarrow>
     memmove_loop m src (src + of_nat k) (dst + of_nat k) =
       Some (\<lambda>x. if unat (x - dst) \<le> k then m (src + of_nat k) else m x)"
proof (induction k arbitrary: m)
  case 0
  have "\<not> src \<le> src - 1" using 0(1) by (rule word_pred_less)
  then show ?case
    by (subst memmove_loop.simps, subst memmove_loop.simps) (auto simp: fun_eq_iff unat_eq_zero)
next
  case (Suc k)
  let ?m = "m(dst + of_nat (Suc k) := m (src + of_nat (Suc k)))"
  have le: "src \<le> src + of_nat (Suc k)"
    using Suc.prems(2) by (simp add: word_le_nat_alt unat_word_ariths unat_of_nat)
  have "memmove_loop ?m src (src + of_nat k) (dst + of_nat k) =
      Some (\<lambda>x. if unat (x - dst) \<le> k then ?m (src + of_nat k) else ?m x)"
    using Suc.prems by (intro Suc.IH) auto
  moreover have "src + of_nat k = dst + of_nat (Suc k)"
    using Suc.prems(3) by (simp add: algebra_simps)
  moreover have "x = dst + of_nat (Suc k) \<longleftrightarrow> unat (x - dst) = Suc k" for x
    using Suc.prems(2) by (intro word_eq_offset) simp
  ultimately show ?case
    using le by (subst memmove_loop.simps) (auto simp: fun_eq_iff algebra_simps le_Suc_eq)
qed

section \<open>Properties\<close>

text \<open>
  C24: \<^verbatim>\<open>memmove\<close> returns and copies the block, byte for byte, and touches nothing else,
  whenever the source is not null, does not run past the end of the address space, and does
  not lie above the destination within the block's length. The loop runs downwards, so these
  are exactly the overlaps it can handle.
\<close>

theorem memmove_copies_block:
  assumes "src \<noteq> 0" and "unat src + unat n \<le> 2 ^ 64" and "src = dst \<or> n \<le> src - dst"
  shows "memmove m dst src n = Some (\<lambda>x. if x - dst < n then m (src + (x - dst)) else m x)"
  using assms by (rule memmove_copies)

theorem memmove_copies_block_witness:
  "memmove (\<lambda>x. ucast x) 4098 4096 16 =
     Some (\<lambda>x. if x - 4098 < 16 then ucast (4096 + (x - 4098)) else ucast x)"
  using memmove_copies_block [of 4096 16 4098 "\<lambda>x. ucast x"] by simp

text \<open>
  with the destination one byte below the source, \<^verbatim>\<open>memmove\<close> does not move the block:
  every byte of the destination becomes the last byte of the source. A comment in the
  code says the ranges "may overlap".
\<close>

theorem memmove_smears_overlap:
  assumes "src \<noteq> 0" and "n \<noteq> 0" and "unat src + unat n \<le> 2 ^ 64"
  shows "memmove m (src - 1) src n =
    Some (\<lambda>x. if x - (src - 1) < n then m (src + (n - 1)) else m x)"
proof -
  obtain k where k: "unat n = Suc k" using assms(2) by (metis not0_implies_Suc unat_eq_zero)
  then have n1: "n - 1 = of_nat k"
    by (metis assms(2) diff_Suc_1 of_nat_unat ucast_id unat_minus_one)
  have "memmove_loop m src (src + of_nat k) (src - 1 + of_nat k) =
      Some (\<lambda>x. if unat (x - (src - 1)) \<le> k then m (src + of_nat k) else m x)"
    using assms k by (intro memmove_loop_smear) auto
  with assms(2) k show ?thesis
    unfolding memmove_def n1 by (simp add: word_less_nat_alt less_Suc_eq_le)
qed

theorem memmove_smears_overlap_witness:
  "memmove (\<lambda>x. ucast x) (101 - 1) 101 3 =
     Some (\<lambda>x. if x - (101 - 1) < 3 then ucast (101 + (3 - 1) :: u64) else ucast x)"
  using memmove_smears_overlap [of 101 3 "\<lambda>x. ucast x"] by simp

text \<open>
  C33: \<^verbatim>\<open>memcmp\<close> computes \<^verbatim>\<open>strncmp\<close>: it reports two blocks as equal at the first common
  zero byte, whatever follows.
\<close>

theorem memcmp_is_strncmp: "memcmp m s1 s2 n = strncmp m s1 s2 n"
  by (rule memcmp_strncmp)

text \<open>
  C34: \<^verbatim>\<open>strcat\<close> returns and leaves the concatenation of the two strings at the destination,
  and \<^verbatim>\<open>strlen\<close> then measures it, when the bytes it writes are not those of the source.
\<close>

theorem strcat_appends:
  assumes "cstr m dst xs" and "cstr m src ys" and "length xs + length ys < 2 ^ 64"
    and "\<forall>k l. k \<le> length ys \<longrightarrow> l \<le> length ys \<longrightarrow>
      src + of_nat k \<noteq> dst + of_nat (length xs + l)"
  shows "\<exists>m'. strcat m dst src = Some m' \<and> cstr m' dst (xs @ ys) \<and>
    strlen m' dst = Some (of_nat (length xs + length ys))"
proof -
  let ?j = "dst + of_nat (length xs)"
  have "\<exists>m'. strcpy_loop m src ?j = Some m' \<and> cstr m' ?j ys \<and>
      (\<forall>x. length ys < unat (x - ?j) \<longrightarrow> m' x = m x)"
    using assms by (intro strcpy_loop_cstr) (auto simp: algebra_simps)
  then obtain m' where m': "strcpy_loop m src ?j = Some m'" "cstr m' ?j ys"
    "\<forall>x. length ys < unat (x - ?j) \<longrightarrow> m' x = m x" by blast
  have "cstr m' dst (xs @ ys)"
    using assms(1,3) m'(2,3) by (rule cstr_append)
  then show ?thesis
    using m'(1) assms(1) by (auto simp: strcat_def strcat_end_cstr strlen_cstr)
qed

definition strcat_mem :: mem where
  "strcat_mem = (\<lambda>x. if x = 100 then 104 else if x = 101 then 105 else if x = 200 then 33 else 0)"

theorem strcat_appends_witness:
  "\<exists>m'. strcat strcat_mem 100 200 = Some m' \<and> cstr m' 100 ([104, 105] @ [33]) \<and>
     strlen m' 100 = Some (of_nat (length [104::u8, 105] + length [33::u8]))"
proof (rule strcat_appends)
  show "\<forall>k l. k \<le> length [33::u8] \<longrightarrow> l \<le> length [33::u8] \<longrightarrow>
      (200::u64) + of_nat k \<noteq> 100 + of_nat (length [104::u8, 105] + l)"
    by (auto simp: le_Suc_eq)
qed (simp_all add: strcat_mem_def)

text \<open>
  the bitmap helpers: after \<^verbatim>\<open>bit_set\<close> exactly the given bit has been added, after
  \<^verbatim>\<open>bit_reset\<close> exactly the given bit has been removed, as \<^verbatim>\<open>bit_test\<close> sees them.
\<close>

theorem bitmap_ops:
  "(bit_test (bit_set m data k) data l \<longleftrightarrow> l = k \<or> bit_test m data l) \<and>
   (bit_test (bit_reset m data k) data l \<longleftrightarrow> l \<noteq> k \<and> bit_test m data l)"
  by (rule conjI, rule bit_test_set, rule bit_test_reset)

text \<open>
  C37: \<^verbatim>\<open>lowest_bit\<close> and \<^verbatim>\<open>highest_bit\<close> return for every argument: \<open>- 1\<close> for 0, otherwise the
  position of the lowest and of the highest bit set.
\<close>

theorem lowest_highest_bit:
  "lowest_bit 0 = Some (- 1) \<and> highest_bit 0 = Some (- 1) \<and>
   (x \<noteq> 0 \<longrightarrow> (\<exists>l h. lowest_bit x = Some (int l) \<and> highest_bit x = Some (int h) \<and>
      bit x l \<and> bit x h \<and> (\<forall>k. bit x k \<longrightarrow> l \<le> k \<and> k \<le> h)))"
proof (intro conjI impI)
  assume "x \<noteq> 0"
  then obtain n where n: "bit x n" by (metis bit_eqI bit_0_eq bot_apply bot_bool_def)
  let ?S = "{k. bit x k}"
  have fin: "finite ?S" by (rule finite_subset [of _ "{..<64}"]) (auto dest: bit_imp_le_length)
  have ne: "?S \<noteq> {}" using n by blast
  have mem: "Min ?S \<in> ?S" "Max ?S \<in> ?S" by (rule Min_in [OF fin ne], rule Max_in [OF fin ne])
  have bounds: "Min ?S \<le> k \<and> k \<le> Max ?S" if "bit x k" for k using that fin by simp
  have lt: "Max ?S < 64" using mem(2) by (auto dest: bit_imp_le_length)
  have "lowest_bit x = Some (0 + int (Min ?S))"
    using \<open>x \<noteq> 0\<close> mem bounds unfolding lowest_bit_def
    by (simp only: if_False) (intro lowest_bit_loop_least; auto simp: not_less [symmetric])
  moreover have "highest_bit x = Some (63 - int (63 - Max ?S))"
    using \<open>x \<noteq> 0\<close> mem bounds lt unfolding highest_bit_def
    by (simp only: if_False) (intro highest_bit_loop_greatest; auto simp: not_less [symmetric])
  ultimately show "\<exists>l h. lowest_bit x = Some (int l) \<and> highest_bit x = Some (int h) \<and>
      bit x l \<and> bit x h \<and> (\<forall>k. bit x k \<longrightarrow> l \<le> k \<and> k \<le> h)"
    using mem bounds lt by (intro exI [of _ "Min ?S"] exI [of _ "Max ?S"]) auto
qed (simp_all add: lowest_bit_def highest_bit_def)

theorem lowest_highest_bit_witness:
  "\<exists>l h. lowest_bit 40 = Some (int l) \<and> highest_bit 40 = Some (int h) \<and>
      bit (40::u64) l \<and> bit (40::u64) h \<and> (\<forall>k. bit (40::u64) k \<longrightarrow> l \<le> k \<and> k \<le> h)"
  using lowest_highest_bit [of 40] by simp

text \<open>
  C39: \<^verbatim>\<open>math::power\<close> is exponentiation modulo \<open>2 ^ 64\<close>.
\<close>

theorem power_is_exponentiation: "math_power x y = x ^ unat y"
  by (rule power_eq)

text \<open>
  C31: \<^verbatim>\<open>compare\<close> cannot tell equal strings from strings that differ in their first
  character: it returns 0 for both, while \<^verbatim>\<open>common.hh\<close> promises 0 for equal strings and the
  offset of the difference otherwise.
\<close>

theorem compare_first_char_blind:
  assumes "0 < len" and "m s \<noteq> m t"
  shows "compare m s t len = 0 \<and> compare m s s len = 0"
proof
  show "compare m s t len = 0"
    using assms unfolding compare_def by (subst compare_loop.simps) simp
  show "compare m s s len = 0" by (simp add: compare_def compare_loop_same)
qed

theorem compare_first_char_blind_witness:
  "compare (\<lambda>x. ucast x) 1 2 4 = 0 \<and> compare (\<lambda>x. ucast x) 1 1 4 = 0"
  by (rule compare_first_char_blind) simp_all

text \<open>
  C35: \<^verbatim>\<open>ceilf\<close> maps \<open>0.0\<close> (bit pattern 0) to \<open>1.0\<close>: the branch that the comment reserves for
  numbers below one "and not zero" does not exclude zero.
\<close>

theorem ceilf_zero_is_one: "ceilf 0 = 0x3F800000"
  by (simp add: ceilf_def Let_def)

end
