(* ===== verification/Buddy.thy ===== *)
theory Buddy
  imports Pages Klib
begin

text \<open>
  The buddy allocator of physical pages, \<^verbatim>\<open>kernel/include/mm/buddy_algorithmn/buddy_allocator.hh\<close>
  and \<^verbatim>\<open>kernel/mm/buddy_algorithmn/buddy_allocator.cc\<close>. As in the source the
  list nodes live in the free pages themselves, the 33 list heads in an array of nodes at a
  linker-chosen address, and one info byte per page at the end of the managed range: all of
  them are bytes of memory. The other members of the object are the record below. The
  spin lock is the flag of whether this CPU holds it. \<open>None\<close> is a failed assertion, a
  null or out-of-range access, or a loop without end.
\<close>

section \<open>Nodes and info bytes\<close>

definition buddy_order_level_cnt :: nat where
  [simp]: "buddy_order_level_cnt = 33"

definition buddy_node_magic :: u64 where "buddy_node_magic = 0xbd054a0ef9f5a2de"
definition buddy_unused_magic :: u64 where "buddy_unused_magic = 0x9edc5824b97d47b4"

text \<open>\<^verbatim>\<open>struct BuddyNode\<close>: four 8-byte fields, packed.\<close>

definition node_magic :: "mem \<Rightarrow> u64 \<Rightarrow> u64" where "node_magic m p = ld64 m p"
definition node_area_size :: "mem \<Rightarrow> u64 \<Rightarrow> u64" where "node_area_size m p = ld64 m (p + 8)"
definition node_prev :: "mem \<Rightarrow> u64 \<Rightarrow> u64" where "node_prev m p = ld64 m (p + 16)"
definition node_next :: "mem \<Rightarrow> u64 \<Rightarrow> u64" where "node_next m p = ld64 m (p + 24)"

definition set_node_magic :: "mem \<Rightarrow> u64 \<Rightarrow> u64 \<Rightarrow> mem" where "set_node_magic m p v = st64 m p v"
definition set_node_area_size :: "mem \<Rightarrow> u64 \<Rightarrow> u64 \<Rightarrow> mem" where
  "set_node_area_size m p v = st64 m (p + 8) v"
definition set_node_prev :: "mem \<Rightarrow> u64 \<Rightarrow> u64 \<Rightarrow> mem" where
  "set_node_prev m p v = st64 m (p + 16) v"
definition set_node_next :: "mem \<Rightarrow> u64 \<Rightarrow> u64 \<Rightarrow> mem" where
  "set_node_next m p v = st64 m (p + 24) v"

text \<open>An aggregate assignment \<^verbatim>\<open>node = { ._head = .., ._area_size = .., .. }\<close> writes all fields.\<close>

definition set_node :: "mem \<Rightarrow> u64 \<Rightarrow> u64 \<Rightarrow> u64 \<Rightarrow> u64 \<Rightarrow> u64 \<Rightarrow> mem" where
  "set_node m p mg sz pv nx =
     set_node_next (set_node_prev (set_node_area_size (set_node_magic m p mg) p sz) p pv) p nx"

text \<open>\<^verbatim>\<open>struct BuddyInfo\<close>: \<^verbatim>\<open>order\<close> in bits 0 to 5, \<^verbatim>\<open>area_flag\<close> in bit 6, \<^verbatim>\<open>in_use\<close> in bit 7.\<close>

definition info_order :: "u8 \<Rightarrow> u8" where "info_order i = i AND 63"
definition info_area_flag :: "u8 \<Rightarrow> bool" where "info_area_flag i \<longleftrightarrow> bit i 6"
definition info_in_use :: "u8 \<Rightarrow> bool" where "info_in_use i \<longleftrightarrow> bit i 7"

definition mk_info :: "u8 \<Rightarrow> u8 \<Rightarrow> u8 \<Rightarrow> u8" where
  "mk_info order use is_area =
     (order AND 63) OR push_bit 6 (is_area AND 1) OR push_bit 7 (use AND 1)"

record buddy =
  b_lock :: bool
  b_mem_addr :: u64
  b_mem_size :: u64
  buddy_nodes :: u64
  buddy_max_order :: int
  area_desc :: "(u64 \<times> u64) list"
  alloc_infos :: u64
  infos_size :: int
  alloc_size :: u64

definition node_head :: "buddy \<Rightarrow> int \<Rightarrow> u64" where
  "node_head b order = buddy_nodes b + 32 * of_int order"

section \<open>Private helpers (buddy_allocator.hh)\<close>

definition insert_node :: "buddy \<Rightarrow> mem \<Rightarrow> u64 \<Rightarrow> int \<Rightarrow> mem" where
  "insert_node b m node order =
     (let head = node_head b order;
          m = set_node_next m node (node_next m head);
          m = set_node_prev m node head;
          m = set_node_prev m (node_next m head) node
      in set_node_next m head node)"

definition remove_node :: "mem \<Rightarrow> u64 \<Rightarrow> mem" where
  "remove_node m node =
     (let m = set_node_next m (node_prev m node) (node_next m node);
          m = set_node_prev m (node_next m node) (node_prev m node);
          m = set_node_prev m node node
      in set_node_next m node node)"

definition has_nodes :: "buddy \<Rightarrow> mem \<Rightarrow> int \<Rightarrow> bool" where
  "has_nodes b m order \<longleftrightarrow> node_next m (node_head b order) \<noteq> node_head b order"

partial_function (option) count_nodes_loop :: "mem \<Rightarrow> u64 \<Rightarrow> u64 \<Rightarrow> int \<Rightarrow> int option" where
  "count_nodes_loop m head pn cnt =
     (if pn \<noteq> head then count_nodes_loop m head (node_next m pn) (cnt + 1) else Some cnt)"

definition count_nodes :: "buddy \<Rightarrow> mem \<Rightarrow> int \<Rightarrow> int option" where
  "count_nodes b m order =
     count_nodes_loop m (node_head b order) (node_next m (node_head b order)) 0"

fun belong_area_loop :: "u64 \<Rightarrow> (u64 \<times> u64) list \<Rightarrow> (u64 \<times> u64) option" where
  "belong_area_loop addr [] = None"
| "belong_area_loop addr ((a, sz) # bds) =
     (if addr < a then belong_area_loop addr bds
      else if a + sz \<le> addr then belong_area_loop addr bds
      else Some (a, sz))"

definition belong_area :: "buddy \<Rightarrow> u64 \<Rightarrow> (u64 \<times> u64) option" where
  "belong_area b node = belong_area_loop node (area_desc b)"

definition get_info_index :: "buddy \<Rightarrow> u64 \<Rightarrow> int" where
  "get_info_index b node = sint ((node - b_mem_addr b) div page_size)"

definition info_addr :: "buddy \<Rightarrow> int \<Rightarrow> u64" where
  "info_addr b idx = alloc_infos b + of_int idx"

definition record_info :: "buddy \<Rightarrow> mem \<Rightarrow> u64 \<Rightarrow> u8 \<Rightarrow> u8 \<Rightarrow> u8 \<Rightarrow> mem" where
  "record_info b m node order use is_area =
     m(info_addr b (get_info_index b node) := mk_info order use is_area)"

definition is_in_use :: "buddy \<Rightarrow> mem \<Rightarrow> u64 \<Rightarrow> bool" where
  "is_in_use b m node \<longleftrightarrow> info_in_use (m (info_addr b (get_info_index b node)))"

definition pop_node :: "buddy \<Rightarrow> mem \<Rightarrow> int \<Rightarrow> u64 \<times> mem" where
  "pop_node b m order =
     (let node = node_next m (node_head b order) in (node, remove_node m node))"

definition get_buddy_node :: "mem \<Rightarrow> (u64 \<times> u64) \<Rightarrow> u64 \<Rightarrow> u64" where
  "get_buddy_node m bd node = ((node - fst bd) XOR node_area_size m node) + fst bd"

definition split_pair :: "mem \<Rightarrow> u64 \<Rightarrow> u64 \<Rightarrow> mem" where
  "split_pair m nd nd1 =
     (let to_sz = drop_bit 1 (node_area_size m nd);
          m = set_node_magic m nd buddy_node_magic;
          m = set_node_magic m nd1 buddy_node_magic;
          m = set_node_area_size m nd1 to_sz
      in set_node_area_size m nd to_sz)"

definition split_node :: "buddy \<Rightarrow> mem \<Rightarrow> int \<Rightarrow> u64 \<Rightarrow> int \<times> mem" where
  "split_node b m order nd =
     (if order \<le> 0 then (- 1, m)
      else if node_area_size m nd \<noteq> push_bit (nat order) page_size then (- 2, m)
      else
        let inlist = nd + drop_bit 1 (node_area_size m nd);
            m = split_pair m nd inlist;
            m = insert_node b m inlist (order - 1);
            m = record_info b m inlist (of_int (order - 1)) 0 1
        in (0, m))"

definition combine_node :: "mem \<Rightarrow> u64 \<Rightarrow> u64 \<Rightarrow> int \<times> mem" where
  "combine_node m nd nd1 =
     (if node_area_size m nd \<noteq> node_area_size m nd1 then (- 1, m)
      else
        let to_sz = push_bit 1 (node_area_size m nd);
            m = set_node m nd1 buddy_unused_magic 0 0 0;
            m = set_node m nd buddy_node_magic to_sz 0 0
        in (0, m))"

definition mem_desc :: "buddy \<Rightarrow> u64 \<times> u64" where
  "mem_desc b = (alloc_size b, b_mem_size b - alloc_size b)"

section \<open>Construction (buddy_allocator.cc)\<close>

fun reset_nodes :: "buddy \<Rightarrow> mem \<Rightarrow> nat \<Rightarrow> mem" where
  "reset_nodes b m 0 = m"
| "reset_nodes b m (Suc k) =
     (let node = node_head b (int k)
      in set_node (reset_nodes b m k) node buddy_unused_magic 0 node node)"

text \<open>
  One round of the loop over the bits of the page count; the level arrays hold 33 entries, so
  a higher level is an access out of range.
\<close>

definition init_area :: "nat \<Rightarrow> (buddy \<times> mem \<times> u64) \<Rightarrow> (buddy \<times> mem \<times> u64) option" where
  "init_area k st =
     (case st of (b, m, area_start) \<Rightarrow>
        if bit (b_mem_size b div page_size) k then
          if k < buddy_order_level_cnt \<and> length (area_desc b) < buddy_order_level_cnt then
            let node = area_start;
                m = set_node m node buddy_node_magic (push_bit k page_size) 0 0;
                m = insert_node b m node (int k);
                m = record_info b m node (of_nat k) 0 1;
                b = b\<lparr>buddy_max_order := int k,
                      area_desc := area_desc b @ [(area_start, push_bit k page_size)]\<rparr>
            in Some (b, m, area_start + node_area_size m node)
          else None
        else Some (b, m, area_start))"

fun init_areas :: "nat list \<Rightarrow> (buddy \<times> mem \<times> u64) \<Rightarrow> (buddy \<times> mem \<times> u64) option" where
  "init_areas [] st = Some st"
| "init_areas (k # ks) st = do { st' \<leftarrow> init_area k st; init_areas ks st' }"

text \<open>\<open>nodes\<close> is the address of the member array \<^verbatim>\<open>_buddy_nodes\<close> of the object under construction.\<close>

definition BuddyAllocator :: "u64 \<Rightarrow> mem \<Rightarrow> u64 \<Rightarrow> u64 \<Rightarrow> (buddy \<times> mem) option" where
  "BuddyAllocator nodes m start sz =
     do {
       kassert (start mod page_size = 0);
       kassert (64 * page_size \<le> sz);
       kassert (sz AND (page_size - 1) = 0);
       let isz = page_round_up (sz div page_size);
       let infos = start + sz - isz;
       let m = memset m infos 0 isz;
       let b = \<lparr>b_lock = False, b_mem_addr = start, b_mem_size = sz - isz, buddy_nodes = nodes,
                buddy_max_order = 0, area_desc = [], alloc_infos = infos, infos_size = sint isz,
                alloc_size = 0\<rparr>;
       let m = reset_nodes b m buddy_order_level_cnt;
       (b, m, _) \<leftarrow> init_areas [0..<64] (b, m, start);
       Some (b, m)
     }"

section \<open>Allocation\<close>

text \<open>
  The loop that looks for the order shifts a 32-bit \<^verbatim>\<open>1U\<close>; a shift by 32 or more is undefined,
  so a count above \<open>2 ^ 31\<close> has no result.
\<close>

function order_loop :: "u64 \<Rightarrow> nat \<Rightarrow> nat option" where
  "order_loop count order =
     (if 32 \<le> order then None
      else if count \<le> ucast (push_bit order 1 :: u32) then Some order
      else order_loop count (Suc order))"
  by pat_completeness auto
termination
  by (relation "measure (\<lambda>(count, order). 32 - order)") auto

declare order_loop.simps [simp del]

definition order_of :: "u64 \<Rightarrow> nat option" where
  "order_of count = order_loop count 0"

function find_level :: "buddy \<Rightarrow> mem \<Rightarrow> int \<Rightarrow> int" where
  "find_level b m i =
     (if i \<le> buddy_max_order b then if has_nodes b m i then i else find_level b m (i + 1) else i)"
  by pat_completeness auto
termination
  by (relation "measure (\<lambda>(b, m, i). nat (buddy_max_order b + 1 - i))") auto

declare find_level.simps [simp del]

text \<open>
  The splitting loop. Its test \<^verbatim>\<open>int ret = _split_node( .. ) < 0\<close> binds the truth value of the
  comparison, so the assertion \<^verbatim>\<open>ret >= 0\<close> inside cannot fail: the loop goes on in any case.
\<close>

function split_loop :: "buddy \<Rightarrow> mem \<Rightarrow> u64 \<Rightarrow> int \<Rightarrow> int \<Rightarrow> mem" where
  "split_loop b m node i order =
     (if order < i then split_loop b (snd (split_node b m i node)) node (i - 1) order else m)"
  by pat_completeness auto
termination
  by (relation "measure (\<lambda>(b, m, node, i, order). nat (i - order))") auto

declare split_loop.simps [simp del]

definition acquire :: "buddy \<Rightarrow> buddy option" where
  "acquire b = (if b_lock b then None else Some (b\<lparr>b_lock := True\<rparr>))"

definition release :: "buddy \<Rightarrow> buddy option" where
  "release b = (if b_lock b then Some (b\<lparr>b_lock := False\<rparr>) else None)"

definition alloc_pages :: "buddy \<Rightarrow> mem \<Rightarrow> u64 \<Rightarrow> (u64 \<times> buddy \<times> mem) option" where
  "alloc_pages b m count =
     (if count = 0 then Some (0, b, m)
      else do {
        order \<leftarrow> order_of count;
        b \<leftarrow> acquire b;
        let i = find_level b m (int order);
        if buddy_max_order b < i then do { b \<leftarrow> release b; Some (0, b, m) }
        else
          let (node, m) = pop_node b m i
          in if node_magic m node \<noteq> buddy_node_magic then do { b \<leftarrow> release b; Some (0, b, m) }
             else
               let m = split_loop b m node i (int order);
                   m = record_info b m node (of_nat order) 1 1;
                   b = b\<lparr>alloc_size := alloc_size b + push_bit order 1 * page_size\<rparr>
               in do { b \<leftarrow> release b; Some (node, b, m) }
      })"

section \<open>Release of pages\<close>

partial_function (option) merge_loop ::
  "buddy \<Rightarrow> (u64 \<times> u64) \<Rightarrow> mem \<Rightarrow> u64 \<Rightarrow> int \<Rightarrow> (mem \<times> u64 \<times> int) option" where
  "merge_loop b bd m node order =
     (if node_area_size m node = snd bd then Some (m, node, order)
      else
        let buddy = get_buddy_node m bd node
        in if is_in_use b m buddy then Some (m, node, order)
           else if node_area_size m node \<noteq> node_area_size m buddy then Some (m, node, order)
           else
             let m = remove_node m buddy;
                 (node, buddy) = (if buddy < node then (buddy, node) else (node, buddy));
                 m = record_info b m buddy 0 0 0;
                 (r, m) = combine_node m node buddy
             in if r \<ge> 0 then merge_loop b bd m node (order + 1) else None)"

definition free_pages :: "buddy \<Rightarrow> mem \<Rightarrow> u64 \<Rightarrow> (int \<times> buddy \<times> mem) option" where
  "free_pages b m ptr =
     (if ptr = 0 then Some (- 1, b, m)
      else if \<not> is_page_align ptr then Some (- 2, b, m)
      else do {
        b \<leftarrow> acquire b;
        let idx = get_info_index b ptr;
        kassert (idx < infos_size b);
        let info = m (info_addr b idx);
        if \<not> info_area_flag info then do { b \<leftarrow> release b; Some (0, b, m) }
        else if \<not> info_in_use info then do { b \<leftarrow> release b; Some (- 3, b, m) }
        else do {
          kassert (uint (info_order info) \<le> buddy_max_order b);
          let m = m(info_addr b idx := info AND NOT 128);
          let order = uint (info_order info);
          let b = b\<lparr>alloc_size := alloc_size b - push_bit (nat order) 1 * page_size\<rparr>;
          bd \<leftarrow> belong_area b ptr;
          let m = set_node m ptr buddy_node_magic (push_bit (nat order) page_size) 0 0;
          (m, node, order) \<leftarrow> merge_loop b bd m ptr order;
          let m = insert_node b m node order;
          let m = record_info b m node (of_int order) 0 1;
          b \<leftarrow> release b;
          Some (0, b, m)
        }
      })"

end
