(* ===== verification/Buddy_Lists.thy ===== *)
theory Buddy_Lists
  imports Buddy
begin

text \<open>
  The intrusive lists of the buddy allocator as lists: read-over-write laws for the node fields
  of nodes that do not overlap, the doubly linked segments they form (\<open>seg\<close>), and what
  \<open>insert_node\<close> and \<open>remove_node\<close> do to them.
\<close>

section \<open>Node fields\<close>

definition node_ok :: "u64 \<Rightarrow> bool" where
  "node_ok p \<longleftrightarrow> unat p mod 8 = 0 \<and> unat p + 32 \<le> 2 ^ 64"

definition apart :: "u64 \<Rightarrow> u64 \<Rightarrow> bool" where
  "apart p q \<longleftrightarrow> unat p + 32 \<le> unat q \<or> unat q + 32 \<le> unat p"

definition nodes_ok :: "u64 set \<Rightarrow> bool" where
  "nodes_ok N \<longleftrightarrow> (\<forall>p\<in>N. node_ok p) \<and> (\<forall>p\<in>N. \<forall>q\<in>N. p \<noteq> q \<longrightarrow> apart p q)"

lemma unat_field:
  assumes "node_ok p"
  shows "unat (p + 8) = unat p + 8" "unat (p + 16) = unat p + 16" "unat (p + 24) = unat p + 24"
  using assms by (simp_all add: node_ok_def unat_word_ariths)

lemma field_aligned:
  assumes "node_ok p"
  shows "unat p mod 8 = 0" "unat (p + 8) mod 8 = 0" "unat (p + 16) mod 8 = 0" "unat (p + 24) mod 8 = 0"
  using assms by (auto simp: unat_field [OF assms] node_ok_def)

lemma nodes_ok_field:
  assumes "nodes_ok N" "p \<in> N" "q \<in> N"
  shows "p + 8 \<noteq> q" "p + 16 \<noteq> q" "p + 24 \<noteq> q" "p + 8 \<noteq> q + 16" "p + 8 \<noteq> q + 24" "p + 16 \<noteq> q + 24"
proof -
  have pq: "node_ok p" "node_ok q" using assms by (auto simp: nodes_ok_def)
  have d: "p = q \<or> apart p q" using assms by (auto simp: nodes_ok_def)
  note u = unat_field [OF pq(1)] unat_field [OF pq(2)]
  show "p + 8 \<noteq> q" "p + 16 \<noteq> q" "p + 24 \<noteq> q" "p + 8 \<noteq> q + 16" "p + 8 \<noteq> q + 24" "p + 16 \<noteq> q + 24"
    using d by (auto simp: word_unat_eq_iff u apart_def)
qed

named_theorems node_defs
lemmas [node_defs] = node_magic_def node_area_size_def node_prev_def node_next_def
  set_node_magic_def set_node_area_size_def set_node_prev_def set_node_next_def

lemma node_rw:
  assumes N: "nodes_ok N" and p: "p \<in> N" and q: "q \<in> N"
  shows
    "node_next (set_node_next m p v) q = (if p = q then v else node_next m q)"
    "node_prev (set_node_prev m p v) q = (if p = q then v else node_prev m q)"
    "node_area_size (set_node_area_size m p v) q = (if p = q then v else node_area_size m q)"
    "node_magic (set_node_magic m p v) q = (if p = q then v else node_magic m q)"
    "node_next (set_node_prev m p v) q = node_next m q"
    "node_next (set_node_area_size m p v) q = node_next m q"
    "node_next (set_node_magic m p v) q = node_next m q"
    "node_prev (set_node_next m p v) q = node_prev m q"
    "node_prev (set_node_area_size m p v) q = node_prev m q"
    "node_prev (set_node_magic m p v) q = node_prev m q"
    "node_area_size (set_node_next m p v) q = node_area_size m q"
    "node_area_size (set_node_prev m p v) q = node_area_size m q"
    "node_area_size (set_node_magic m p v) q = node_area_size m q"
    "node_magic (set_node_next m p v) q = node_magic m q"
    "node_magic (set_node_prev m p v) q = node_magic m q"
    "node_magic (set_node_area_size m p v) q = node_magic m q"
proof -
  have pq: "node_ok p" "node_ok q" using N p q by (auto simp: nodes_ok_def)
  note al = field_aligned [OF pq(1)] field_aligned [OF pq(2)]
  note ne = nodes_ok_field [OF N p q] nodes_ok_field [OF N q p] nodes_ok_field [OF N q p, symmetric]
  show
    "node_next (set_node_next m p v) q = (if p = q then v else node_next m q)"
    "node_prev (set_node_prev m p v) q = (if p = q then v else node_prev m q)"
    "node_area_size (set_node_area_size m p v) q = (if p = q then v else node_area_size m q)"
    "node_magic (set_node_magic m p v) q = (if p = q then v else node_magic m q)"
    "node_next (set_node_prev m p v) q = node_next m q"
    "node_next (set_node_area_size m p v) q = node_next m q"
    "node_next (set_node_magic m p v) q = node_next m q"
    "node_prev (set_node_next m p v) q = node_prev m q"
    "node_prev (set_node_area_size m p v) q = node_prev m q"
    "node_prev (set_node_magic m p v) q = node_prev m q"
    "node_area_size (set_node_next m p v) q = node_area_size m q"
    "node_area_size (set_node_prev m p v) q = node_area_size m q"
    "node_area_size (set_node_magic m p v) q = node_area_size m q"
    "node_magic (set_node_next m p v) q = node_magic m q"
    "node_magic (set_node_prev m p v) q = node_magic m q"
    "node_magic (set_node_area_size m p v) q = node_magic m q"
    using ne by (simp_all add: node_defs ld64_st64 al)
qed

fun seg :: "mem \<Rightarrow> u64 \<Rightarrow> u64 list \<Rightarrow> u64 \<Rightarrow> bool" where
  "seg m p [] q \<longleftrightarrow> node_next m p = q \<and> node_prev m q = p"
| "seg m p (x # xs) q \<longleftrightarrow> node_next m p = x \<and> node_prev m x = p \<and> seg m x xs q"

lemma seg_frame:
  "(\<And>x. x \<in> set (p # xs) \<Longrightarrow> node_next m' x = node_next m x) \<Longrightarrow>
   (\<And>x. x \<in> set (xs @ [q]) \<Longrightarrow> node_prev m' x = node_prev m x) \<Longrightarrow> seg m' p xs q = seg m p xs q"
  by (induction xs arbitrary: p) auto

lemma seg_append: "seg m p (xs @ x # ys) q \<longleftrightarrow> seg m p xs x \<and> seg m x ys q"
  by (induction xs arbitrary: p) auto

lemma seg_first: "seg m p xs q \<Longrightarrow> node_next m p = hd (xs @ [q])"
  by (cases xs) auto

lemma seg_last: "seg m p xs q \<Longrightarrow> node_prev m q = last (p # xs)"
  by (induction xs arbitrary: p) auto

lemma insert_node_seg:
  assumes N: "nodes_ok N" "set (n # node_head b k # xs) \<subseteq> N"
    and s: "seg m (node_head b k) xs (node_head b k)" and d: "distinct (n # node_head b k # xs)"
  shows "seg (insert_node b m n k) (node_head b k) (n # xs) (node_head b k)"
proof -
  let ?h = "node_head b k"
  have in_N: "n \<in> N" "?h \<in> N" "hd (xs @ [?h]) \<in> N" "\<And>x. x \<in> set xs \<Longrightarrow> x \<in> N"
    using N(2) by (cases xs; auto)+
  note rw = node_rw [OF N(1)] in_N
  have nh: "node_next m ?h = hd (xs @ [?h])" using s by (rule seg_first)
  show ?thesis
  proof (cases xs)
    case Nil
    with d s nh show ?thesis by (auto simp: insert_node_def Let_def rw)
  next
    case (Cons y ys)
    have "seg m y ys ?h" using s Cons by simp
    then have "seg (insert_node b m n k) y ys ?h"
      using d Cons nh in_N
      by (subst seg_frame [where m = m]) (auto simp: insert_node_def Let_def rw)
    with Cons d nh in_N show ?thesis
      by (auto simp: insert_node_def Let_def rw)
  qed
qed


lemma insert_node_other:
  assumes N: "nodes_ok N" "n \<in> N" "node_head b k \<in> N" "node_next m (node_head b k) \<in> N" "q \<in> N"
  shows "node_magic (insert_node b m n k) q = node_magic m q"
    "node_area_size (insert_node b m n k) q = node_area_size m q"
    "q \<noteq> n \<Longrightarrow> q \<noteq> node_head b k \<Longrightarrow> node_next (insert_node b m n k) q = node_next m q"
    "q \<noteq> n \<Longrightarrow> q \<noteq> node_next m (node_head b k) \<Longrightarrow> n \<noteq> node_head b k \<Longrightarrow> 
       node_prev (insert_node b m n k) q = node_prev m q"
  using N by (auto simp: insert_node_def Let_def node_rw [OF N(1)])

lemma remove_node_seg:
  assumes N: "nodes_ok N" "set (h # xs @ x # ys @ [e]) \<subseteq> N"
    and s: "seg m h xs x" "seg m x ys e"
    and d: "distinct (h # xs @ x # ys)" "e \<notin> set (xs @ x # ys)" 
  shows "seg (remove_node m x) h (xs @ ys) e"
proof -
  let ?m = "remove_node m x" and ?p = "last (h # xs)" and ?q = "hd (ys @ [e])"
  have pn: "node_prev m x = ?p" "node_next m x = ?q"
    using seg_last [OF s(1)] seg_first [OF s(2)] by auto
  have in_N: "x \<in> N" "?p \<in> N" "?q \<in> N" "\<And>y. y \<in> set (h # xs @ ys @ [e]) \<Longrightarrow> y \<in> N"
    using N(2) by (auto simp: hd_append split: if_splits)
  have px: "?p \<noteq> x" "?q \<noteq> x"
    using d last_in_set [of "h # xs"] hd_in_set [of "ys @ [e]"] by auto
  note rw = node_rw [OF N(1)] in_N
  have nx: "node_next ?m y = (if y = ?p then ?q else node_next m y)" if "y \<in> N" "y \<noteq> x" for y
    using that px by (auto simp: remove_node_def Let_def rw pn)
  have pv: "node_prev ?m y = (if y = ?q then ?p else node_prev m y)" if "y \<in> N" "y \<noteq> x" for y
    using that px by (auto simp: remove_node_def Let_def rw pn)
  have tail: "seg ?m ?p ys e"
  proof (cases ys)
    case Nil
    with s(2) in_N px d show ?thesis by (simp add: nx pv)
  next
    case (Cons y zs)
    have "seg m y zs e" using s(2) Cons by simp
    moreover have "node_next ?m z = node_next m z" if "z \<in> set (y # zs)" for z
    proof -
      have "z \<in> N" "z \<noteq> x" "z \<noteq> ?p" using that d Cons in_N(4) last_in_set [of "h # xs"] by auto
      then show ?thesis by (simp add: nx)
    qed
    moreover have "node_prev ?m z = node_prev m z" if "z \<in> set (zs @ [e])" for z
    proof -
      have "z \<in> N" "z \<noteq> x" "z \<noteq> ?q" using that d Cons in_N(4) by auto
      then show ?thesis by (simp add: pv)
    qed
    ultimately have "seg ?m y zs e" by (subst seg_frame [where m = m])
    with Cons in_N px d show ?thesis by (simp add: nx pv)
  qed
  show ?thesis
  proof (cases "xs = []")
    case True
    with tail show ?thesis by simp
  next
    case False
    then obtain us u where xs: "xs = us @ [u]" by (metis rev_exhaust)
    have sm: "seg m h us u" using s(1) unfolding xs by (simp add: seg_append [of m h us u "[]", simplified])
    have "node_next ?m z = node_next m z" if "z \<in> set (h # us)" for z
    proof -
      have "z \<in> N" "z \<noteq> x" "z \<noteq> ?p" using that d xs in_N(4) by auto
      then show ?thesis by (simp add: nx)
    qed
    moreover have "node_prev ?m z = node_prev m z" if "z \<in> set (us @ [u])" for z
    proof -
      have "z \<in> N" "z \<noteq> x" "z \<noteq> ?q" using that d xs in_N(4) by (cases ys; auto)+
      then show ?thesis by (simp add: pv)
    qed
    ultimately have "seg ?m h us u" using sm by (subst seg_frame [where m = m])
    with tail xs show ?thesis by (simp add: seg_append)
  qed
qed

lemma remove_node_other:
  assumes N: "nodes_ok N" "x \<in> N" "node_prev m x \<in> N" "node_next m x \<in> N" "q \<in> N"
  shows "node_magic (remove_node m x) q = node_magic m q"
    "node_area_size (remove_node m x) q = node_area_size m q"
    "q \<noteq> x \<Longrightarrow> q \<noteq> node_prev m x \<Longrightarrow> node_next (remove_node m x) q = node_next m q"
    "q \<noteq> x \<Longrightarrow> q \<noteq> node_next m x \<Longrightarrow> node_prev m x \<noteq> x \<Longrightarrow>
       node_prev (remove_node m x) q = node_prev m q"
  using N by (auto simp: remove_node_def Let_def node_rw [OF N(1)])

text \<open>A byte written outside a node leaves its fields alone.\<close>

definition byte_apart :: "u64 \<Rightarrow> u64 \<Rightarrow> bool" where
  "byte_apart a p \<longleftrightarrow> unat a < unat p \<or> unat p + 32 \<le> unat a"

lemma byte_far:
  fixes a f :: u64
  assumes "unat a < unat f \<or> unat f + 8 \<le> unat a" "unat f + 8 \<le> 2 ^ 64"
  shows "8 \<le> a - f"
  using assms unat_less_2p [of a] unat_less_2p [of f]
  by (auto simp: word_le_nat_alt unat_sub_if')

lemma node_byte_other:
  assumes "node_ok p" "byte_apart a p"
  shows "node_magic (m(a := v)) p = node_magic m p" "node_area_size (m(a := v)) p = node_area_size m p"
    "node_prev (m(a := v)) p = node_prev m p" "node_next (m(a := v)) p = node_next m p"
proof -
  note u = unat_field [OF assms(1)]
  have "unat p + 32 \<le> 2 ^ 64" using assms(1) by (simp add: node_ok_def)
  then have "8 \<le> a - p" "8 \<le> a - (p + 8)" "8 \<le> a - (p + 16)" "8 \<le> a - (p + 24)"
    using assms(2) by (auto intro!: byte_far simp: u byte_apart_def)
  then show "node_magic (m(a := v)) p = node_magic m p" "node_area_size (m(a := v)) p = node_area_size m p"
    "node_prev (m(a := v)) p = node_prev m p" "node_next (m(a := v)) p = node_next m p"
    by (simp_all add: node_defs ld64_byte_other)
qed

end
