(* ===== verification/Buddy_Correct.thy ===== *)
theory Buddy_Correct
  imports Buddy_Lists
begin

text \<open>
  Correctness of the buddy allocator. \<open>buddy_inv b m F\<close> says that memory \<open>m\<close> holds, for every
  level \<open>k\<close>, the free list \<open>F k\<close> of pairwise disjoint page-aligned blocks of \<open>4096 * 2 ^ k\<close>
  bytes inside the managed range, linked from the head of the level. The constructor
  establishes it; \<open>alloc_pages\<close> refines \<open>alloc_spec\<close>, which takes the first block of the
  lowest sufficient non-empty level and puts the unused upper halves back.
\<close>

section \<open>Geometry of the managed range\<close>

definition blk_size :: "nat \<Rightarrow> nat" where "blk_size k = 4096 * 2 ^ k"

lemma unat_blk: "k \<le> 32 \<Longrightarrow> unat (push_bit k page_size :: u64) = blk_size k"
proof -
  assume k: "k \<le> 32"
  have "unat (push_bit k page_size :: u64) = take_bit 64 (push_bit k (4096::nat))"
    by (simp add: unsigned_push_bit_eq page_size_def)
  also have "push_bit k (4096::nat) = blk_size k" by (simp add: push_bit_eq_mult blk_size_def)
  also have "blk_size k \<le> 4096 * 2 ^ 32" using power_increasing [OF k, of "2::nat"] by (simp add: blk_size_def)
  then have "take_bit 64 (blk_size k) = blk_size k" by (simp add: take_bit_nat_eq_self)
  finally show ?thesis .
qed

lemma blk_size_Suc: "blk_size (Suc k) = blk_size k + blk_size k" by (simp add: blk_size_def)
lemma blk_size_ge: "4096 \<le> blk_size k" by (simp add: blk_size_def)
lemma blk_size_mod: "blk_size k mod 4096 = 0" by (simp add: blk_size_def)

lemma blk_size_inj: "blk_size j = blk_size k \<longleftrightarrow> j = k" by (simp add: blk_size_def)

definition ram_lo :: "buddy \<Rightarrow> nat" where "ram_lo b = unat (b_mem_addr b)"
definition ram_hi :: "buddy \<Rightarrow> nat" where "ram_hi b = unat (b_mem_addr b) + unat (b_mem_size b)"

definition geometry :: "buddy \<Rightarrow> bool" where
  "geometry b \<longleftrightarrow>
     unat (b_mem_addr b) mod 4096 = 0 \<and> unat (b_mem_size b) mod 4096 = 0 \<and>
     0 < unat (b_mem_addr b) \<and>
     alloc_infos b = b_mem_addr b + b_mem_size b \<and>
     int (unat (b_mem_size b) div 4096) \<le> infos_size b \<and>
     ram_hi b + nat (infos_size b) \<le> 2 ^ 64 - 1 \<and>
     unat (buddy_nodes b) mod 8 = 0 \<and> unat (buddy_nodes b) + 33 * 32 \<le> 2 ^ 64 \<and>
     (unat (buddy_nodes b) + 33 * 32 \<le> ram_lo b \<or> ram_hi b + nat (infos_size b) \<le> unat (buddy_nodes b)) \<and>
     0 \<le> buddy_max_order b \<and> buddy_max_order b \<le> 32"

definition node_space :: "buddy \<Rightarrow> u64 set" where
  "node_space b = {node_head b (int k) |k. k \<le> 32} \<union>
     {p. unat p mod 4096 = 0 \<and> ram_lo b \<le> unat p \<and> unat p + 4096 \<le> ram_hi b}"

lemma unat_node_head:
  assumes "geometry b" "k \<le> 32"
  shows "unat (node_head b (int k)) = unat (buddy_nodes b) + 32 * k"
proof -
  have "unat (32 * of_nat k :: u64) = 32 * k" using assms(2) by (simp add: unat_word_ariths unat_of_nat)
  then show ?thesis using assms by (simp add: node_head_def geometry_def unat_word_ariths)
qed

lemma node_head_inj:
  assumes "geometry b" "j \<le> 32" "k \<le> 32"
  shows "node_head b (int j) = node_head b (int k) \<longleftrightarrow> j = k"
  using unat_node_head [OF assms(1,2)] unat_node_head [OF assms(1,3)] by (auto simp: word_unat_eq_iff)

lemma nodes_ok_space: "geometry b \<Longrightarrow> nodes_ok (node_space b)"
proof -
  assume g: "geometry b"
  note h = unat_node_head [OF g]
  have ok: "node_ok p" if "p \<in> node_space b" for p
    using that g unat_less_2p [of p] unfolding node_space_def node_ok_def
    by (auto simp: h geometry_def page_aligned_mod8)
  have dis: "unat (buddy_nodes b) + 33 * 32 \<le> ram_lo b \<or> ram_hi b \<le> unat (buddy_nodes b)"
    using g by (auto simp: geometry_def)
  have ap: "apart p q" if pq: "p \<in> node_space b" "q \<in> node_space b" "p \<noteq> q" for p q
  proof -
    have ne: "unat p \<noteq> unat q" using pq(3) by (simp add: word_unat_eq_iff)
    have cls: "(\<exists>k \<le> 32. unat x = unat (buddy_nodes b) + 32 * k) \<or>
        unat x mod 4096 = 0 \<and> ram_lo b \<le> unat x \<and> unat x + 4096 \<le> ram_hi b"
      if "x \<in> node_space b" for x
      using that unfolding node_space_def by (auto simp: h)
    have pages: "unat p + 4096 \<le> unat q \<or> unat q + 4096 \<le> unat p"
      if "unat p mod 4096 = 0" "unat q mod 4096 = 0"
      using page_multiples_apart [OF that ne] .
    consider (hh) j k where "unat p = unat (buddy_nodes b) + 32 * j" "unat q = unat (buddy_nodes b) + 32 * k"
      | (hp) j where "j \<le> 32" "unat p = unat (buddy_nodes b) + 32 * j" "ram_lo b \<le> unat q" "unat q + 4096 \<le> ram_hi b"
      | (ph) k where "k \<le> 32" "unat q = unat (buddy_nodes b) + 32 * k" "ram_lo b \<le> unat p" "unat p + 4096 \<le> ram_hi b"
      | (pp) "unat p mod 4096 = 0" "unat q mod 4096 = 0"
      using cls [OF pq(1)] cls [OF pq(2)] by metis
    then show ?thesis
    proof cases
      case hh
      with ne have "j < k \<or> k < j" by auto
      with hh show ?thesis unfolding apart_def by linarith
    next
      case hp
      with dis show ?thesis unfolding apart_def by linarith
    next
      case ph
      with dis show ?thesis unfolding apart_def by linarith
    next
      case pp
      from pages [OF this] show ?thesis unfolding apart_def by linarith
    qed
  qed
  show ?thesis unfolding nodes_ok_def using ok ap by blast
qed

definition info_byte :: "buddy \<Rightarrow> u64 \<Rightarrow> u64" where
  "info_byte b p = info_addr b (get_info_index b p)"

lemma unat_info_byte:
  assumes g: "geometry b" and p: "ram_lo b \<le> unat p" "unat p < ram_hi b"
  shows "get_info_index b p = int ((unat p - ram_lo b) div 4096)"
    "unat (info_byte b p) = ram_hi b + (unat p - ram_lo b) div 4096"
    "(unat p - ram_lo b) div 4096 < nat (infos_size b)"
proof -
  let ?i = "(unat p - ram_lo b) div 4096"
  have d: "unat ((p - b_mem_addr b) div page_size) = ?i"
    using p by (simp add: unat_div page_size_def unat_sub_if' ram_lo_def)
  have lt: "unat p - ram_lo b < 2 ^ 64" using unat_less_2p [of p] by linarith
  then have "?i < 2 ^ 52" by simp
  then have "?i < 2 ^ 63" by simp
  then show gi: "get_info_index b p = int ?i"
    unfolding get_info_index_def using d by (simp add: sint_small)
  have "unat p - ram_lo b < unat (b_mem_size b)" using p by (simp add: ram_lo_def ram_hi_def)
  moreover have "unat (b_mem_size b) mod 4096 = 0" using g by (simp add: geometry_def)
  ultimately have "?i < unat (b_mem_size b) div 4096" by (simp add: div_less_iff_less_mult dvd_eq_mod_eq_0 [symmetric])
  then show i: "?i < nat (infos_size b)" using g unfolding geometry_def by linarith
  have "unat (of_nat ?i :: u64) = ?i" using lt by (simp add: unat_of_nat)
  then show "unat (info_byte b p) = ram_hi b + ?i"
    unfolding info_byte_def info_addr_def gi using g i
    by (simp add: geometry_def unat_word_ariths ram_hi_def ram_lo_def)
qed

section \<open>The invariant\<close>

type_synonym free_lists = "nat \<Rightarrow> u64 list"

definition blk_in :: "buddy \<Rightarrow> u64 \<Rightarrow> nat \<Rightarrow> bool" where
  "blk_in b p k \<longleftrightarrow> unat p mod 4096 = 0 \<and> ram_lo b \<le> unat p \<and> unat p + blk_size k \<le> ram_hi b"

definition blk_disj :: "u64 \<Rightarrow> nat \<Rightarrow> u64 \<Rightarrow> nat \<Rightarrow> bool" where
  "blk_disj p j q k \<longleftrightarrow> unat p + blk_size j \<le> unat q \<or> unat q + blk_size k \<le> unat p"

definition free_blk :: "mem \<Rightarrow> u64 \<Rightarrow> nat \<Rightarrow> bool" where
  "free_blk m p k \<longleftrightarrow> node_magic m p = buddy_node_magic \<and> node_area_size m p = push_bit k page_size"

definition buddy_inv :: "buddy \<Rightarrow> mem \<Rightarrow> free_lists \<Rightarrow> bool" where
  "buddy_inv b m F \<longleftrightarrow>
     geometry b \<and>
     (\<forall>k. nat (buddy_max_order b) < k \<longrightarrow> F k = []) \<and>
     (\<forall>k. \<forall>p \<in> set (F k). blk_in b p k \<and> free_blk m p k) \<and>
     (\<forall>j k. \<forall>p \<in> set (F j). \<forall>q \<in> set (F k). (p, j) \<noteq> (q, k) \<longrightarrow> blk_disj p j q k) \<and>
     (\<forall>k. distinct (F k)) \<and>
     (\<forall>k \<le> 32. seg m (node_head b (int k)) (F k) (node_head b (int k)))"

definition held :: "buddy \<Rightarrow> mem \<Rightarrow> free_lists \<Rightarrow> u64 \<Rightarrow> nat \<Rightarrow> bool" where
  "held b m F p k \<longleftrightarrow> k \<le> nat (buddy_max_order b) \<and> blk_in b p k \<and> free_blk m p k \<and>
     (\<forall>j. \<forall>q \<in> set (F j). blk_disj p k q j)"

lemma blk_disj_sym: "blk_disj p j q k \<longleftrightarrow> blk_disj q k p j" by (auto simp: blk_disj_def)

lemma blk_disj_neq: "blk_disj p j q k \<Longrightarrow> p \<noteq> q"
  using blk_size_ge [of j] blk_size_ge [of k] by (auto simp: blk_disj_def)

lemma blk_in_space: "blk_in b p k \<Longrightarrow> p \<in> node_space b"
  using blk_size_ge [of k] by (auto simp: blk_in_def node_space_def)

lemma head_in_space: "k \<le> 32 \<Longrightarrow> node_head b (int k) \<in> node_space b"
  by (auto simp: node_space_def)

lemma head_not_page:
  assumes "geometry b" "blk_in b p j" "k \<le> 32"
  shows "node_head b (int k) \<noteq> p"
  using assms unat_node_head [OF assms(1,3)] blk_size_ge [of j]
  by (auto simp: geometry_def blk_in_def)

lemma info_apart:
  assumes g: "geometry b" and p: "blk_in b p k" and q: "q \<in> node_space b"
  shows "byte_apart (info_byte b p) q"
proof -
  have "ram_lo b \<le> unat p" "unat p < ram_hi b"
    using p blk_size_ge [of k] by (auto simp: blk_in_def)
  note i = unat_info_byte(2,3) [OF g this]
  have "ram_lo b \<le> ram_hi b" by (simp add: ram_lo_def ram_hi_def)
  then show ?thesis using q g i unat_node_head [OF g] unfolding node_space_def byte_apart_def
    by (auto simp: geometry_def)
qed

lemma record_info_node:
  assumes g: "geometry b" and p: "blk_in b p k" and q: "q \<in> node_space b"
  shows "node_magic (record_info b m p x y z) q = node_magic m q"
    "node_area_size (record_info b m p x y z) q = node_area_size m q"
    "node_prev (record_info b m p x y z) q = node_prev m q"
    "node_next (record_info b m p x y z) q = node_next m q"
proof -
  have "node_ok q" using nodes_ok_space [OF g] q by (auto simp: nodes_ok_def)
  note r = node_byte_other [OF this info_apart [OF g p q]]
  show "node_magic (record_info b m p x y z) q = node_magic m q"
    "node_area_size (record_info b m p x y z) q = node_area_size m q"
    "node_prev (record_info b m p x y z) q = node_prev m q"
    "node_next (record_info b m p x y z) q = node_next m q"
    unfolding record_info_def info_byte_def [symmetric] by (simp_all only: r)
qed

lemma inv_blk_space: "buddy_inv b m F \<Longrightarrow> p \<in> set (F k) \<Longrightarrow> p \<in> node_space b"
  using blk_in_space unfolding buddy_inv_def by blast

lemma buddy_inv_cong:
  assumes inv: "buddy_inv b m F"
    and f: "\<And>q. q \<in> node_space b \<Longrightarrow> node_magic m' q = node_magic m q"
      "\<And>q. q \<in> node_space b \<Longrightarrow> node_area_size m' q = node_area_size m q"
      "\<And>q. q \<in> node_space b \<Longrightarrow> node_prev m' q = node_prev m q"
      "\<And>q. q \<in> node_space b \<Longrightarrow> node_next m' q = node_next m q"
  shows "buddy_inv b m' F"
proof -
  have sp: "\<And>p k. p \<in> set (F k) \<Longrightarrow> p \<in> node_space b" using inv_blk_space [OF inv] .
  have "seg m' (node_head b (int k)) (F k) (node_head b (int k)) =
        seg m (node_head b (int k)) (F k) (node_head b (int k))" if "k \<le> 32" for k
    by (rule seg_frame) (use sp head_in_space [OF that] f in auto)
  moreover have "free_blk m' p k = free_blk m p k" if "p \<in> set (F k)" for p k
    using sp [OF that] f by (simp add: free_blk_def)
  ultimately show ?thesis using inv unfolding buddy_inv_def by auto
qed


lemma invD:
  assumes "buddy_inv b m F"
  shows "geometry b" "k \<le> 32 \<Longrightarrow> seg m (node_head b (int k)) (F k) (node_head b (int k))"
    "distinct (F k)" "p \<in> set (F k) \<Longrightarrow> blk_in b p k" "p \<in> set (F k) \<Longrightarrow> free_blk m p k"
    "p \<in> set (F k) \<Longrightarrow> k \<le> 32"
    "p \<in> set (F j) \<Longrightarrow> q \<in> set (F k) \<Longrightarrow> (p, j) \<noteq> (q, k) \<Longrightarrow> blk_disj p j q k"
    "p \<in> set (F j) \<Longrightarrow> p \<in> set (F k) \<Longrightarrow> j = k"
    "p \<in> set (F k) \<Longrightarrow> k \<le> nat (buddy_max_order b)"
proof -
  note d = assms [unfolded buddy_inv_def]
  show "geometry b" "k \<le> 32 \<Longrightarrow> seg m (node_head b (int k)) (F k) (node_head b (int k))"
    "distinct (F k)" "p \<in> set (F k) \<Longrightarrow> blk_in b p k" "p \<in> set (F k) \<Longrightarrow> free_blk m p k"
    using d by blast+
  show mx: "p \<in> set (F k) \<Longrightarrow> k \<le> nat (buddy_max_order b)" using d
    by (metis empty_iff empty_set leI)
  have "nat (buddy_max_order b) \<le> 32" using d unfolding geometry_def by linarith
  with mx show "p \<in> set (F k) \<Longrightarrow> k \<le> 32" by linarith
  show dj: "p \<in> set (F j) \<Longrightarrow> q \<in> set (F k) \<Longrightarrow> (p, j) \<noteq> (q, k) \<Longrightarrow> blk_disj p j q k" for p j q k
    using d by blast
  show "p \<in> set (F j) \<Longrightarrow> p \<in> set (F k) \<Longrightarrow> j = k"
    using dj [of p j p k] blk_disj_neq [of p j p k] by blast
qed

text \<open>Taking a block off its list, and the first block of a list in particular.\<close>

lemma unlink_node_inv:
  assumes inv: "buddy_inv b m F" and F: "F i = xs @ p # ps"
  shows "buddy_inv b (remove_node m p) (F(i := xs @ ps))"
    "held b (remove_node m p) (F(i := xs @ ps)) p i"
proof -
  let ?h = "node_head b (int i)" and ?m = "remove_node m p" and ?F = "F(i := xs @ ps)"
  note g = invD(1) [OF inv]
  note N = nodes_ok_space [OF g]
  have pF: "p \<in> set (F i)" using F by simp
  have i: "i \<le> 32" using invD(6) [OF inv pF] .
  have s: "seg m ?h xs p" "seg m p ps ?h" using invD(2) [OF inv i] F by (simp_all add: seg_append)
  have sp: "\<And>x k. x \<in> set (F k) \<Longrightarrow> x \<in> node_space b" using inv_blk_space [OF inv] .
  have hn: "node_head b (int k) \<noteq> x" if "k \<le> 32" "x \<in> set (F j)" for k x j
    using head_not_page [OF g invD(4) [OF inv that(2)] that(1)] .
  have links: "node_prev m p \<in> insert ?h (set xs)" "node_next m p \<in> insert ?h (set ps)"
    using seg_last [OF s(1)] seg_first [OF s(2)] by (cases xs; cases ps; auto)+
  then have lF: "node_prev m p \<in> insert ?h (set (F i))" "node_next m p \<in> insert ?h (set (F i))"
    using F by auto
  then have linksp: "node_prev m p \<in> node_space b" "node_next m p \<in> node_space b"
    using head_in_space [OF i] sp [of _ i] by auto
  have np: "node_prev m p \<noteq> p" using links(1) hn [OF i pF] invD(3) [OF inv, of i] F by auto
  note other = remove_node_other [OF N sp [OF pF] linksp]
  have si: "seg ?m ?h (xs @ ps) ?h"
    using remove_node_seg [OF N, of ?h xs p ps ?h m] s sp [of _ i] F head_in_space [OF i]
      hn [OF i, of _ i] invD(3) [OF inv, of i] by auto
  have sk: "seg ?m (node_head b (int k)) (F k) (node_head b (int k))" if k: "k \<le> 32" "k \<noteq> i" for k
  proof -
    have nF: "x \<noteq> p" "x \<noteq> node_next m p" "x \<noteq> node_prev m p" "x \<in> node_space b" if "x \<in> set (F k)" for x
      using that k(2) invD(8) [OF inv, of x k i] hn [OF i that] sp [OF that] pF lF by auto
    have nh: "node_head b (int k) \<noteq> p" "node_head b (int k) \<noteq> node_next m p" "node_head b (int k) \<noteq> node_prev m p"
      using hn [OF k(1), of _ i] pF lF node_head_inj [OF g k(1) i] k(2) by auto
    have "seg ?m (node_head b (int k)) (F k) (node_head b (int k)) =
          seg m (node_head b (int k)) (F k) (node_head b (int k))"
      by (rule seg_frame) (use other(3,4) nF nh np head_in_space [OF k(1)] in auto)
    then show ?thesis using invD(2) [OF inv k(1)] by simp
  qed
  have fb: "free_blk ?m x k = free_blk m x k" if "x \<in> set (F k)" for x k
    using other(1,2) sp [OF that] by (simp add: free_blk_def)
  have sub: "set (?F k) \<subseteq> set (F k)" for k using F by auto
  show "buddy_inv b ?m ?F"
    unfolding buddy_inv_def
  proof (intro conjI allI ballI impI)
    show "geometry b" by (rule g)
    show "?F k = []" if "nat (buddy_max_order b) < k" for k
      using that sub [of k] inv unfolding buddy_inv_def by (metis set_empty subset_empty)
    show "blk_in b x k" "free_blk ?m x k" if "x \<in> set (?F k)" for x k
      using that sub fb invD(4,5) [OF inv, of x k] by blast+
    show "blk_disj x j y k" if "x \<in> set (?F j)" "y \<in> set (?F k)" "(x, j) \<noteq> (y, k)" for x y j k
      using that sub invD(7) [OF inv] by blast
    show "distinct (?F k)" for k using invD(3) [OF inv, of k] invD(3) [OF inv, of i] F by auto
    show "seg ?m (node_head b (int k)) (?F k) (node_head b (int k))" if "k \<le> 32" for k
      using si sk [OF that] by auto
  qed
  have "blk_disj p i q j" if "q \<in> set (?F j)" for q j
  proof -
    have "q \<in> set (F j)" using that sub by blast
    moreover have "(p, i) \<noteq> (q, j)" using that invD(3) [OF inv, of i] F by auto
    ultimately show ?thesis using invD(7) [OF inv pF] by blast
  qed
  then show "held b ?m ?F p i"
    using invD(4,5,9) [OF inv pF] fb [OF pF] by (simp add: held_def)
qed

lemma pop_node_inv:
  assumes inv: "buddy_inv b m F" and F: "F i = p # ps"
  shows "pop_node b m (int i) = (p, remove_node m p)"
    "buddy_inv b (remove_node m p) (F(i := ps))"
    "held b (remove_node m p) (F(i := ps)) p i"
proof -
  have "i \<le> 32" using invD(6) [OF inv, of p i] F by simp
  then show "pop_node b m (int i) = (p, remove_node m p)"
    using seg_first [OF invD(2) [OF inv]] F by (simp add: pop_node_def)
qed (use unlink_node_inv [OF inv, of i "[]" p ps] F in simp_all)

lemma geometry_max: "geometry b \<Longrightarrow> nat (buddy_max_order b) \<le> 32"
  unfolding geometry_def by linarith

lemma blk_nowrap: "geometry b \<Longrightarrow> blk_in b p k \<Longrightarrow> unat p + blk_size k < 2 ^ 64"
  unfolding geometry_def blk_in_def by linarith

lemma half_blk:
  assumes "Suc k \<le> 32"
  shows "drop_bit 1 (push_bit (Suc k) page_size :: u64) = push_bit k page_size"
proof -
  have "unat (drop_bit 1 (push_bit (Suc k) page_size :: u64)) = unat (push_bit k page_size :: u64)"
    using unat_blk [of "Suc k"] unat_blk [of k] assms
    by (simp add: unat_drop_bit_1 blk_size_Suc del: push_bit_Suc page_size_def)
  then show ?thesis by (simp only: word_unat_eq_iff)
qed

definition upper_half :: "u64 \<Rightarrow> nat \<Rightarrow> u64" where "upper_half p k = p + push_bit k page_size"

lemma upper_half_blk:
  assumes g: "geometry b" and p: "blk_in b p (Suc k)" and k: "k \<le> 32"
  shows "unat (upper_half p k) = unat p + blk_size k" "blk_in b (upper_half p k) k" "blk_in b p k"
    "upper_half p k \<noteq> p" "blk_disj p k (upper_half p k) k"
    "blk_disj p (Suc k) q j \<Longrightarrow> blk_disj (upper_half p k) k q j \<and> blk_disj p k q j"
proof -
  have "unat p + blk_size k < 2 ^ 64" using blk_nowrap [OF g p] by (simp add: blk_size_Suc)
  then show u: "unat (upper_half p k) = unat p + blk_size k"
    unfolding upper_half_def by (simp add: unat_word_ariths unat_blk [OF k] del: page_size_def)
  show "blk_in b (upper_half p k) k" "blk_in b p k"
    using p u blk_size_mod [of k] by (auto simp: blk_in_def blk_size_Suc mod_add_eq [symmetric])
  show "upper_half p k \<noteq> p" using u blk_size_ge [of k] by auto
  show "blk_disj p k (upper_half p k) k" unfolding blk_disj_def u by simp
  show "blk_disj p (Suc k) q j \<Longrightarrow> blk_disj (upper_half p k) k q j \<and> blk_disj p k q j"
    unfolding blk_disj_def u blk_size_Suc by linarith
qed

lemma insert_node_inv:
  assumes inv: "buddy_inv b m F" and h: "held b m F q k"
  shows "buddy_inv b (insert_node b m q (int k)) (F(k := q # F k))"
proof -
  let ?m = "insert_node b m q (int k)" and ?h = "node_head b (int k)"
  note g = invD(1) [OF inv]
  note N = nodes_ok_space [OF g]
  have k: "k \<le> 32" using h geometry_max [OF g] unfolding held_def by linarith
  have q: "blk_in b q k" "free_blk m q k" "\<And>x j. x \<in> set (F j) \<Longrightarrow> blk_disj q k x j" "k \<le> nat (buddy_max_order b)"
    using h unfolding held_def by blast+
  have qF: "q \<notin> set (F j)" for j using q(3) blk_disj_neq by blast
  note sp = inv_blk_space [OF inv] blk_in_space [OF q(1)] head_in_space
  have hn: "node_head b (int j) \<noteq> x" if "j \<le> 32" "x \<in> insert q (set (F i))" for j x i
    using head_not_page [OF g _ that(1)] invD(4) [OF inv, of x i] q(1) that(2) by blast
  have nx: "node_next m ?h = hd (F k @ [?h])" using seg_first [OF invD(2) [OF inv k]] .
  have nxs: "node_next m ?h \<in> node_space b" unfolding nx using sp(1) [of _ k] sp(3) [OF k] by (cases "F k") auto
  note other = insert_node_other [OF N sp(2) sp(3) [OF k] nxs]
  have sk: "seg ?m ?h (q # F k) ?h"
  proof (rule insert_node_seg [OF N _ invD(2) [OF inv k]])
    show "set (q # ?h # F k) \<subseteq> node_space b" using sp k by auto
    show "distinct (q # ?h # F k)" using qF hn [OF k, of _ k] invD(3) [OF inv, of k] by auto
  qed
  have sj: "seg ?m (node_head b (int j)) (F j) (node_head b (int j))" if j: "j \<le> 32" "j \<noteq> k" for j
  proof -
    have nF: "x \<noteq> q" "x \<noteq> node_next m ?h" "x \<noteq> ?h" "x \<in> node_space b" if "x \<in> set (F j)" for x
      using that j(2) invD(8) [OF inv, of x j k] hn [OF k, of x j] sp(1) [OF that] qF unfolding nx
      by (cases "F k"; auto)+
    have nh: "node_head b (int j) \<noteq> q" "node_head b (int j) \<noteq> node_next m ?h" "node_head b (int j) \<noteq> ?h"
      using hn [OF j(1), of _ k] node_head_inj [OF g j(1) k] j(2) unfolding nx
      by (cases "F k"; auto)+
    have "seg ?m (node_head b (int j)) (F j) (node_head b (int j)) =
          seg m (node_head b (int j)) (F j) (node_head b (int j))"
      by (rule seg_frame) (use other(3,4) nF nh hn [OF k, of q] sp(3) [OF j(1)] in auto)
    then show ?thesis using invD(2) [OF inv j(1)] by simp
  qed
  have fb: "free_blk ?m x j = free_blk m x j" if "x \<in> node_space b" for x j
    using other(1,2) that by (simp add: free_blk_def)
  have mem: "x \<in> set ((F(k := q # F k)) j) \<longleftrightarrow> x \<in> set (F j) \<or> x = q \<and> j = k" for x j by auto
  show ?thesis unfolding buddy_inv_def
  proof (intro conjI allI ballI impI)
    show "geometry b" by (rule g)
    show "(F(k := q # F k)) j = []" if "nat (buddy_max_order b) < j" for j
      using inv that q(4) unfolding buddy_inv_def by auto
    show "blk_in b x j" "free_blk ?m x j" if "x \<in> set ((F(k := q # F k)) j)" for x j
      using that fb sp invD(4,5) [OF inv, of x j] q(1,2) unfolding mem by auto
    show "blk_disj x i y j" if "x \<in> set ((F(k := q # F k)) i)" "y \<in> set ((F(k := q # F k)) j)"
      "(x, i) \<noteq> (y, j)" for x y i j
      using that invD(7) [OF inv] q(3) unfolding mem by (metis blk_disj_sym)
    show "distinct ((F(k := q # F k)) j)" for j using invD(3) [OF inv, of j] qF by auto
    show "seg ?m (node_head b (int j)) ((F(k := q # F k)) j) (node_head b (int j))" if "j \<le> 32" for j
      using sk sj [OF that] by auto
  qed
qed


text \<open>Splitting a held block.\<close>

lemma split_pair_node:
  assumes g: "geometry b" and p: "p \<in> node_space b" and u: "u \<in> node_space b" "u \<noteq> p"
    and x: "x \<in> node_space b"
  shows "node_next (split_pair m p u) x = node_next m x" "node_prev (split_pair m p u) x = node_prev m x"
    "node_magic (split_pair m p u) x = (if x = p \<or> x = u then buddy_node_magic else node_magic m x)"
    "node_area_size (split_pair m p u) x =
       (if x = p \<or> x = u then drop_bit 1 (node_area_size m p) else node_area_size m x)"
  using p u x by (auto simp: split_pair_def Let_def node_rw [OF nodes_ok_space [OF g]])

lemma split_node_inv:
  assumes inv: "buddy_inv b m F" and h: "held b m F p (Suc k)"
  defines "u \<equiv> upper_half p k"
  obtains m' where "split_node b m (int (Suc k)) p = (0, m')"
    "buddy_inv b m' (F(k := u # F k))" "held b m' (F(k := u # F k)) p k"
proof -
  note g = invD(1) [OF inv]
  have Sk: "Suc k \<le> 32" "k \<le> nat (buddy_max_order b)" using h geometry_max [OF g] unfolding held_def by linarith+
  then have k: "k \<le> 32" by simp
  have p: "blk_in b p (Suc k)" "free_blk m p (Suc k)" "\<And>x j. x \<in> set (F j) \<Longrightarrow> blk_disj p (Suc k) x j"
    using h unfolding held_def by blast+
  note ub = upper_half_blk [OF g p(1) k, folded u_def]
  have sz: "node_area_size m p = push_bit (Suc k) page_size" using p(2) by (simp add: free_blk_def)
  have pu: "p \<in> node_space b" "u \<in> node_space b" using blk_in_space ub(2,3) by blast+
  define m1 where "m1 = split_pair m p u"
  define m2 where "m2 = insert_node b m1 u (int k)"
  define m3 where "m3 = record_info b m2 u (of_nat k) 0 1"
  note sp = split_pair_node [OF g pu(1,2) ub(4), of _ m, folded m1_def]
  have inF: "x \<noteq> p \<and> x \<noteq> u \<and> x \<in> node_space b" if "x \<in> set (F j)" for x j
    using ub(6) [OF p(3) [OF that]] blk_disj_neq inv_blk_space [OF inv that] by metis
  have inv1: "buddy_inv b m1 F"
  proof -
    have "free_blk m1 x j = free_blk m x j" if "x \<in> set (F j)" for x j
      using inF [OF that] sp(3,4) [of x] by (simp add: free_blk_def)
    moreover have "seg m1 (node_head b (int j)) (F j) (node_head b (int j))" if "j \<le> 32" for j
      using invD(2) [OF inv that] inF [of _ j] head_in_space [OF that]
      by (subst seg_frame [where m = m]) (auto simp: sp(1,2))
    ultimately show ?thesis using inv unfolding buddy_inv_def by auto
  qed
  have fb1: "free_blk m1 x k" if "x = p \<or> x = u" for x
    using that sp(3,4) [of x] pu half_blk [OF Sk(1)] sz by (auto simp: free_blk_def simp del: page_size_def push_bit_Suc)
  have hu: "held b m1 F u k"
    using Sk(2) ub(2) fb1 ub(6) p(3) unfolding held_def by blast
  note inv2 = insert_node_inv [OF inv1 hu, folded m2_def]
  note r3 = record_info_node [OF g ub(2), of _ m2 "of_nat k" 0 1, folded m3_def]
  have inv3: "buddy_inv b m3 (F(k := u # F k))" by (rule buddy_inv_cong [OF inv2]) (simp_all add: r3)
  have nxs: "node_next m1 (node_head b (int k)) \<in> node_space b"
    using seg_first [OF invD(2) [OF inv1 k]] inF [of _ k] head_in_space [OF k] by (cases "F k") auto
  have "free_blk m3 p k"
    using fb1 insert_node_other(1,2) [OF nodes_ok_space [OF g] pu(2) head_in_space [OF k] nxs pu(1)] r3 pu
    by (simp add: free_blk_def m2_def)
  then have "held b m3 (F(k := u # F k)) p k"
    using Sk(2) ub(3,5,6) p(3) by (auto simp: held_def)
  moreover have nk: "nat (1 + int k) = Suc k" by simp
  have "split_node b m (int (Suc k)) p = (0, m3)"
    using sz unfolding split_node_def m3_def m2_def m1_def Let_def u_def upper_half_def
    by (simp add: nk half_blk [OF Sk(1), unfolded One_nat_def] del: page_size_def push_bit_Suc)
  ultimately show ?thesis using that inv3 by blast
qed

section \<open>Bytes the allocator does not touch\<close>

lemma st64_byte: "unat f + 8 \<le> 2 ^ 64 \<Longrightarrow> unat a < unat f \<or> unat f + 8 \<le> unat a \<Longrightarrow> st64 m f v a = m a"
  by (rule st64_other, rule byte_far) simp_all

lemma set_node_byte:
  assumes "node_ok p" "byte_apart a p"
  shows "set_node_magic m p v a = m a" "set_node_area_size m p v a = m a"
    "set_node_prev m p v a = m a" "set_node_next m p v a = m a"
proof -
  note u = unat_field [OF assms(1)]
  have "unat p + 32 \<le> 2 ^ 64" using assms(1) by (simp add: node_ok_def)
  then show "set_node_magic m p v a = m a" "set_node_area_size m p v a = m a"
    "set_node_prev m p v a = m a" "set_node_next m p v a = m a"
    using assms(2) unfolding node_defs byte_apart_def
    by (intro st64_byte; auto simp: u)+
qed

lemma remove_node_byte:
  assumes N: "nodes_ok N" and x: "x \<in> N" "node_prev m x \<in> N" "node_next m x \<in> N"
    and ne: "node_prev m x \<noteq> x"
    and a: "byte_apart a x" "byte_apart a (node_prev m x)" "byte_apart a (node_next m x)"
  shows "remove_node m x a = m a"
proof -
  have ok: "node_ok x" "node_ok (node_prev m x)" "node_ok (node_next m x)" using N x by (auto simp: nodes_ok_def)
  show ?thesis unfolding remove_node_def Let_def
    using x ne by (simp add: node_rw [OF N] set_node_byte ok a)
qed

lemma insert_node_byte:
  assumes N: "nodes_ok N" and x: "x \<in> N" "node_head b k \<in> N" "node_next m (node_head b k) \<in> N"
    and ne: "node_head b k \<noteq> x"
    and a: "byte_apart a x" "byte_apart a (node_head b k)" "byte_apart a (node_next m (node_head b k))"
  shows "insert_node b m x k a = m a"
proof -
  have ok: "node_ok x" "node_ok (node_head b k)" "node_ok (node_next m (node_head b k))"
    using N x by (auto simp: nodes_ok_def)
  show ?thesis unfolding insert_node_def Let_def
    using x ne by (simp add: node_rw [OF N] set_node_byte ok a)
qed

definition blk_out :: "u64 \<Rightarrow> u64 \<Rightarrow> nat \<Rightarrow> bool" where
  "blk_out a p k \<longleftrightarrow> unat a < unat p \<or> unat p + blk_size k \<le> unat a"

text \<open>Bytes that belong to no free block, to no list head and to no info byte.\<close>

definition foreign :: "buddy \<Rightarrow> free_lists \<Rightarrow> u64 \<Rightarrow> bool" where
  "foreign b F a \<longleftrightarrow> (\<forall>k \<le> 32. byte_apart a (node_head b (int k))) \<and>
     (unat a < ram_hi b \<or> ram_hi b + nat (infos_size b) \<le> unat a) \<and>
     (\<forall>k. \<forall>p \<in> set (F k). blk_out a p k)"

lemma blk_out_apart: "blk_out a p k \<Longrightarrow> byte_apart a p"
  using blk_size_ge [of k] by (auto simp: blk_out_def byte_apart_def)

lemma foreign_list:
  assumes inv: "buddy_inv b m F" and k: "k \<le> 32" and a: "foreign b F a"
    and x: "x \<in> insert (node_head b (int k)) (set (F k))"
  shows "x \<in> node_space b" "byte_apart a x"
proof -
  have "x = node_head b (int k) \<or> x \<in> set (F k)" using x by simp
  then have "x \<in> node_space b \<and> byte_apart a x"
  proof
    assume "x = node_head b (int k)"
    then show ?thesis using a k head_in_space [OF k] by (simp add: foreign_def)
  next
    assume xF: "x \<in> set (F k)"
    then have "blk_out a x k" using a by (simp add: foreign_def)
    then show ?thesis using inv_blk_space [OF inv xF] blk_out_apart by blast
  qed
  then show "x \<in> node_space b" "byte_apart a x" by simp_all
qed

lemma foreign_next:
  assumes inv: "buddy_inv b m F" and k: "k \<le> 32" and a: "foreign b F a"
  shows "byte_apart a (node_next m (node_head b (int k)))" "node_next m (node_head b (int k)) \<in> node_space b"
proof -
  have "node_next m (node_head b (int k)) \<in> insert (node_head b (int k)) (set (F k))"
    using seg_first [OF invD(2) [OF inv k]] by (cases "F k") auto
  then show "byte_apart a (node_next m (node_head b (int k)))" "node_next m (node_head b (int k)) \<in> node_space b"
    using foreign_list [OF inv k a] by blast+
qed

lemma record_info_byte:
  assumes g: "geometry b" and p: "blk_in b p k" and a: "foreign b F a"
  shows "record_info b m p x y z a = m a"
proof -
  have "ram_lo b \<le> unat p" "unat p < ram_hi b"
    using p blk_size_ge [of k] by (auto simp: blk_in_def)
  note i = unat_info_byte(2,3) [OF g this]
  have "a \<noteq> info_byte b p" using i a unfolding foreign_def by auto
  then show ?thesis by (simp add: record_info_def info_byte_def)
qed

lemma unlink_node_byte:
  assumes inv: "buddy_inv b m F" and p: "p \<in> set (F i)"
    and a: "\<And>x. x \<in> insert (node_head b (int i)) (set (F i)) \<Longrightarrow> byte_apart a x"
  shows "remove_node m p a = m a"
proof -
  let ?h = "node_head b (int i)"
  note g = invD(1) [OF inv]
  have i: "i \<le> 32" using invD(6) [OF inv p] .
  obtain xs ps where F: "F i = xs @ p # ps" using p by (meson split_list)
  have s: "seg m ?h xs p" "seg m p ps ?h" using invD(2) [OF inv i] F by (simp_all add: seg_append)
  have links: "node_prev m p \<in> insert ?h (set xs)" "node_next m p \<in> insert ?h (set ps)"
    using seg_last [OF s(1)] seg_first [OF s(2)] by (cases xs; cases ps; auto)+
  have sp: "x \<in> node_space b" if "x \<in> insert ?h (set (F i))" for x
    using that head_in_space [OF i] inv_blk_space [OF inv] by auto
  have "node_prev m p \<noteq> p"
    using links(1) head_not_page [OF g invD(4) [OF inv p] i] invD(3) [OF inv, of i] F by auto
  then show ?thesis
    using sp a links F by (intro remove_node_byte [OF nodes_ok_space [OF g]]) auto
qed

lemma pop_node_foreign:
  assumes inv: "buddy_inv b m F" and F: "F i = p # ps" and a: "foreign b F a"
  shows "remove_node m p a = m a" "foreign b (F(i := ps)) a" "blk_out a p i"
proof -
  have pF: "p \<in> set (F i)" using F by simp
  show "remove_node m p a = m a"
    using foreign_list(2) [OF inv invD(6) [OF inv pF] a] by (rule unlink_node_byte [OF inv pF])
  show "foreign b (F(i := ps)) a" "blk_out a p i" using a pF F unfolding foreign_def by auto
qed

lemma split_node_foreign:
  assumes inv: "buddy_inv b m F" and h: "held b m F p (Suc k)"
    and a: "foreign b F a" "blk_out a p (Suc k)"
  shows "snd (split_node b m (int (Suc k)) p) a = m a"
    "foreign b (F(k := upper_half p k # F k)) a" "blk_out a p k"
proof -
  note g = invD(1) [OF inv]
  have Sk: "Suc k \<le> 32" "k \<le> 32" using h geometry_max [OF g] unfolding held_def by linarith+
  have p: "blk_in b p (Suc k)" "free_blk m p (Suc k)" using h unfolding held_def by blast+
  note ub = upper_half_blk [OF g p(1) Sk(2)]
  have pu: "p \<in> node_space b" "upper_half p k \<in> node_space b" using blk_in_space ub(2,3) by blast+
  have out: "blk_out a (upper_half p k) k" "blk_out a p k"
    using a(2) unfolding blk_out_def ub(1) blk_size_Suc by linarith+
  then show "foreign b (F(k := upper_half p k # F k)) a" "blk_out a p k"
    using a(1) unfolding foreign_def by auto
  have ap: "byte_apart a p" "byte_apart a (upper_half p k)" "byte_apart a (node_head b (int k))"
    using out blk_out_apart a(1) Sk(2) unfolding foreign_def by blast+
  have ok: "node_ok p" "node_ok (upper_half p k)" using pu nodes_ok_space [OF g] by (auto simp: nodes_ok_def)
  let ?m1 = "split_pair m p (upper_half p k)"
  have m1: "?m1 a = m a" unfolding split_pair_def Let_def by (simp add: set_node_byte ok ap)
  have nx: "node_next ?m1 (node_head b (int k)) = node_next m (node_head b (int k))"
    using split_pair_node(1) [OF g pu ub(4) head_in_space [OF Sk(2)]] .
  have m2: "insert_node b ?m1 (upper_half p k) (int k) a = ?m1 a"
    using ap nx foreign_next [OF inv Sk(2) a(1)] pu head_in_space [OF Sk(2)] head_not_page [OF g ub(2) Sk(2)]
    by (intro insert_node_byte [OF nodes_ok_space [OF g]]) simp_all
  have sz: "node_area_size m p = push_bit (Suc k) page_size" using p(2) by (simp add: free_blk_def)
  have nk: "nat (1 + int k) = Suc k" by simp
  have u: "p + drop_bit (Suc 0) (push_bit (Suc k) page_size) = upper_half p k"
    using half_blk [OF Sk(1)] by (simp add: upper_half_def del: page_size_def push_bit_Suc)
  show "snd (split_node b m (int (Suc k)) p) a = m a"
    unfolding split_node_def Let_def
    by (simp add: sz nk u record_info_byte [OF g ub(2) a(1)] m1 m2 del: page_size_def push_bit_Suc)
qed

section \<open>Allocation\<close>

lemma unat_shift1_32: "k < 32 \<Longrightarrow> unat (push_bit k 1 :: u32) = 2 ^ k"
proof -
  assume k: "k < 32"
  then have "(2::nat) ^ k < 2 ^ 32" by (rule power_strict_increasing) simp
  moreover have "(push_bit k 1 :: u32) = of_nat (2 ^ k)" by (simp add: push_bit_eq_mult)
  ultimately show ?thesis by (simp only: unat_of_nat) simp
qed

lemma order_loop_Some:
  "order_loop count n = Some k \<Longrightarrow> n \<le> k \<and> k < 32 \<and> unat count \<le> 2 ^ k \<and> (\<forall>j. n \<le> j \<and> j < k \<longrightarrow> 2 ^ j < unat count)"
proof (induction count n rule: order_loop.induct)
  case (1 count n)
  have c: "count \<le> ucast (push_bit n 1 :: u32) \<longleftrightarrow> unat count \<le> 2 ^ n" if "n < 32"
    using that by (simp only: word_le_nat_alt unat_ucast_32_64 unat_shift1_32)
  show ?case
  proof (cases "n < 32 \<and> \<not> unat count \<le> 2 ^ n")
    case True
    then have "order_loop count (Suc n) = Some k" using 1(2) c by (subst (asm) order_loop.simps) (simp del: push_bit_eq_mult)
    then have "Suc n \<le> k \<and> k < 32 \<and> unat count \<le> 2 ^ k \<and> (\<forall>j. Suc n \<le> j \<and> j < k \<longrightarrow> 2 ^ j < unat count)"
      using 1(1) True c by (simp del: push_bit_eq_mult)
    with True show ?thesis by (metis Suc_le_eq le_neq_implies_less le_trans lessI less_imp_le_nat not_le)
  next
    case False
    with 1(2) c show ?thesis by (subst (asm) order_loop.simps) (auto split: if_splits simp del: push_bit_eq_mult)
  qed
qed

lemma order_loop_None: "order_loop count n = None \<Longrightarrow> n < 32 \<Longrightarrow> 2 ^ 31 < unat count"
proof (induction count n rule: order_loop.induct)
  case (1 count n)
  have c: "count \<le> ucast (push_bit n 1 :: u32) \<longleftrightarrow> unat count \<le> 2 ^ n"
    using 1(3) by (simp only: word_le_nat_alt unat_ucast_32_64 unat_shift1_32)
  have nc: "\<not> unat count \<le> 2 ^ n" "order_loop count (Suc n) = None"
    using 1(2,3) c by (subst (asm) order_loop.simps; auto split: if_splits simp del: push_bit_eq_mult)+
  show ?case
  proof (cases "n = 31")
    case True
    with nc show ?thesis by simp
  next
    case False
    with nc 1(1,3) c show ?thesis by simp
  qed
qed

fun carve :: "free_lists \<Rightarrow> u64 \<Rightarrow> nat \<Rightarrow> nat \<Rightarrow> free_lists" where
  "carve F p 0 k = F"
| "carve F p (Suc i) k = (if k \<le> i then carve (F(i := upper_half p i # F i)) p i k else F)"

definition alloc_spec :: "free_lists \<Rightarrow> nat \<Rightarrow> nat \<Rightarrow> (u64 \<times> free_lists) option" where
  "alloc_spec F mx k =
     (case find (\<lambda>i. F i \<noteq> []) [k..<Suc mx] of
        None \<Rightarrow> None
      | Some i \<Rightarrow> Some (hd (F i), carve (F(i := tl (F i))) (hd (F i)) i k))"

lemma has_nodes_inv:
  assumes "buddy_inv b m F" "k \<le> 32"
  shows "has_nodes b m (int k) \<longleftrightarrow> F k \<noteq> []"
  using seg_first [OF invD(2) [OF assms]] head_not_page [OF invD(1) [OF assms(1)] _ assms(2), of "hd (F k)" k]
    invD(4) [OF assms(1), of "hd (F k)" k]
  by (cases "F k") (auto simp: has_nodes_def)

lemma find_level_inv:
  assumes inv: "buddy_inv b m F"
  shows "case find (\<lambda>i. F i \<noteq> []) [j..<Suc (nat (buddy_max_order b))] of
           None \<Rightarrow> buddy_max_order b < find_level b m (int j)
         | Some i \<Rightarrow> find_level b m (int j) = int i"
proof (induction "Suc (nat (buddy_max_order b)) - j" arbitrary: j)
  case 0
  then show ?case using invD(1) [OF inv] by (subst find_level.simps) (auto simp: geometry_def)
next
  case (Suc n)
  then have j: "j \<le> nat (buddy_max_order b)" by simp
  then have j32: "j \<le> 32" "int j \<le> buddy_max_order b"
    using geometry_max [OF invD(1) [OF inv]] invD(1) [OF inv] by (auto simp: geometry_def)
  have up: "[j..<Suc (nat (buddy_max_order b))] = j # [Suc j..<Suc (nat (buddy_max_order b))]"
    using j by (simp add: upt_rec)
  show ?case
  proof (cases "F j = []")
    case True
    then have "find_level b m (int j) = find_level b m (int (Suc j))"
      using j32 has_nodes_inv [OF inv j32(1)] by (subst find_level.simps) (simp add: add.commute)
    moreover have "n = Suc (nat (buddy_max_order b)) - Suc j" using Suc(2) by simp
    ultimately show ?thesis using Suc(1) [of "Suc j"] True up by (simp del: upt_Suc of_nat_Suc cong: option.case_cong)
  next
    case False
    then show ?thesis using j32 has_nodes_inv [OF inv j32(1)] up by (subst find_level.simps) simp
  qed
qed

lemma split_loop_inv:
  assumes "buddy_inv b m F" "held b m F p i" "k \<le> i"
  obtains m' where "split_loop b m p (int i) (int k) = m'" "buddy_inv b m' (carve F p i k)"
    "held b m' (carve F p i k) p k"
    "\<And>a. foreign b F a \<Longrightarrow> blk_out a p i \<Longrightarrow> m' a = m a \<and> foreign b (carve F p i k) a"
proof -
  have "\<exists>m'. split_loop b m p (int i) (int k) = m' \<and> buddy_inv b m' (carve F p i k) \<and>
      held b m' (carve F p i k) p k \<and>
      (\<forall>a. foreign b F a \<longrightarrow> blk_out a p i \<longrightarrow> m' a = m a \<and> foreign b (carve F p i k) a)"
    using assms
  proof (induction i arbitrary: m F)
    case 0
    then show ?case by (subst split_loop.simps) auto
  next
    case (Suc i)
    show ?case
    proof (cases "k \<le> i")
      case True
      obtain m1 where m1: "split_node b m (int (Suc i)) p = (0, m1)"
        "buddy_inv b m1 (F(i := upper_half p i # F i))" "held b m1 (F(i := upper_half p i # F i)) p i"
        using split_node_inv [OF Suc.prems(1,2)] by blast
      have sl: "split_loop b m p (int (Suc i)) (int k) = split_loop b m1 p (int i) (int k)"
        using True m1(1) by (subst split_loop.simps) simp
      note fr = split_node_foreign [OF Suc.prems(1,2)]
      have m1a: "m1 a = m a" if "foreign b F a" "blk_out a p (Suc i)" for a
        using fr(1) [OF that] m1(1) by simp
      have cv: "carve F p (Suc i) k = carve (F(i := upper_half p i # F i)) p i k" using True by simp
      show ?thesis unfolding sl cv using Suc.IH [OF m1(2,3) True] fr(2,3) m1a by metis
    next
      case False
      with Suc.prems show ?thesis by (subst split_loop.simps) (auto simp: le_Suc_eq)
    qed
  qed
  then show ?thesis using that by blast
qed

lemma inv_b_update:
  "buddy_inv (b\<lparr>b_lock := l\<rparr>) m F = buddy_inv b m F"
  "buddy_inv (b\<lparr>alloc_size := s\<rparr>) m F = buddy_inv b m F"
  by (simp_all add: buddy_inv_def geometry_def blk_in_def ram_lo_def ram_hi_def node_head_def)


lemma unat_order_size: "k < 32 \<Longrightarrow> push_bit k 1 * page_size = (of_nat (blk_size k) :: u64)"
  by (simp add: blk_size_def push_bit_eq_mult)

lemma acquire_release:
  "\<not> b_lock b \<Longrightarrow> acquire b = Some (b\<lparr>b_lock := True\<rparr>)"
  "release (b\<lparr>b_lock := True\<rparr>) = Some (b\<lparr>b_lock := False\<rparr>)"
  "release (b\<lparr>b_lock := True, alloc_size := s\<rparr>) = Some (b\<lparr>b_lock := False, alloc_size := s\<rparr>)"
  "\<not> b_lock b \<Longrightarrow> b\<lparr>b_lock := False\<rparr> = b"
  by (simp_all add: acquire_def release_def)

lemma alloc_pages_run:
  assumes inv: "buddy_inv b m F" and lock: "\<not> b_lock b"
    and count: "count \<noteq> 0" "order_of count = Some k"
    and i: "find (\<lambda>i. F i \<noteq> []) [k..<Suc (nat (buddy_max_order b))] = Some i" and F: "F i = p # ps"
  defines "b' \<equiv> b\<lparr>b_lock := True\<rparr>"
  shows "alloc_pages b m count = Some (p, b\<lparr>alloc_size := alloc_size b + of_nat (blk_size k)\<rparr>,
     record_info b' (split_loop b' (remove_node m p) p (int i) (int k)) p (of_nat k) 1 1)"
proof -
  have inv': "buddy_inv b' m F" using inv by (simp add: b'_def inv_b_update)
  have k32: "k < 32" using order_loop_Some [of count 0 k] count(2) by (auto simp: order_of_def)
  have lv: "find_level b' m (int k) = int i" using find_level_inv [OF inv', of k] i by (simp add: b'_def)
  have "i \<le> nat (buddy_max_order b)" using i by (auto simp: find_Some_iff nth_append split: if_splits)
  then have "int i \<le> buddy_max_order b" using invD(1) [OF inv'] by (auto simp: geometry_def b'_def)
  note pop = pop_node_inv [OF inv' F]
  have "node_magic (remove_node m p) p = buddy_node_magic" using pop(3) by (simp add: held_def free_blk_def)
  then show ?thesis
    using count lock lv pop(1) unat_order_size [OF k32] \<open>int i \<le> buddy_max_order b\<close>
    by (simp add: b'_def alloc_pages_def acquire_release(1) Let_def release_def del: page_size_def)
qed

lemma alloc_pages_case:
  assumes inv: "buddy_inv b m F" and lock: "\<not> b_lock b"
    and count: "count \<noteq> 0" "order_of count = Some k"
  shows "case alloc_spec F (nat (buddy_max_order b)) k of
     None \<Rightarrow> alloc_pages b m count = Some (0, b, m)
   | Some (p, F') \<Rightarrow> \<exists>m'.
       alloc_pages b m count = Some (p, b\<lparr>alloc_size := alloc_size b + of_nat (blk_size k)\<rparr>, m') \<and>
       buddy_inv b m' F' \<and> p \<noteq> 0 \<and> blk_in b p k \<and> unat count \<le> 2 ^ k \<and>
       (\<forall>j. \<forall>q \<in> set (F' j). blk_disj p k q j) \<and>
       m' (info_byte b p) = mk_info (of_nat k) 1 1 \<and>
       (\<exists>i. k \<le> i \<and> p \<in> set (F i)) \<and>
       (\<forall>a. foreign b F a \<longrightarrow> m' a = m a \<and> foreign b F' a)"
proof -
  let ?b = "b\<lparr>b_lock := True\<rparr>"
  have inv': "buddy_inv ?b m F" using inv by (simp add: inv_b_update)
  have cnt: "unat count \<le> 2 ^ k"
    using order_loop_Some [of count 0 k] count(2) by (auto simp: order_of_def)
  show ?thesis
  proof (cases "find (\<lambda>i. F i \<noteq> []) [k..<Suc (nat (buddy_max_order b))]")
    case None
    with find_level_inv [OF inv', of k] have "buddy_max_order b < find_level ?b m (int k)" by simp
    with None count lock show ?thesis
      by (simp add: alloc_spec_def alloc_pages_def acquire_release)
  next
    case (Some i)
    then have i: "k \<le> i" "F i \<noteq> []"
      by (auto simp: find_Some_iff nth_append split: if_splits)
    then obtain p ps where F: "F i = p # ps" by (cases "F i") auto
    let ?m1 = "remove_node m p" and ?F1 = "F(i := ps)"
    note pop = pop_node_inv [OF inv' F]
    obtain m2 where m2: "split_loop ?b ?m1 p (int i) (int k) = m2" "buddy_inv ?b m2 (carve ?F1 p i k)"
      "held ?b m2 (carve ?F1 p i k) p k"
      "\<And>a. foreign ?b ?F1 a \<Longrightarrow> blk_out a p i \<Longrightarrow> m2 a = ?m1 a \<and> foreign ?b (carve ?F1 p i k) a"
      using split_loop_inv [OF pop(2,3) i(1)] by blast
    note g = invD(1) [OF inv']
    have p: "blk_in ?b p k" "\<forall>j. \<forall>q \<in> set (carve ?F1 p i k j). blk_disj p k q j"
      using m2(3) by (auto simp: held_def)
    let ?m3 = "record_info ?b m2 p (of_nat k) 1 1"
    have inv3: "buddy_inv ?b ?m3 (carve ?F1 p i k)"
      by (rule buddy_inv_cong [OF m2(2)]) (simp_all add: record_info_node [OF g p(1)])
    have "alloc_pages b m count = Some (p, b\<lparr>alloc_size := alloc_size b + of_nat (blk_size k)\<rparr>, ?m3)"
      using alloc_pages_run [OF inv lock count Some F] m2(1) by simp
    moreover have "?m3 a = m a \<and> foreign b (carve ?F1 p i k) a" if "foreign b F a" for a
    proof -
      have fa: "foreign ?b F a" using that by (simp add: foreign_def ram_hi_def node_head_def)
      note pf = pop_node_foreign [OF inv' F fa]
      have "foreign b (carve ?F1 p i k) a"
        using m2(4) [OF pf(2,3)] by (simp add: foreign_def ram_hi_def node_head_def)
      then show ?thesis using m2(4) [OF pf(2,3)] pf(1) record_info_byte [OF g p(1) fa] by simp
    qed
    moreover have "p \<noteq> 0" using p(1) g by (auto simp: blk_in_def geometry_def ram_lo_def)
    moreover have "?m3 (info_byte b p) = mk_info (of_nat k) 1 1"
      by (simp add: record_info_def info_byte_def info_addr_def get_info_index_def)
    moreover have "blk_in b p k" using p(1) by (simp add: blk_in_def ram_lo_def ram_hi_def)
    ultimately show ?thesis
      using Some F inv3 p(2) cnt i(1) by (auto simp: alloc_spec_def inv_b_update)
  qed
qed

section \<open>Construction\<close>

lemma set_node_rw:
  assumes N: "nodes_ok N" and p: "p \<in> N" and q: "q \<in> N"
  shows "node_next (set_node m p mg sz pv nx) q = (if p = q then nx else node_next m q)"
    "node_prev (set_node m p mg sz pv nx) q = (if p = q then pv else node_prev m q)"
    "node_area_size (set_node m p mg sz pv nx) q = (if p = q then sz else node_area_size m q)"
    "node_magic (set_node m p mg sz pv nx) q = (if p = q then mg else node_magic m q)"
  using p q by (simp_all add: set_node_def node_rw [OF N])

lemma reset_nodes_heads:
  assumes g: "geometry b"
  shows "n \<le> 33 \<Longrightarrow> k < n \<Longrightarrow> node_next (reset_nodes b m n) (node_head b (int k)) = node_head b (int k) \<and>
    node_prev (reset_nodes b m n) (node_head b (int k)) = node_head b (int k)"
proof (induction n)
  case 0
  then show ?case by simp
next
  case (Suc n)
  then have n: "n \<le> 32" "k \<le> 32" by simp_all
  note rw = set_node_rw [OF nodes_ok_space [OF g]] head_in_space n
  show ?case using Suc node_head_inj [OF g n] by (cases "k = n") (simp_all add: Let_def rw)
qed

lemma reset_nodes_inv: "geometry b \<Longrightarrow> buddy_inv b (reset_nodes b m 33) (\<lambda>_. [])"
  using reset_nodes_heads [of b 33 _ m] by (simp add: buddy_inv_def)

lemma init_areas_snoc: "init_areas (ks @ [k]) st = Option.bind (init_areas ks st) (init_area k)"
  by (induction ks arbitrary: st) (auto simp: Option.bind_assoc split: Option.bind_split)

text \<open>The free lists the constructor builds: one block per bit of the page count.\<close>

definition init_free :: "u64 \<Rightarrow> nat \<Rightarrow> nat \<Rightarrow> free_lists" where
  "init_free start pg n k = (if k < n \<and> bit pg k then [start + of_nat (4096 * (pg mod 2 ^ k))] else [])"

lemma mod_2_Suc: "(pg::nat) mod 2 ^ Suc k = pg mod 2 ^ k + (if bit pg k then 2 ^ k else 0)"
  using take_bit_Suc_from_most [of k pg] by (simp add: take_bit_eq_mod of_bool_def)

lemma area_order: "pg mod 2 ^ n \<le> pg mod 2 ^ m" if "n \<le> m" for pg :: nat
  by (metis (no_types) mod_le_divisor mod_mod_cancel le_imp_power_dvd mod_less_eq_dividend that)

definition constructing :: "buddy \<Rightarrow> nat \<Rightarrow> nat \<Rightarrow> (buddy \<times> mem \<times> u64) \<Rightarrow> bool" where
  "constructing b0 pg n st \<longleftrightarrow>
     (case st of (b, m, area) \<Rightarrow>
        b = b0\<lparr>buddy_max_order := buddy_max_order b, area_desc := area_desc b\<rparr> \<and>
        buddy_max_order b \<le> int n \<and> (n \<le> 33 \<longrightarrow> length (area_desc b) \<le> n) \<and>
        area = b_mem_addr b0 + of_nat (4096 * (pg mod 2 ^ n)) \<and>
        buddy_inv b m (init_free (b_mem_addr b0) pg n))"

lemma inv_max_update:
  assumes "buddy_inv b m F" "buddy_max_order b \<le> int k" "k \<le> 32"
  shows "buddy_inv (b\<lparr>buddy_max_order := int k, area_desc := ds\<rparr>) m F"
  using assms
  by (auto simp: buddy_inv_def geometry_def blk_in_def ram_lo_def ram_hi_def node_head_def)


lemma set_node_inv:
  assumes inv: "buddy_inv b m F" and p: "blk_in b p k" "\<And>j. p \<notin> set (F j)"
  shows "buddy_inv b (set_node m p mg sz pv nx) F"
proof -
  let ?m = "set_node m p mg sz pv nx"
  note g = invD(1) [OF inv]
  note rw = set_node_rw [OF nodes_ok_space [OF g] blk_in_space [OF p(1)]]
  have "free_blk ?m x j = free_blk m x j" if "x \<in> set (F j)" for x j
    using rw inv_blk_space [OF inv that] that p(2) [of j] by (auto simp: free_blk_def)
  moreover have "seg ?m (node_head b (int j)) (F j) (node_head b (int j))" if "j \<le> 32" for j
  proof -
    have ne: "p \<noteq> node_head b (int j)" using head_not_page [OF g p(1) that] by blast
    have "seg ?m (node_head b (int j)) (F j) (node_head b (int j)) =
      seg m (node_head b (int j)) (F j) (node_head b (int j))"
      by (rule seg_frame) (use rw inv_blk_space [OF inv] p(2) [of j] ne head_in_space [OF that] in auto)
    then show ?thesis using invD(2) [OF inv that] by simp
  qed
  ultimately show ?thesis using inv unfolding buddy_inv_def by auto
qed

lemma bit_lt_33: "(pg::nat) < 2 ^ 33 \<Longrightarrow> bit pg k \<Longrightarrow> k \<le> 32"
proof (rule ccontr)
  assume pg: "pg < 2 ^ 33" and b: "bit pg k" and "\<not> k \<le> 32"
  then have "pg < 2 ^ k" using power_increasing [of 33 k "2::nat"] by linarith
  with b show False by (simp add: bit_iff_odd)
qed

lemma init_area_blk:
  assumes g: "geometry b" and al: "pg = unat (b_mem_size b) div 4096" and bk: "bit pg k"
  defines "p \<equiv> b_mem_addr b + of_nat (4096 * (pg mod 2 ^ k))"
  shows "unat p = ram_lo b + 4096 * (pg mod 2 ^ k)" "blk_in b p k"
proof -
  have "4096 * (pg mod 2 ^ Suc k) \<le> 4096 * pg" by simp
  also have "4096 * pg = unat (b_mem_size b)" using g al unfolding geometry_def by (metis minus_mod_eq_mult_div minus_nat.diff_0)
  finally have sz: "4096 * (pg mod 2 ^ k) + blk_size k \<le> unat (b_mem_size b)"
    using bk by (simp add: mod_2_Suc blk_size_def del: power_Suc)
  have hi: "ram_hi b < 2 ^ 64" using g unfolding geometry_def by linarith
  have lt: "4096 * (pg mod 2 ^ k) < 2 ^ 64" using sz hi by (simp add: ram_hi_def)
  have lo: "ram_lo b + 4096 * (pg mod 2 ^ k) < 2 ^ 64" using sz hi by (simp add: ram_hi_def ram_lo_def)
  show u: "unat p = ram_lo b + 4096 * (pg mod 2 ^ k)"
    unfolding p_def using lt lo by (simp add: unat_word_ariths unat_of_nat ram_lo_def del: of_nat_mult)
  show "blk_in b p k" unfolding blk_in_def u using sz g
    by (simp add: ram_hi_def ram_lo_def geometry_def mod_add_eq [symmetric])
qed

lemma init_free_disj:
  assumes g: "geometry b" and al: "pg = unat (b_mem_size b) div 4096" and bk: "bit pg k"
    and x: "x \<in> set (init_free (b_mem_addr b) pg k j)"
  shows "blk_disj (b_mem_addr b + of_nat (4096 * (pg mod 2 ^ k))) k x j"
proof -
  have j: "j < k" "bit pg j" "x = b_mem_addr b + of_nat (4096 * (pg mod 2 ^ j))"
    using x by (auto simp: init_free_def split: if_splits)
  have "unat x + blk_size j = ram_lo b + 4096 * (pg mod 2 ^ Suc j)"
    unfolding j(3) init_area_blk(1) [OF g al j(2)] using j(2) by (simp add: mod_2_Suc blk_size_def del: power_Suc)
  also have "\<dots> \<le> ram_lo b + 4096 * (pg mod 2 ^ k)" using area_order [of "Suc j" k pg] j(1) by simp
  finally show ?thesis unfolding blk_disj_def init_area_blk(1) [OF g al bk] by simp
qed

lemma init_free_Suc:
  "init_free s pg (Suc k) = (if bit pg k then (init_free s pg k)(k := (s + of_nat (4096 * (pg mod 2 ^ k))) # init_free s pg k k)
     else init_free s pg k)"
  by (auto simp: init_free_def fun_eq_iff less_Suc_eq)

lemma init_area_step:
  assumes pg: "pg = unat (b_mem_size b0) div 4096" "pg < 2 ^ 33"
    and st: "constructing b0 pg k st"
  obtains st' where "init_area k st = Some st'" "constructing b0 pg (Suc k) st'"
proof -
  obtain b m area where S: "st = (b, m, area)" by (cases st)
  let ?F = "init_free (b_mem_addr b0) pg k"
  have c: "b = b0\<lparr>buddy_max_order := buddy_max_order b, area_desc := area_desc b\<rparr>" "buddy_max_order b \<le> int k"
    "k \<le> 33 \<longrightarrow> length (area_desc b) \<le> k" "area = b_mem_addr b0 + of_nat (4096 * (pg mod 2 ^ k))"
    "buddy_inv b m ?F"
    using st unfolding S constructing_def by auto
  have sz: "b_mem_size b = b_mem_size b0" "b_mem_addr b = b_mem_addr b0" by (subst c(1), simp)+
  note g = invD(1) [OF c(5)]
  have ud: "unat (b_mem_size b div page_size) = pg" by (simp add: pg(1) sz unat_div)
  have bt: "bit (b_mem_size b div page_size) k \<longleftrightarrow> bit pg k"
    unfolding ud [symmetric] bit_unsigned_iff by (simp add: bit_imp_possible_bit)
  show ?thesis
  proof (cases "bit pg k")
    case False
    then have md: "pg mod 2 ^ Suc k = pg mod 2 ^ k" by (simp add: mod_2_Suc del: power_Suc)
    have "constructing b0 pg (Suc k) st"
      unfolding S constructing_def prod.case md init_free_Suc if_not_P [OF False] using c by auto
    moreover have "init_area k st = Some st" using False bt by (simp add: S init_area_def)
    ultimately show ?thesis using that by blast
  next
    case True
    have k: "k \<le> 32" using bit_lt_33 [OF pg(2) True] .
    note blk = init_area_blk [OF g _ True, unfolded sz, OF pg(1), folded c(4)]
    note dj = init_free_disj [OF g _ True, unfolded sz, OF pg(1), folded c(4)]
    have nF: "area \<notin> set (?F j)" for j using dj blk_disj_neq by blast
    define m1 where "m1 = set_node m area buddy_node_magic (push_bit k page_size) 0 0"
    define b' where "b' = b\<lparr>buddy_max_order := int k, area_desc := area_desc b @ [(area, push_bit k page_size)]\<rparr>"
    have b'b: "\<And>m x j. insert_node b' m x j = insert_node b m x j" "\<And>m x i j k. record_info b' m x i j k = record_info b m x i j k"
      "\<And>x j. blk_in b' x j = blk_in b x j"
      by (simp_all add: b'_def insert_node_def node_head_def record_info_def info_addr_def get_info_index_def
          blk_in_def ram_lo_def ram_hi_def)
    have inv1: "buddy_inv b' m1 ?F"
      unfolding b'_def m1_def by (rule inv_max_update [OF set_node_inv [OF c(5) blk(2) nF] c(2) k])
    note g' = invD(1) [OF inv1]
    have "free_blk m1 area k"
      using set_node_rw [OF nodes_ok_space [OF g] blk_in_space [OF blk(2)] blk_in_space [OF blk(2)]]
      by (simp add: free_blk_def m1_def)
    then have "held b' m1 ?F area k" using blk(2) dj by (simp add: held_def b'b(3)) (simp add: b'_def)
    note inv2 = insert_node_inv [OF inv1 this]
    define m3 where "m3 = record_info b' (insert_node b' m1 area (int k)) area (of_nat k) 0 1"
    have inv3: "buddy_inv b' m3 (init_free (b_mem_addr b0) pg (Suc k))"
      unfolding m3_def init_free_Suc if_P [OF True] c(4) [symmetric]
      by (rule buddy_inv_cong [OF inv2]) (simp_all add: record_info_node [OF g' blk(2) [folded b'b(3)]])
    have "node_area_size m3 area = push_bit k page_size"
      using invD(5) [OF inv3, of area k] True by (simp add: free_blk_def init_free_def c(4) del: page_size_def)
    then have "init_area k st = Some (b', m3, area + push_bit k page_size)"
      using True bt k c(3) unfolding S init_area_def
      by (simp add: Let_def b'b m3_def m1_def del: page_size_def) (simp add: b'_def)
    moreover have "area + push_bit k page_size = b_mem_addr b0 + of_nat (4096 * (pg mod 2 ^ Suc k))"
      unfolding c(4) mod_2_Suc using True by (simp add: push_bit_eq_mult algebra_simps)
    moreover have "b' = b0\<lparr>buddy_max_order := buddy_max_order b', area_desc := area_desc b'\<rparr>"
      unfolding b'_def by (subst c(1)) simp
    ultimately show ?thesis using that inv3 c(3) k
      by (simp add: constructing_def) (simp add: b'_def)
  qed
qed


lemma init_areas_inv:
  assumes "pg = unat (b_mem_size b0) div 4096" "pg < 2 ^ 33" "constructing b0 pg 0 st"
  obtains st' where "init_areas [0..<n] st = Some st'" "constructing b0 pg n st'"
proof -
  have "\<exists>st'. init_areas [0..<n] st = Some st' \<and> constructing b0 pg n st'"
  proof (induction n)
    case 0
    then show ?case using assms(3) by simp
  next
    case (Suc n)
    then obtain st1 where "init_areas [0..<n] st = Some st1" "constructing b0 pg n st1" by blast
    moreover obtain st2 where "init_area n st1 = Some st2" "constructing b0 pg (Suc n) st2"
      using init_area_step [OF assms(1,2) calculation(2)] .
    ultimately show ?case by (simp add: init_areas_snoc)
  qed
  then show ?thesis using that by blast
qed

text \<open>The state in which the constructor enters the loop over the bits of the page count.\<close>

definition fresh_buddy :: "u64 \<Rightarrow> u64 \<Rightarrow> u64 \<Rightarrow> buddy" where
  "fresh_buddy nodes start sz =
     (let isz = page_round_up (sz div page_size)
      in \<lparr>b_lock = False, b_mem_addr = start, b_mem_size = sz - isz, buddy_nodes = nodes,
          buddy_max_order = 0, area_desc = [], alloc_infos = start + sz - isz, infos_size = sint isz, alloc_size = 0\<rparr>)"

lemma BuddyAllocator_run:
  fixes m :: mem and nodes start sz :: u64
  assumes al: "unat start mod 4096 = 0" "unat sz mod 4096 = 0"
    and rg: "0 < unat start" "unat start + unat sz < 2 ^ 64" "64 * 4096 \<le> unat sz" "unat sz \<le> 2 ^ 44"
    and nd: "unat nodes mod 8 = 0" "unat nodes + 33 * 32 \<le> 2 ^ 64"
      "unat nodes + 33 * 32 \<le> unat start \<or> unat start + unat sz \<le> unat nodes"
  defines "b0 \<equiv> fresh_buddy nodes start sz"
  defines "pg \<equiv> unat (b_mem_size b0) div 4096"
  defines "m1 \<equiv> reset_nodes b0 (memset m (alloc_infos b0) 0 (page_round_up (sz div page_size))) 33"
  obtains b m' area where "geometry b0" "pg < 2 ^ 33" "constructing b0 pg 0 (b0, m1, start)"
    "init_areas [0..<64] (b0, m1, start) = Some (b, m', area)" "constructing b0 pg 64 (b, m', area)"
    "BuddyAllocator nodes m start sz = Some (b, m')"
    "unat (b_mem_size b0) = unat sz - (unat sz div 4096 + 4095) div 4096 * 4096"
    "int (unat (page_round_up (sz div page_size))) = infos_size b0"
proof -
  let ?isz = "page_round_up (sz div page_size)"
  define isz where "isz = (unat sz div 4096 + 4095) div 4096 * 4096"
  have u: "unat ?isz = isz"
    using unat_page_round_up [of "sz div page_size"] rg(4) by (simp add: unat_div isz_def)
  have isz: "isz \<le> unat sz" "unat sz div 4096 \<le> isz" "isz mod 4096 = 0" "isz < 2 ^ 63"
    using rg(3,4) unfolding isz_def by simp_all
  have f: "unat (b_mem_size b0) = unat sz - isz" "b_mem_addr b0 = start" "infos_size b0 = int isz"
    using isz by (simp_all add: b0_def fresh_buddy_def Let_def u unat_sub_if' sint_small del: page_size_def)
  have g: "geometry b0"
    using al rg nd isz f(1,3) unfolding geometry_def ram_lo_def ram_hi_def
    by (auto simp: b0_def fresh_buddy_def Let_def mod_eq_0_iff_dvd intro: div_le_mono)
  have pg: "pg < 2 ^ 33" using f(1) rg(4) by (simp add: pg_def)
  have "init_free start pg 0 = (\<lambda>_. [])" by (simp add: init_free_def fun_eq_iff)
  then have c0: "constructing b0 pg 0 (b0, m1, start)"
    using reset_nodes_inv [OF g] f(2) by (simp add: constructing_def m1_def) (simp add: b0_def fresh_buddy_def Let_def)
  from init_areas_inv [OF _ pg this, of 64] obtain b m' area
    where st: "init_areas [0..<64] (b0, m1, start) = Some (b, m', area)" "constructing b0 pg 64 (b, m', area)"
    by (metis prod_cases3 pg_def)
  have "sz AND 4095 = 0" "start mod 4096 = 0" "64 * 4096 \<le> sz"
    using al rg(3) by (simp_all add: unat_and_4095 word_le_nat_alt word_unat_eq_iff unat_mod)
  then have run: "BuddyAllocator nodes m start sz = Some (b, m')"
    using st(1) unfolding BuddyAllocator_def m1_def b0_def fresh_buddy_def by (simp add: Let_def)
  have "int (unat ?isz) = infos_size b0" unfolding u f(3) ..
  then show ?thesis by (rule that [OF g pg c0 st run f(1) [unfolded isz_def]])
qed

lemma BuddyAllocator_case:
  assumes al: "unat start mod 4096 = 0" "unat sz mod 4096 = 0"
    and rg: "0 < unat start" "unat start + unat sz < 2 ^ 64" "64 * 4096 \<le> unat sz" "unat sz \<le> 2 ^ 44"
    and nd: "unat nodes mod 8 = 0" "unat nodes + 33 * 32 \<le> 2 ^ 64"
      "unat nodes + 33 * 32 \<le> unat start \<or> unat start + unat sz \<le> unat nodes"
  shows "\<exists>b m'. BuddyAllocator nodes m start sz = Some (b, m') \<and>
     buddy_inv b m' (init_free start (unat (b_mem_size b) div 4096) 64) \<and>
     \<not> b_lock b \<and> b_mem_addr b = start \<and>
     unat (b_mem_size b) = unat sz - (unat sz div 4096 + 4095) div 4096 * 4096 \<and> alloc_size b = 0"
proof -
  let ?b0 = "fresh_buddy nodes start sz"
  obtain b m' area where r: "BuddyAllocator nodes m start sz = Some (b, m')"
    "constructing ?b0 (unat (b_mem_size ?b0) div 4096) 64 (b, m', area)"
    "unat (b_mem_size ?b0) = unat sz - (unat sz div 4096 + 4095) div 4096 * 4096"
    by (rule BuddyAllocator_run [OF assms])
  have f: "b_mem_addr ?b0 = start" "\<not> b_lock ?b0" "alloc_size ?b0 = 0" by (simp_all add: fresh_buddy_def Let_def)
  have bb: "b = ?b0\<lparr>buddy_max_order := buddy_max_order b, area_desc := area_desc b\<rparr>"
    and inv: "buddy_inv b m' (init_free start (unat (b_mem_size ?b0) div 4096) 64)"
    using r(2) f(1) by (simp_all add: constructing_def)
  have "b_mem_size b = b_mem_size ?b0" "\<not> b_lock b" "b_mem_addr b = start" "alloc_size b = 0"
    by (subst bb, simp add: f)+
  with r inv show ?thesis by simp
qed

section \<open>Rejected releases\<close>

lemma free_pages_rejected:
  assumes lk: "\<not> b_lock b" and ix: "get_info_index b p < infos_size b"
  shows "(p = 0 \<longrightarrow> free_pages b m p = Some (- 1, b, m)) \<and>
     (p \<noteq> 0 \<and> unat p mod 4096 \<noteq> 0 \<longrightarrow> free_pages b m p = Some (- 2, b, m)) \<and>
     (p \<noteq> 0 \<and> unat p mod 4096 = 0 \<and> \<not> info_area_flag (m (info_byte b p)) \<longrightarrow>
        free_pages b m p = Some (0, b, m)) \<and>
     (p \<noteq> 0 \<and> unat p mod 4096 = 0 \<and> info_area_flag (m (info_byte b p)) \<and> \<not> info_in_use (m (info_byte b p)) \<longrightarrow>
        free_pages b m p = Some (- 3, b, m))"
proof -
  have u: "info_addr (b\<lparr>b_lock := l\<rparr>) (get_info_index b p) = info_byte b p"
    "get_info_index (b\<lparr>b_lock := l\<rparr>) p = get_info_index b p" for l
    by (simp_all add: info_byte_def info_addr_def get_info_index_def)
  show ?thesis
  proof (intro conjI impI)
    show "free_pages b m p = Some (- 1, b, m)" if "p = 0"
      using that by (simp add: free_pages_def)
    show "free_pages b m p = Some (- 2, b, m)" if "p \<noteq> 0 \<and> unat p mod 4096 \<noteq> 0"
      using that by (simp add: free_pages_def is_page_align_iff)
    show "free_pages b m p = Some (0, b, m)"
      if "p \<noteq> 0 \<and> unat p mod 4096 = 0 \<and> \<not> info_area_flag (m (info_byte b p))"
      using that lk ix by (simp add: free_pages_def is_page_align_iff acquire_release Let_def u)
    show "free_pages b m p = Some (- 3, b, m)"
      if "p \<noteq> 0 \<and> unat p mod 4096 = 0 \<and> info_area_flag (m (info_byte b p)) \<and> \<not> info_in_use (m (info_byte b p))"
      using that lk ix by (simp add: free_pages_def is_page_align_iff acquire_release Let_def u)
  qed
qed

section \<open>Properties\<close>

text \<open>
  C6: the constructor of the buddy allocator succeeds on any page-aligned range of 64 pages up to
  16 TiB that does not overlap its own list heads, and establishes the invariant: one free
  block for every bit of the page count, all disjoint and inside the range less its last
  pages, which hold one info byte per page.
\<close>

theorem BuddyAllocator_inv:
  assumes al: "unat start mod 4096 = 0" "unat sz mod 4096 = 0"
    and rg: "0 < unat start" "unat start + unat sz < 2 ^ 64" "64 * 4096 \<le> unat sz" "unat sz \<le> 2 ^ 44"
    and nd: "unat nodes mod 8 = 0" "unat nodes + 33 * 32 \<le> 2 ^ 64"
      "unat nodes + 33 * 32 \<le> unat start \<or> unat start + unat sz \<le> unat nodes"
  shows "\<exists>b m'. BuddyAllocator nodes m start sz = Some (b, m') \<and>
     buddy_inv b m' (init_free start (unat (b_mem_size b) div 4096) 64) \<and>
     \<not> b_lock b \<and> b_mem_addr b = start \<and>
     unat (b_mem_size b) = unat sz - (unat sz div 4096 + 4095) div 4096 * 4096 \<and> alloc_size b = 0"
  by (rule BuddyAllocator_case [OF assms])

theorem BuddyAllocator_inv_witness:
  "\<exists>b m'. BuddyAllocator 0x80200000 (\<lambda>_. 0) 0x80300000 0x40000 = Some (b, m') \<and>
     buddy_inv b m' (init_free 0x80300000 (unat (b_mem_size b) div 4096) 64) \<and>
     \<not> b_lock b \<and> b_mem_addr b = 0x80300000 \<and> unat (b_mem_size b) = 0x3f000 \<and> alloc_size b = 0"
  using BuddyAllocator_inv [of "0x80300000" "0x40000" "0x80200000" "\<lambda>_. 0"] by simp

text \<open>
  C2: allocation refines its abstract specification. In any state that satisfies the invariant
  with free lists \<open>F\<close> and with the lock free, a request for \<open>count\<close> pages (order \<open>k\<close>) either
  finds no block and changes nothing, or returns the first block of the lowest non-empty
  level from \<open>k\<close> up: a non-null page-aligned block of \<open>2 ^ k \<ge> count\<close> pages inside the
  range, taken from a free block, disjoint from every block that stays free, marked in use
  with its order; the invariant holds for the lists with the unused halves put back, and no
  byte outside the former free blocks, the list heads and the info bytes changes or becomes
  part of a free block.
\<close>

theorem alloc_pages_refines:
  assumes inv: "buddy_inv b m F" and lock: "\<not> b_lock b"
    and count: "count \<noteq> 0" "order_of count = Some k"
  shows "case alloc_spec F (nat (buddy_max_order b)) k of
     None \<Rightarrow> alloc_pages b m count = Some (0, b, m)
   | Some (p, F') \<Rightarrow> \<exists>m'.
       alloc_pages b m count = Some (p, b\<lparr>alloc_size := alloc_size b + of_nat (blk_size k)\<rparr>, m') \<and>
       buddy_inv b m' F' \<and> p \<noteq> 0 \<and> blk_in b p k \<and> unat count \<le> 2 ^ k \<and>
       (\<forall>j. \<forall>q \<in> set (F' j). blk_disj p k q j) \<and>
       m' (info_byte b p) = mk_info (of_nat k) 1 1 \<and>
       (\<exists>i. k \<le> i \<and> p \<in> set (F i)) \<and>
       (\<forall>a. foreign b F a \<longrightarrow> m' a = m a \<and> foreign b F' a)"
  by (rule alloc_pages_case [OF assms])

theorem alloc_pages_refines_witness:
  "\<exists>b m F p F' m'. buddy_inv b m F \<and> alloc_spec F (nat (buddy_max_order b)) 1 = Some (p, F') \<and>
     alloc_pages b m 2 = Some (p, b\<lparr>alloc_size := 0x2000\<rparr>, m') \<and> buddy_inv b m' F' \<and>
     p = 0x80301000"
proof -
  obtain b m where b: "buddy_inv b m (init_free 0x80300000 63 64)" "\<not> b_lock b" "alloc_size b = 0"
    using BuddyAllocator_case [of "0x80300000" "0x40000" "0x80200000" "\<lambda>_. 0"] by auto
  let ?F = "init_free 0x80300000 63 64"
  have o: "order_of 2 = Some 1"
    unfolding order_of_def by (subst order_loop.simps, simp add: word_le_nat_alt)+
  have F1: "?F 1 = [0x80301000]" by (simp add: init_free_def bit_iff_odd)
  have "1 \<le> nat (buddy_max_order b)" using invD(9) [OF b(1), of _ 1] F1 by simp
  then have "[1..<Suc (nat (buddy_max_order b))] = 1 # [2..<Suc (nat (buddy_max_order b))]"
    by (simp add: upt_rec numeral_2_eq_2)
  then have sp: "alloc_spec ?F (nat (buddy_max_order b)) 1 = Some (0x80301000, carve (?F(1 := [])) 0x80301000 1 1)"
    using F1 by (simp add: alloc_spec_def del: upt_Suc)
  then obtain m' where "alloc_pages b m 2 = Some (0x80301000, b\<lparr>alloc_size := 0x2000\<rparr>, m')"
    "buddy_inv b m' (carve (?F(1 := [])) 0x80301000 1 1)"
    using alloc_pages_refines [OF b(1,2) _ o] b(3) by (auto simp: blk_size_def)
  with b(1) sp show ?thesis by blast
qed



end
