(* ===== verification/Phys_Mem.thy ===== *)
theory Phys_Mem
  imports Buddy_Correct
begin

text \<open>
  The physical memory manager, \<^verbatim>\<open>kernel/mm/physical_memory_manager.cc\<close>. It reaches its page
  allocator through the abstract class \<^verbatim>\<open>VirtualPageAllocator\<close>: the operations below take
  that allocator's virtual functions as arguments, the locale \<open>virtual_page_allocator\<close> is
  the contract they rely on, and the buddy allocator is shown to satisfy it.
\<close>

section \<open>Model\<close>

definition freed_junk :: u64 where "freed_junk = 0"
definition alloc_junk :: u64 where "alloc_junk = 0"
definition null_junk :: u64 where "null_junk = 0"

fun fill_words :: "mem \<Rightarrow> u64 \<Rightarrow> u64 \<Rightarrow> nat \<Rightarrow> mem" where
  "fill_words m p mj 0 = m"
| "fill_words m p mj (Suc n) = fill_words (st64 m p mj) (p + 8) mj n"

definition fill_junk :: "mem \<Rightarrow> u64 \<Rightarrow> u64 \<Rightarrow> mem" where
  "fill_junk m pa mj = fill_words m pa mj (unat (drop_bit 3 page_size))"

partial_function (option) fill_units :: "mem \<Rightarrow> u64 \<Rightarrow> u64 \<Rightarrow> u64 \<Rightarrow> mem option" where
  "fill_units m un end_unit mj =
     (if un < end_unit then fill_units (st64 m un mj) (un + 8) end_unit mj else Some m)"

definition fill_pages :: "mem \<Rightarrow> u64 \<Rightarrow> u32 \<Rightarrow> u64 \<Rightarrow> mem option" where
  "fill_pages m pages cnt mj = fill_units m pages (pages + ucast cnt * page_size) mj"

definition pmm_alloc_pages ::
  "('s \<Rightarrow> mem \<Rightarrow> u64 \<Rightarrow> (u64 \<times> 's \<times> mem) option) \<Rightarrow> 's \<Rightarrow> mem \<Rightarrow> u64 \<Rightarrow> (u64 \<times> 's \<times> mem) option" where
  "pmm_alloc_pages alloc s m cnt =
     do {
       (pgs, s, m) \<leftarrow> alloc s m cnt;
       if pgs = 0 then Some (pgs, s, m)
       else do { m \<leftarrow> fill_pages m pgs (ucast cnt) alloc_junk; Some (pgs, s, m) }
     }"

definition pmm_free_pages ::
  "('s \<Rightarrow> mem \<Rightarrow> u64 \<Rightarrow> (int \<times> 's \<times> mem) option) \<Rightarrow> 's \<Rightarrow> mem \<Rightarrow> u64 \<Rightarrow> (int \<times> 's \<times> mem) option" where
  "pmm_free_pages free s m pa =
     (if pa = 0 then Some (- 1, s, m)
      else do {
        (free_cnt, s, m) \<leftarrow> free s m pa;
        m \<leftarrow> fill_pages m pa (of_int free_cnt) freed_junk;
        Some (0, s, m)
      })"

definition pmm_alloc_page ::
  "('s \<Rightarrow> mem \<Rightarrow> u64 \<Rightarrow> (u64 \<times> 's \<times> mem) option) \<Rightarrow> 's \<Rightarrow> mem \<Rightarrow> (u64 \<times> 's \<times> mem) option" where
  "pmm_alloc_page alloc s m =
     do {
       (pg, s, m) \<leftarrow> alloc s m 1;
       if pg = 0 then Some (pg, s, m) else Some (pg, s, fill_junk m pg alloc_junk)
     }"

definition clear_page :: "mem \<Rightarrow> u64 \<Rightarrow> mem" where
  "clear_page m pa = fill_junk m pa null_junk"

function clear_pages :: "mem \<Rightarrow> u64 \<Rightarrow> u64 \<Rightarrow> mem" where
  "clear_pages m a cnt =
     (if cnt > 0 then clear_pages (fill_junk m a null_junk) (a + page_size) (cnt - 1) else m)"
  by pat_completeness auto
termination
  by (relation "measure (\<lambda>(m, a, cnt). unat cnt)") (auto simp: measure_unat word_gt_0)

declare clear_pages.simps [simp del]

partial_function (option) free_range_loop :: "mem \<Rightarrow> u64 \<Rightarrow> u64 \<Rightarrow> mem option" where
  "free_range_loop m p pa_end =
     (if p + page_size \<le> pa_end then free_range_loop (fill_junk m p freed_junk) (p + page_size) pa_end
      else Some m)"

definition free_range :: "mem \<Rightarrow> u64 \<Rightarrow> u64 \<Rightarrow> mem option" where
  "free_range m pa_start pa_end = free_range_loop m (page_round_up pa_start) pa_end"

record pmm =
  pmm_ram_base :: u64
  pmm_ram_end :: u64
  pmm_allocator :: buddy

definition PhysicalMemoryManager :: "u64 \<Rightarrow> u64 \<Rightarrow> u64 \<Rightarrow> mem \<Rightarrow> (pmm \<times> mem) option" where
  "PhysicalMemoryManager nodes ram_start ram_size m =
     do {
       let ram_base = ram_start;
       let ram_end = ram_base + ram_size;
       m \<leftarrow> free_range m ram_base ram_end;
       (b, m) \<leftarrow> BuddyAllocator nodes m ram_base (ram_end - ram_base);
       Some (\<lparr>pmm_ram_base = ram_base, pmm_ram_end = ram_end, pmm_allocator = b\<rparr>, m)
     }"

definition pmm_mem_desc :: "pmm \<Rightarrow> u64 \<times> u64" where
  "pmm_mem_desc p = mem_desc (pmm_allocator p)"

section \<open>Filling\<close>

lemma unat_skip_8:
  fixes a p :: u64
  shows "unat (a - (p + 8)) = (if 8 \<le> unat (a - p) then unat (a - p) - 8 else unat (a - p) + 2 ^ 64 - 8)"
proof -
  have "a - (p + 8) = (a - p) - 8" by simp
  then show ?thesis by (simp only: unat_sub_if') simp
qed

lemma fill_words_other:
  "8 * n \<le> 2 ^ 64 \<Longrightarrow> 8 * n \<le> unat (a - p) \<Longrightarrow> fill_words m p mj n a = m a"
proof (induction n arbitrary: m p)
  case 0
  then show ?case by simp
next
  case (Suc n)
  have "unat (a - (p + 8)) = unat (a - p) - 8"
    using Suc.prems(2) by (simp add: unat_skip_8)
  then have "fill_words (st64 m p mj) (p + 8) mj n a = st64 m p mj a"
    using Suc by simp
  also have "\<dots> = m a" using Suc.prems(2) by (intro st64_other) (simp add: word_le_nat_alt)
  finally show ?case by simp
qed

lemma st64_zero_byte: "unat (a - p) < 8 \<Longrightarrow> st64 m p 0 a = 0"
proof -
  assume a: "unat (a - p) < 8"
  define k where "k = unat (a - p)"
  have "a = p + of_nat k" unfolding k_def by simp
  moreover have "k = 0 \<or> k = 1 \<or> k = 2 \<or> k = 3 \<or> k = 4 \<or> k = 5 \<or> k = 6 \<or> k = 7"
    using a unfolding k_def by linarith
  ultimately show ?thesis unfolding st64_def by auto
qed

lemma fill_words_zero:
  "8 * n \<le> 2 ^ 64 \<Longrightarrow> unat (a - p) < 8 * n \<Longrightarrow> fill_words m p 0 n a = 0"
proof (induction n arbitrary: m p)
  case 0
  then show ?case by simp
next
  case (Suc n)
  show ?case
  proof (cases "unat (a - p) < 8")
    case True
    have "unat (a - (p + 8)) = unat (a - p) + 2 ^ 64 - 8"
      using True by (simp add: unat_skip_8)
    then have "fill_words (st64 m p 0) (p + 8) 0 n a = st64 m p 0 a"
      using Suc.prems(1) by (intro fill_words_other) auto
    with st64_zero_byte [OF True] show ?thesis by simp
  next
    case False
    then have "unat (a - (p + 8)) = unat (a - p) - 8"
      by (simp add: unat_skip_8)
    with Suc False show ?thesis by simp
  qed
qed

lemma fill_units_words:
  assumes "unat p + 8 * n < 2 ^ 64"
  shows "fill_units m p (p + of_nat (8 * n)) mj = Some (fill_words m p mj n)"
  using assms
proof (induction n arbitrary: m p)
  case 0
  then show ?case by (subst fill_units.simps) simp
next
  case (Suc n)
  have u: "unat (p + of_nat (8 * Suc n)) = unat p + 8 * Suc n"
    by (rule unat_add_of_nat [OF Suc.prems])
  have u8: "unat (p + 8) = unat p + 8" using Suc.prems by (simp add: unat_word_ariths)
  have "fill_units (st64 m p mj) (p + 8) (p + 8 + of_nat (8 * n)) mj =
      Some (fill_words (st64 m p mj) (p + 8) mj n)"
    using Suc.prems by (intro Suc.IH) (simp add: u8)
  moreover have "p < p + of_nat (8 * Suc n)" unfolding word_less_nat_alt u by simp
  moreover have "p + of_nat (8 * Suc n) = p + 8 + of_nat (8 * n)" by simp
  ultimately show ?case by (subst fill_units.simps) (simp add: add.assoc del: of_nat_mult of_nat_Suc mult_Suc_right)
qed


lemma unat_ucast_64_32: "unat (x::u64) < 2 ^ 32 \<Longrightarrow> unat (ucast x :: u32) = unat x"
  by (simp add: unsigned_ucast_eq take_bit_nat_eq_self)

lemma fill_pages_words:
  assumes "unat p + 4096 * unat cnt < 2 ^ 64"
  shows "fill_pages m p cnt mj = Some (fill_words m p mj (512 * unat cnt))"
proof -
  have "p + ucast cnt * page_size = p + of_nat (8 * (512 * unat cnt))"
    by (simp add: mult.commute)
  then show ?thesis unfolding fill_pages_def using fill_units_words [of p "512 * unat cnt" m mj] assms
    by (simp add: mult.commute)
qed

section \<open>The allocator interface\<close>

text \<open>
  What a \<^verbatim>\<open>VirtualPageAllocator\<close> promises: \<open>inv s m f\<close> is its invariant with the
  abstract contents \<open>f\<close>, \<open>owns s f\<close> are the bytes it keeps for itself. It answers
  every supported request with a null pointer or with whole pages it no longer owns, leaves
  alone every byte it does not own, and does not depend on such bytes.
\<close>

locale virtual_page_allocator =
  fixes alloc :: "'s \<Rightarrow> mem \<Rightarrow> u64 \<Rightarrow> (u64 \<times> 's \<times> mem) option"
    and inv :: "'s \<Rightarrow> mem \<Rightarrow> 'f \<Rightarrow> bool"
    and owns :: "'s \<Rightarrow> 'f \<Rightarrow> u64 \<Rightarrow> bool"
  assumes alloc_contract:
      "inv s m f \<Longrightarrow> unat cnt \<le> 2 ^ 31 \<Longrightarrow>
       \<exists>p s' m' f'. alloc s m cnt = Some (p, s', m') \<and> inv s' m' f' \<and>
         (p \<noteq> 0 \<longrightarrow> unat p mod 4096 = 0 \<and> unat p + 4096 * unat cnt < 2 ^ 64 \<and>
            (\<forall>a. unat (a - p) < 4096 * unat cnt \<longrightarrow> owns s f a \<and> \<not> owns s' f' a)) \<and>
         (\<forall>a. \<not> owns s f a \<longrightarrow> m' a = m a \<and> \<not> owns s' f' a)"
    and client_bytes: "inv s m f \<Longrightarrow> (\<And>a. owns s f a \<Longrightarrow> m' a = m a) \<Longrightarrow> inv s m' f"
begin

lemma pmm_alloc_pages_zeroed:
  assumes inv: "inv s m f" and cnt: "unat cnt \<le> 2 ^ 31"
  shows "\<exists>p s' m' f'. pmm_alloc_pages alloc s m cnt = Some (p, s', m') \<and> inv s' m' f' \<and>
    (p \<noteq> 0 \<longrightarrow> unat p mod 4096 = 0 \<and> unat p + 4096 * unat cnt < 2 ^ 64 \<and>
       (\<forall>a. unat (a - p) < 4096 * unat cnt \<longrightarrow> m' a = 0 \<and> owns s f a \<and> \<not> owns s' f' a)) \<and>
    (\<forall>a. \<not> owns s f a \<longrightarrow> m' a = m a \<and> \<not> owns s' f' a)"
proof -
  obtain p s1 m1 f1 where A: "alloc s m cnt = Some (p, s1, m1)" "inv s1 m1 f1"
    "p \<noteq> 0 \<longrightarrow> unat p mod 4096 = 0 \<and> unat p + 4096 * unat cnt < 2 ^ 64 \<and>
       (\<forall>a. unat (a - p) < 4096 * unat cnt \<longrightarrow> owns s f a \<and> \<not> owns s1 f1 a)"
    "\<forall>a. \<not> owns s f a \<longrightarrow> m1 a = m a \<and> \<not> owns s1 f1 a"
    using alloc_contract [OF inv cnt] by (elim exE conjE) (rule that)
  show ?thesis
  proof (cases "p = 0")
    case True
    with A show ?thesis by (auto simp: pmm_alloc_pages_def)
  next
    case False
    have c: "unat (ucast cnt :: u32) = unat cnt" using cnt by (intro unat_ucast_64_32) simp
    let ?m = "fill_words m1 p 0 (512 * unat cnt)"
    have le: "8 * (512 * unat cnt) \<le> 2 ^ 64" using cnt by simp
    have "fill_pages m1 p (ucast cnt) alloc_junk = Some ?m"
      using A(3) False by (subst fill_pages_words) (simp_all add: c alloc_junk_def)
    then have run: "pmm_alloc_pages alloc s m cnt = Some (p, s1, ?m)"
      using A(1) False by (simp add: pmm_alloc_pages_def)
    have z: "?m a = 0" if "unat (a - p) < 4096 * unat cnt" for a
      using that by (intro fill_words_zero [OF le]) simp
    have keep: "?m a = m1 a" if "4096 * unat cnt \<le> unat (a - p)" for a
      using that by (intro fill_words_other [OF le]) simp
    have "inv s1 ?m f1"
      using A(3) False keep by (intro client_bytes [OF A(2)]) (meson not_le)
    moreover have "?m a = m a" if "\<not> owns s f a" for a
      using that A(3,4) False keep [of a] by (metis not_le)
    ultimately show ?thesis using run A(3,4) False z by auto
  qed
qed

lemma pmm_alloc_page_zeroed:
  assumes inv: "inv s m f"
  shows "\<exists>p s' m' f'. pmm_alloc_page alloc s m = Some (p, s', m') \<and> inv s' m' f' \<and>
    (p \<noteq> 0 \<longrightarrow> unat p mod 4096 = 0 \<and> unat p + 4096 < 2 ^ 64 \<and>
       (\<forall>a. unat (a - p) < 4096 \<longrightarrow> m' a = 0 \<and> owns s f a \<and> \<not> owns s' f' a)) \<and>
    (\<forall>a. \<not> owns s f a \<longrightarrow> m' a = m a \<and> \<not> owns s' f' a)"
proof -
  have one: "unat (1::u64) \<le> 2 ^ 31" by simp
  have sz: "pmm_alloc_page alloc s m = pmm_alloc_pages alloc s m 1"
  proof -
    obtain p s1 m1 f1 where A: "alloc s m 1 = Some (p, s1, m1)"
      "p \<noteq> 0 \<longrightarrow> unat p + 4096 * unat (1::u64) < 2 ^ 64"
      using alloc_contract [OF inv one] by metis
    have d: "unat (drop_bit 3 page_size) = 512" by (simp add: drop_bit_eq_div)
    show ?thesis using A fill_pages_words [of p "ucast (1::u64)" m1 alloc_junk]
      by (simp add: pmm_alloc_page_def pmm_alloc_pages_def fill_junk_def d del: page_size_def)
  qed
  show ?thesis using pmm_alloc_pages_zeroed [OF inv one] unfolding sz by simp
qed

end


section \<open>The buddy allocator keeps the contract\<close>

definition buddy_ready :: "buddy \<Rightarrow> mem \<Rightarrow> free_lists \<Rightarrow> bool" where
  "buddy_ready b m F \<longleftrightarrow> buddy_inv b m F \<and> \<not> b_lock b"

definition buddy_owns :: "buddy \<Rightarrow> free_lists \<Rightarrow> u64 \<Rightarrow> bool" where
  "buddy_owns b F a \<longleftrightarrow> \<not> foreign b F a"

lemma node_bytes_cong:
  assumes "node_ok q" "\<And>a. \<not> byte_apart a q \<Longrightarrow> m' a = m a"
  shows "node_magic m' q = node_magic m q" "node_area_size m' q = node_area_size m q"
    "node_prev m' q = node_prev m q" "node_next m' q = node_next m q"
proof -
  have q: "unat q + 32 \<le> 2 ^ 64" using assms(1) by (simp add: node_ok_def)
  have f: "ld64 m' (q + of_nat d) = ld64 m (q + of_nat d)" if "d \<le> 24" for d
  proof (rule ld64_cong)
    fix k :: u64 assume k: "k < 8"
    then have "unat k < 8" by (simp add: word_less_nat_alt)
    then have "unat (q + of_nat (d + unat k)) = unat q + (d + unat k)"
      using q that by (intro unat_add_of_nat) simp
    then have "unat (q + of_nat d + k) = unat q + (d + unat k)" by (simp add: add.assoc)
    with that \<open>unat k < 8\<close> show "m' (q + of_nat d + k) = m (q + of_nat d + k)"
      by (intro assms(2)) (simp add: byte_apart_def)
  qed
  show "node_magic m' q = node_magic m q" "node_area_size m' q = node_area_size m q"
    "node_prev m' q = node_prev m q" "node_next m' q = node_next m q"
    using f [of 0] f [of 8] f [of 16] f [of 24] by (simp_all add: node_defs)
qed

lemma buddy_client_bytes:
  assumes inv: "buddy_inv b m F" and eq: "\<And>a. \<not> foreign b F a \<Longrightarrow> m' a = m a"
  shows "buddy_inv b m' F"
proof -
  note g = invD(1) [OF inv]
  have ok: "node_ok q" if "q \<in> node_space b" for q using nodes_ok_space [OF g] that by (simp add: nodes_ok_def)
  have hd: "m' a = m a" if "\<not> byte_apart a (node_head b (int k))" "k \<le> 32" for a k
    using that by (intro eq) (auto simp: foreign_def)
  have bl: "m' a = m a" if "\<not> byte_apart a q" "q \<in> set (F k)" for a q k
    using that blk_out_apart [of a q k] by (intro eq) (auto simp: foreign_def)
  note hc = node_bytes_cong [OF ok [OF head_in_space] hd]
  note bc = node_bytes_cong [OF ok [OF inv_blk_space [OF inv]] bl]
  have "seg m' (node_head b (int k)) (F k) (node_head b (int k)) =
        seg m (node_head b (int k)) (F k) (node_head b (int k))" if "k \<le> 32" for k
    by (rule seg_frame) (use that hc(3,4) bc(3,4) in auto)
  moreover have "free_blk m' p k = free_blk m p k" if "p \<in> set (F k)" for p k
    using bc(1,2) that by (simp add: free_blk_def)
  ultimately show ?thesis using inv unfolding buddy_inv_def by auto
qed

lemma blk_foreign:
  assumes g: "geometry b" and p: "blk_in b p k" "\<And>j q. q \<in> set (F j) \<Longrightarrow> blk_disj p k q j"
    and a: "unat (a - p) < blk_size k"
  shows "foreign b F a"
proof -
  have "unat p + unat (a - p) < 2 ^ 64" using blk_nowrap [OF g p(1)] a by linarith
  then have u: "unat a = unat p + unat (a - p)"
    using unat_add_of_nat [of p "unat (a - p)"] by simp
  have lo: "ram_lo b \<le> unat a" "unat a < ram_hi b" using p(1) a u by (auto simp: blk_in_def)
  have "byte_apart a (node_head b (int j))" if "j \<le> 32" for j
    using lo g that unat_node_head [OF g that] unfolding byte_apart_def geometry_def by linarith
  moreover have "blk_out a q j" if "q \<in> set (F j)" for q j
    using p(2) [OF that] u a unfolding blk_disj_def blk_out_def by linarith
  ultimately show ?thesis using lo by (auto simp: foreign_def)
qed

interpretation buddy: virtual_page_allocator alloc_pages buddy_ready buddy_owns
proof unfold_locales
  fix b m F and cnt :: u64
  assume "buddy_ready b m F" and cnt: "unat cnt \<le> 2 ^ 31"
  then have inv: "buddy_inv b m F" and lk: "\<not> b_lock b" by (auto simp: buddy_ready_def)
  note g = invD(1) [OF inv]
  show "\<exists>p s' m' f'. alloc_pages b m cnt = Some (p, s', m') \<and> buddy_ready s' m' f' \<and>
         (p \<noteq> 0 \<longrightarrow> unat p mod 4096 = 0 \<and> unat p + 4096 * unat cnt < 2 ^ 64 \<and>
            (\<forall>a. unat (a - p) < 4096 * unat cnt \<longrightarrow> buddy_owns b F a \<and> \<not> buddy_owns s' f' a)) \<and>
         (\<forall>a. \<not> buddy_owns b F a \<longrightarrow> m' a = m a \<and> \<not> buddy_owns s' f' a)"
  proof (cases "cnt = 0")
    case True
    then show ?thesis using inv lk by (auto simp: alloc_pages_def buddy_ready_def)
  next
    case False
    obtain k where k: "order_of cnt = Some k"
      using order_loop_None [of cnt 0] cnt by (cases "order_of cnt") (auto simp: order_of_def)
    note R = alloc_pages_case [OF inv lk False k]
    show ?thesis
    proof (cases "alloc_spec F (nat (buddy_max_order b)) k")
      case None
      with R inv lk show ?thesis by (auto simp: buddy_ready_def)
    next
      case (Some r)
      then obtain p F' where "alloc_spec F (nat (buddy_max_order b)) k = Some (p, F')" by (cases r) auto
      with R obtain m' where
        run: "alloc_pages b m cnt = Some (p, b\<lparr>alloc_size := alloc_size b + of_nat (blk_size k)\<rparr>, m')" and
        inv': "buddy_inv b m' F'" and blk: "blk_in b p k" and c: "unat cnt \<le> 2 ^ k" and
        dj: "\<forall>j. \<forall>q \<in> set (F' j). blk_disj p k q j" and
        fr: "\<forall>a. foreign b F a \<longrightarrow> m' a = m a \<and> foreign b F' a" and
        src: "\<exists>i. k \<le> i \<and> p \<in> set (F i)"
        by auto
      have sz: "4096 * unat cnt \<le> blk_size k" using c by (simp add: blk_size_def)
      let ?b = "b\<lparr>alloc_size := alloc_size b + of_nat (blk_size k)\<rparr>"
      have "buddy_ready ?b m' F'" using inv' lk by (simp add: buddy_ready_def inv_b_update)
      moreover have "unat p mod 4096 = 0" "unat p + 4096 * unat cnt < 2 ^ 64"
        using blk blk_nowrap [OF g blk] sz by (auto simp: blk_in_def)
      moreover have upd: "foreign ?b F' a = foreign b F' a" for a
        by (simp add: foreign_def ram_hi_def node_head_def)
      moreover have "buddy_owns b F a" if "unat (a - p) < 4096 * unat cnt" for a
      proof -
        obtain i where i: "k \<le> i" "p \<in> set (F i)" using src by blast
        have "blk_size k \<le> blk_size i" using i(1) by (simp add: blk_size_def)
        moreover have "unat a = unat p + unat (a - p)"
          using unat_add_of_nat [of p "unat (a - p)"] blk_nowrap [OF g blk] that sz by simp
        ultimately have "\<not> blk_out a p i" using that sz unfolding blk_out_def by linarith
        with i(2) show ?thesis by (auto simp: buddy_owns_def foreign_def)
      qed
      moreover have "\<not> buddy_owns ?b F' a" if "unat (a - p) < 4096 * unat cnt" for a
      proof -
        have "foreign b F' a" using blk_foreign [OF g blk] dj that sz by auto
        then show ?thesis by (simp add: buddy_owns_def upd)
      qed
      ultimately show ?thesis using run fr unfolding buddy_owns_def
        by (intro exI [of _ p] exI [of _ ?b] exI [of _ m'] exI [of _ F']) simp
    qed
  qed
next
  fix b m F m'
  assume "buddy_ready b m F" and "\<And>a. buddy_owns b F a \<Longrightarrow> m' a = m a"
  then show "buddy_ready b m' F"
    using buddy_client_bytes [of b m F m'] by (simp add: buddy_ready_def buddy_owns_def)
qed


section \<open>Properties\<close>

text \<open>
  C4: pages handed out by the physical memory manager over the buddy allocator. With a free lock
  and the allocator's invariant, a request for up to \<open>2 ^ 31\<close> pages returns; it keeps the
  invariant; a non-null result is page-aligned, every byte of the pages is zero, belonged to
  the allocator before and does not any more, and memory the allocator did not own is
  unchanged and stays outside its reach.
\<close>

theorem pmm_alloc_zeroed_pages:
  assumes "buddy_ready b m F" and "unat cnt \<le> 2 ^ 31"
  shows "\<exists>p b' m' F'. pmm_alloc_pages alloc_pages b m cnt = Some (p, b', m') \<and> buddy_ready b' m' F' \<and>
    (p \<noteq> 0 \<longrightarrow> unat p mod 4096 = 0 \<and> unat p + 4096 * unat cnt < 2 ^ 64 \<and>
       (\<forall>a. unat (a - p) < 4096 * unat cnt \<longrightarrow> m' a = 0 \<and> buddy_owns b F a \<and> \<not> buddy_owns b' F' a)) \<and>
    (\<forall>a. \<not> buddy_owns b F a \<longrightarrow> m' a = m a \<and> \<not> buddy_owns b' F' a)"
  using assms by (rule buddy.pmm_alloc_pages_zeroed)

theorem pmm_alloc_zeroed_pages_witness:
  "\<exists>b m p b' m' F'. \<not> b_lock b \<and> pmm_alloc_pages alloc_pages b m 3 = Some (p, b', m') \<and> buddy_ready b' m' F' \<and>
    (p \<noteq> 0 \<longrightarrow> (\<forall>a. unat (a - p) < 12288 \<longrightarrow> m' a = 0 \<and> \<not> buddy_owns b' F' a))"
proof -
  obtain b m where "buddy_inv b m (init_free 0x80300000 63 64)" "\<not> b_lock b"
    using BuddyAllocator_case [of "0x80300000" "0x40000" "0x80200000" "\<lambda>_. 0"] by auto
  then have r: "buddy_ready b m (init_free 0x80300000 63 64)" "\<not> b_lock b" by (simp_all add: buddy_ready_def)
  have "unat (3::u64) \<le> 2 ^ 31" by simp
  from pmm_alloc_zeroed_pages [OF r(1) this] obtain p b' m' F' where
    "pmm_alloc_pages alloc_pages b m 3 = Some (p, b', m')" "buddy_ready b' m' F'"
    "p \<noteq> 0 \<longrightarrow> (\<forall>a. unat (a - p) < 12288 \<longrightarrow> m' a = 0 \<and> \<not> buddy_owns b' F' a)" by auto
  with r(2) show ?thesis by blast
qed

text \<open>
  a repeated release through the physical memory manager reports success and wipes memory.
  \<^verbatim>\<open>free_pages\<close> takes the allocator's status code as a page count: the -3 of a block that is
  not in use becomes \<open>2 ^ 32 - 3\<close> pages, and every byte of that range is overwritten with 0.
\<close>

theorem pmm_double_free_wipes:
  assumes "free_pages b m pa = Some (- 3, b, m)" and "pa \<noteq> 0"
    and "unat pa + 4096 * (2 ^ 32 - 3) < 2 ^ 64"
  shows "\<exists>m'. pmm_free_pages free_pages b m pa = Some (0, b, m') \<and>
    (\<forall>a. unat (a - pa) < 4096 * (2 ^ 32 - 3) \<longrightarrow> m' a = 0) \<and>
    (\<forall>a. 4096 * (2 ^ 32 - 3) \<le> unat (a - pa) \<longrightarrow> m' a = m a)"
proof -
  let ?n = "512 * (2 ^ 32 - 3) :: nat"
  have c: "unat (of_int (- 3) :: u32) = 2 ^ 32 - 3" by simp
  have "fill_pages m pa (of_int (- 3)) freed_junk = Some (fill_words m pa 0 ?n)"
    using assms(3) by (subst fill_pages_words) (simp_all only: c freed_junk_def)
  then have "pmm_free_pages free_pages b m pa = Some (0, b, fill_words m pa 0 ?n)"
    using assms(1,2) by (simp add: pmm_free_pages_def)
  moreover have "fill_words m pa 0 ?n a = 0" if "unat (a - pa) < 4096 * (2 ^ 32 - 3)" for a
    using that by (intro fill_words_zero) simp_all
  moreover have "fill_words m pa 0 ?n a = m a" if "4096 * (2 ^ 32 - 3) \<le> unat (a - pa)" for a
    using that by (intro fill_words_other) simp_all
  ultimately show ?thesis by blast
qed

theorem pmm_double_free_wipes_witness:
  "\<exists>b. \<exists>m'. pmm_free_pages free_pages b (\<lambda>_. 0x43) 0x80301000 = Some (0, b, m') \<and>
    m' 0x80301000 = 0 \<and> m' 0x90000000 = 0 \<and> m' 0x80300000 = 0x43"
proof -
  let ?b = "\<lparr>b_lock = False, b_mem_addr = 0x80300000, b_mem_size = 0x3f000, buddy_nodes = 0x80200000,
     buddy_max_order = 5, area_desc = [], alloc_infos = 0x8033f000, infos_size = 4096, alloc_size = 0\<rparr>"
  have "free_pages ?b (\<lambda>_. 0x43) 0x80301000 = Some (- 3, ?b, \<lambda>_. 0x43)"
    by (simp add: free_pages_def is_page_align_iff acquire_def release_def Let_def get_info_index_def
        info_area_flag_def info_in_use_def bit_iff_odd drop_bit_eq_div)
  from pmm_double_free_wipes [OF this] obtain m' where
    m': "pmm_free_pages free_pages ?b (\<lambda>_. 0x43) 0x80301000 = Some (0, ?b, m')"
      "\<forall>a. unat (a - 0x80301000) < 4096 * (2 ^ 32 - 3) \<longrightarrow> m' a = 0"
      "\<forall>a. 4096 * (2 ^ 32 - 3) \<le> unat (a - 0x80301000) \<longrightarrow> m' a = 0x43" by auto
  have "m' 0x80301000 = 0" using m'(2) [THEN spec [of _ "0x80301000"]] by simp
  moreover have "m' 0x90000000 = 0" using m'(2) [THEN spec [of _ "0x90000000"]] by simp
  moreover have "m' 0x80300000 = 0x43" using m'(3) [THEN spec [of _ "0x80300000"]] by simp
  ultimately show ?thesis using m'(1) by blast
qed

end
