(* ===== verification/Page_Tables.thy ===== *)
theory Page_Tables
  imports Phys_Mem
begin

text \<open>
  Software page table walks, \<^verbatim>\<open>kernel/mm/page_table.cc\<close>, as compiled for RISC-V (the walk
  starts at the level the code calls pud). A table is its base address and its global flag;
  its entries are memory. Pages come from and go to the physical memory manager over the
  buddy allocator, whose state is passed along. \<open>None\<close> is \<^verbatim>\<open>log_panic\<close>, which does not
  return.
\<close>

section \<open>Model\<close>

record pagetable =
  pt_base :: u64
  pt_global :: bool

definition PageTable :: pagetable where
  "PageTable = \<lparr>pt_base = 0, pt_global = False\<rparr>"

definition set_base :: "pagetable \<Rightarrow> u64 \<Rightarrow> pagetable" where "set_base pt addr = pt\<lparr>pt_base := addr\<rparr>"
definition get_base :: "pagetable \<Rightarrow> u64" where "get_base pt = pt_base pt"
definition set_global :: "pagetable \<Rightarrow> pagetable" where "set_global pt = pt\<lparr>pt_global := True\<rparr>"
definition unset_global :: "pagetable \<Rightarrow> pagetable" where "unset_global pt = pt\<lparr>pt_global := False\<rparr>"
definition pt_is_null :: "pagetable \<Rightarrow> bool" where "pt_is_null pt \<longleftrightarrow> pt_base pt = 0"

definition get_pte :: "pagetable \<Rightarrow> u64 \<Rightarrow> u64" where
  "get_pte pt index = pt_base pt + 8 * index"
definition get_pte_addr :: "pagetable \<Rightarrow> u64 \<Rightarrow> u64" where
  "get_pte_addr pt index = pt_base pt + 8 * index"
definition get_pte_data :: "mem \<Rightarrow> pagetable \<Rightarrow> u64 \<Rightarrow> u64" where
  "get_pte_data m pt index = ld64 m (pt_base pt + 8 * index)"
definition reset_pte_data :: "mem \<Rightarrow> pagetable \<Rightarrow> u64 \<Rightarrow> mem" where
  "reset_pte_data m pt index = st64 m (pt_base pt + 8 * index) 0"

text \<open>The calls on \<^verbatim>\<open>k_pmm\<close>.\<close>

definition k_alloc_page :: "buddy \<Rightarrow> mem \<Rightarrow> (u64 \<times> buddy \<times> mem) option" where
  "k_alloc_page = pmm_alloc_page alloc_pages"
definition k_alloc_pages :: "buddy \<Rightarrow> mem \<Rightarrow> u64 \<Rightarrow> (u64 \<times> buddy \<times> mem) option" where
  "k_alloc_pages = pmm_alloc_pages alloc_pages"
definition k_free_pages :: "buddy \<Rightarrow> mem \<Rightarrow> u64 \<Rightarrow> (buddy \<times> mem) option" where
  "k_free_pages b m pa = map_option snd (pmm_free_pages free_pages b m pa)"

definition walk_to_next_level ::
  "buddy \<Rightarrow> mem \<Rightarrow> u64 \<Rightarrow> bool \<Rightarrow> pagetable \<Rightarrow> (bool \<times> pagetable \<times> buddy \<times> mem) option" where
  "walk_to_next_level b m pte alloc pt =
     (if pte_is_valid m pte then Some (True, set_base pt (to_vir (pte_to_pa m pte)), b, m)
      else if \<not> alloc then Some (False, pt, b, m)
      else do {
        (page_addr, b, m) \<leftarrow> k_alloc_page b m;
        if page_addr = 0 then Some (False, pt, b, m)
        else
          let m = clear_page m page_addr;
              pt = set_base pt page_addr;
              m = pte_set_data m pte (page_round_down (to_phy page_addr) OR map_dir_page_flags)
          in Some (True, pt, b, m)
      })"

definition walk :: "buddy \<Rightarrow> mem \<Rightarrow> pagetable \<Rightarrow> u64 \<Rightarrow> bool \<Rightarrow> (u64 \<times> buddy \<times> mem) option" where
  "walk b m this va alloc =
     (if \<not> pt_global this then Some (0, b, m)
      else do {
        let pt = set_base PageTable (pt_base this);
        let pte = get_pte pt (pud_num va);
        (ok, pt, b, m) \<leftarrow> walk_to_next_level b m pte alloc pt;
        if \<not> ok then None
        else do {
          let pte = get_pte pt (pmd_num va);
          (ok, pt, b, m) \<leftarrow> walk_to_next_level b m pte alloc pt;
          if \<not> ok then None
          else Some (get_pte pt (pt_num va), b, m)
        }
      })"

text \<open>\<^verbatim>\<open>walk_addr\<close> and \<^verbatim>\<open>kwalk_addr\<close> never allocate: they read memory only.\<close>

definition walk_addr :: "buddy \<Rightarrow> mem \<Rightarrow> pagetable \<Rightarrow> u64 \<Rightarrow> u64 option" where
  "walk_addr b m this va =
     do {
       (pte, _, m) \<leftarrow> walk b m this va False;
       if pte_is_null pte then Some 0
       else if \<not> pte_is_valid m pte then Some 0
       else if pte_is_super_plv m pte then Some 0
       else Some (pte_to_pa m pte OR (va AND (page_size - 1)))
     }"

definition kwalk_addr :: "buddy \<Rightarrow> mem \<Rightarrow> pagetable \<Rightarrow> u64 \<Rightarrow> u64 option" where
  "kwalk_addr b m this va =
     do {
       (pte, _, m) \<leftarrow> walk b m this va False;
       if pte_is_null pte then Some 0
       else if \<not> pte_is_valid m pte then Some 0
       else Some (pte_to_pa m pte OR (va AND (page_size - 1)))
     }"

partial_function (option) freewalk_from :: "buddy \<Rightarrow> mem \<Rightarrow> pagetable \<Rightarrow> nat \<Rightarrow> (buddy \<times> mem) option" where
  "freewalk_from b m this i =
     (if i < unat (page_size div 8) then
        (let next_level = get_pte this (of_nat i);
             pte_valid = pte_is_valid m next_level;
             pte_leaf = (\<not> pte_is_dir_page m next_level)
         in if pte_valid \<and> \<not> pte_leaf then
              (let child = set_base PageTable (to_vir (pte_to_pa m next_level))
               in Option.bind (freewalk_from b m child 0)
                    (\<lambda>st. freewalk_from (fst st) (reset_pte_data (snd st) this (of_nat i)) this (Suc i)))
            else freewalk_from b m this (Suc i))
      else k_free_pages b m (pt_base this))"

definition freewalk :: "buddy \<Rightarrow> mem \<Rightarrow> pagetable \<Rightarrow> (buddy \<times> mem) option" where
  "freewalk b m this = freewalk_from b m this 0"

partial_function (option) freewalk_mapped_from ::
  "buddy \<Rightarrow> mem \<Rightarrow> pagetable \<Rightarrow> nat \<Rightarrow> (buddy \<times> mem) option" where
  "freewalk_mapped_from b m this i =
     (if i < unat (page_size div 8) then
        (let next_level = get_pte this (of_nat i);
             pte = pte_to_pa m next_level
         in if pte_is_dir_page m pte then
              Option.bind (freewalk b m (set_base PageTable (to_vir (pte_to_pa m pte))))
                (\<lambda>st. freewalk_mapped_from (fst st) (reset_pte_data (snd st) this (of_nat i)) this (Suc i))
            else if pte_is_valid m pte then
              Option.bind (k_free_pages b m (to_vir (pte_to_pa m pte)))
                (\<lambda>st. freewalk_mapped_from (fst st) (snd st) this (Suc i))
            else freewalk_mapped_from b m this (Suc i))
      else k_free_pages b m (pt_base this))"

definition freewalk_mapped :: "buddy \<Rightarrow> mem \<Rightarrow> pagetable \<Rightarrow> (buddy \<times> mem) option" where
  "freewalk_mapped b m this = freewalk_mapped_from b m this 0"

text \<open>The overload with a level; the levels the code reaches are 1 to 3.\<close>

definition level_num :: "nat \<Rightarrow> u64 \<Rightarrow> u64" where
  "level_num level va =
     (if level = 4 then pgd_num va else if level = 3 then pud_num va
      else if level = 2 then pmd_num va else pt_num va)"

fun kfreewalk_level :: "buddy \<Rightarrow> mem \<Rightarrow> pagetable \<Rightarrow> u64 \<Rightarrow> nat \<Rightarrow> (buddy \<times> mem) option" where
  "kfreewalk_level b m this va 0 = None"
| "kfreewalk_level b m this va (Suc level) =
     (let pte = get_pte this (level_num (Suc level) va);
          pt = (if pte_is_valid m pte then set_base PageTable (to_vir (pte_to_pa m pte)) else PageTable)
      in if 0 < level
         then Option.bind (kfreewalk_level b m pt va level) (\<lambda>(b, m). k_free_pages b m (pt_base this))
         else k_free_pages b m (pt_base this))"

definition kfreewalk :: "buddy \<Rightarrow> mem \<Rightarrow> pagetable \<Rightarrow> u64 \<Rightarrow> (buddy \<times> mem) option" where
  "kfreewalk b m this va =
     (if va mod page_size \<noteq> 0 then None else kfreewalk_level b m this va 3)"

end
