(* ===== verification/Virt_Mem.thy ===== *)
theory Virt_Mem
  imports Page_Tables
begin

text \<open>
  The virtual memory manager, \<^verbatim>\<open>kernel/mm/virtual_memory_manager.cc\<close>: mapping, unmapping,
  copying and filling of address spaces, and the copies between user and kernel memory. The
  state is that of the page allocator and memory; \<open>None\<close> is a panic. A C++ \<^verbatim>\<open>int\<close>
  page count is kept at its 32 bits where the code converts through it.
\<close>

section \<open>Mapping\<close>

definition num_process :: u32 where "num_process = 32"
definition default_proc_kstack_pages :: u32 where "default_proc_kstack_pages = 31"

definition kstack_vm_from_gid :: "u32 \<Rightarrow> u64 option" where
  "kstack_vm_from_gid gid =
     (if gid \<ge> num_process then None
      else Some (vm_kernel_end -
                 ucast (push_bit page_size_shift ((gid + 1) * (default_proc_kstack_pages + 1)))))"

partial_function (option) map_pages_loop ::
  "buddy \<Rightarrow> mem \<Rightarrow> pagetable \<Rightarrow> u64 \<Rightarrow> u64 \<Rightarrow> u64 \<Rightarrow> u64 \<Rightarrow> (bool \<times> buddy \<times> mem) option" where
  "map_pages_loop b m pt a last_page pa flags =
     Option.bind (walk b m pt a True) (\<lambda>(pte, b, m).
       if pte_is_null pte then Some (False, b, m)
       else if pte_is_valid m pte then Some (False, b, m)
       else
         let m = pte_set_data m pte (page_round_down (to_phy pa) OR flags)
         in if a = last_page then Some (True, b, m)
            else map_pages_loop b m pt (a + page_size) last_page (pa + page_size) flags)"

definition map_pages ::
  "buddy \<Rightarrow> mem \<Rightarrow> pagetable \<Rightarrow> u64 \<Rightarrow> u64 \<Rightarrow> u64 \<Rightarrow> u64 \<Rightarrow> (bool \<times> buddy \<times> mem) option" where
  "map_pages b m pt va sz pa flags =
     (if sz = 0 then None
      else map_pages_loop b m pt (page_round_down va) (page_round_down (va + sz - 1)) pa flags)"

definition plv_flag :: "bool \<Rightarrow> u64" where
  "plv_flag for_user = (if for_user then user_plv_flag else super_plv_flag)"

definition map_code_pages ::
  "buddy \<Rightarrow> mem \<Rightarrow> pagetable \<Rightarrow> u64 \<Rightarrow> u64 \<Rightarrow> u64 \<Rightarrow> bool \<Rightarrow> (bool \<times> buddy \<times> mem) option" where
  "map_code_pages b m pt va sz pa for_user =
     map_pages b m pt va sz pa (map_code_page_flags OR valid_flag OR plv_flag for_user)"

definition map_data_code_pages ::
  "buddy \<Rightarrow> mem \<Rightarrow> pagetable \<Rightarrow> u64 \<Rightarrow> u64 \<Rightarrow> u64 \<Rightarrow> bool \<Rightarrow> (bool \<times> buddy \<times> mem) option" where
  "map_data_code_pages b m pt va sz pa for_user =
     map_pages b m pt va sz pa
       (map_data_page_flags OR map_code_page_flags OR valid_flag OR plv_flag for_user)"

definition map_data_pages ::
  "buddy \<Rightarrow> mem \<Rightarrow> pagetable \<Rightarrow> u64 \<Rightarrow> u64 \<Rightarrow> u64 \<Rightarrow> bool \<Rightarrow> (bool \<times> buddy \<times> mem) option" where
  "map_data_pages b m pt va sz pa for_user =
     map_pages b m pt va sz pa (map_data_page_flags OR valid_flag OR plv_flag for_user)"

section \<open>Unmapping\<close>

partial_function (option) vm_unmap_loop ::
  "buddy \<Rightarrow> mem \<Rightarrow> pagetable \<Rightarrow> u64 \<Rightarrow> u64 \<Rightarrow> bool \<Rightarrow> (buddy \<times> mem) option" where
  "vm_unmap_loop b m pt a va_end do_free =
     (if a < va_end then
        Option.bind (walk b m pt a False) (\<lambda>(pte, b, m).
          if pte_is_null pte then None
          else if \<not> pte_is_valid m pte then None
          else if pte_is_dir_page m pte then None
          else Option.bind
                 (if do_free then k_free_pages b m (to_vir (pte_to_pa m pte)) else Some (b, m))
                 (\<lambda>(b, m). vm_unmap_loop b (pte_clear_data m pte) pt (a + page_size) va_end do_free))
      else Some (b, m))"

definition vm_unmap ::
  "buddy \<Rightarrow> mem \<Rightarrow> pagetable \<Rightarrow> u64 \<Rightarrow> u64 \<Rightarrow> bool \<Rightarrow> (buddy \<times> mem) option" where
  "vm_unmap b m pt va npages do_free =
     (if va mod page_size \<noteq> 0 then None
      else vm_unmap_loop b m pt va (va + npages * page_size) do_free)"

text \<open>A page count stored in an \<^verbatim>\<open>int\<close> and handed on as \<^verbatim>\<open>uint64\<close>.\<close>

definition through_int :: "u64 \<Rightarrow> u64" where
  "through_int x = signed_take_bit 31 x"

definition vm_dealloc ::
  "buddy \<Rightarrow> mem \<Rightarrow> pagetable \<Rightarrow> u64 \<Rightarrow> u64 \<Rightarrow> (u64 \<times> buddy \<times> mem) option" where
  "vm_dealloc b m pt old_sz new_sz =
     (if new_sz \<ge> old_sz then Some (old_sz, b, m)
      else
        let na = page_round_up new_sz; oa = page_round_up old_sz
        in if na < oa then do {
             (b, m) \<leftarrow> vm_unmap b m pt na (through_int ((oa - na) div page_size)) True;
             Some (new_sz, b, m)
           }
           else Some (new_sz, b, m))"

section \<open>Allocation\<close>

text \<open>The loop over the bits of the page count, \<open>k\<close> being the number of the bit.\<close>

function vm_alloc_loop ::
  "buddy \<Rightarrow> mem \<Rightarrow> pagetable \<Rightarrow> u64 \<Rightarrow> u64 \<Rightarrow> u64 \<Rightarrow> u64 \<Rightarrow> bool \<Rightarrow> bool \<Rightarrow> bool \<Rightarrow> nat \<Rightarrow>
   (u64 \<times> buddy \<times> mem) option" where
  "vm_alloc_loop b m pt oa npg has_alloc new_sz executable writeable for_user k =
     (if 64 \<le> k \<or> (push_bit k 1 :: u64) > npg then Some (new_sz, b, m)
      else if bit npg k then do {
        let l = push_bit k 1; let ls = push_bit k page_size;
        (mem, b, m) \<leftarrow> k_alloc_pages b m l;
        if mem = 0 then do {
          (_, b, m) \<leftarrow> vm_dealloc b m pt (oa + has_alloc) oa;
          Some (0, b, m)
        }
        else do {
          let m = clear_pages m mem l;
          (is_ok, b, m) \<leftarrow>
            (if executable then
               if writeable then map_data_code_pages b m pt (oa + has_alloc) ls mem for_user
               else map_code_pages b m pt (oa + has_alloc) ls mem for_user
             else map_data_pages b m pt (oa + has_alloc) ls mem for_user);
          if \<not> is_ok then do {
            (b, m) \<leftarrow> k_free_pages b m mem;
            (_, b, m) \<leftarrow> vm_dealloc b m pt (oa + has_alloc) oa;
            Some (0, b, m)
          }
          else vm_alloc_loop b m pt oa npg (has_alloc + ls) new_sz executable writeable for_user (Suc k)
        }
      }
      else vm_alloc_loop b m pt oa npg has_alloc new_sz executable writeable for_user (Suc k))"
  by pat_completeness auto
termination
  by (relation "measure (\<lambda>(b, m, pt, oa, npg, has, new_sz, x, w, u, k). 64 - k)") auto

declare vm_alloc_loop.simps [simp del]

definition vm_alloc ::
  "buddy \<Rightarrow> mem \<Rightarrow> pagetable \<Rightarrow> u64 \<Rightarrow> u64 \<Rightarrow> bool \<Rightarrow> bool \<Rightarrow> bool \<Rightarrow> (u64 \<times> buddy \<times> mem) option" where
  "vm_alloc b m pt old_sz new_sz executable writeable for_user =
     (if new_sz < old_sz then Some (old_sz, b, m)
      else
        let oa = page_round_up old_sz; na = page_round_up new_sz;
            npg = (na - oa) div page_size
        in vm_alloc_loop b m pt oa npg 0 new_sz executable writeable for_user 0)"

definition vm_create :: "buddy \<Rightarrow> mem \<Rightarrow> (pagetable \<times> buddy \<times> mem) option" where
  "vm_create b m =
     do {
       (addr, b, m) \<leftarrow> k_alloc_page b m;
       if addr = 0 then None
       else Some (set_base (set_global PageTable) addr, b, clear_page m addr)
     }"

section \<open>Filling and copying\<close>

function vm_set_loop :: "buddy \<Rightarrow> mem \<Rightarrow> pagetable \<Rightarrow> u64 \<Rightarrow> u64 \<Rightarrow> int \<Rightarrow> (int \<times> mem) option" where
  "vm_set_loop b m pt vpa fill page_cnt =
     (if page_cnt > 0 then
        Option.bind (walk_addr b m pt vpa) (\<lambda>pa.
          let p = to_vir pa
          in if p = 0 then Some (- 2, m)
             else vm_set_loop b (fill_words m p fill (unat (page_size div 8))) pt (vpa + page_size) fill (page_cnt - 1))
      else Some (0, m))"
  by pat_completeness auto
termination
  by (relation "measure (\<lambda>(b, m, pt, vpa, fill, page_cnt). nat page_cnt)") auto

declare vm_set_loop.simps [simp del]

definition fill_pattern :: "u8 \<Rightarrow> u64" where
  "fill_pattern n =
     (let fill = ucast n;
          fill = fill OR push_bit 8 fill;
          fill = fill OR push_bit 16 fill
      in fill OR push_bit 32 fill)"

definition vm_set :: "buddy \<Rightarrow> mem \<Rightarrow> pagetable \<Rightarrow> u64 \<Rightarrow> u8 \<Rightarrow> int \<Rightarrow> (int \<times> mem) option" where
  "vm_set b m pt va n page_cnt =
     (if \<not> is_page_align va then Some (- 1, m)
      else if page_cnt \<le> 0 then Some (0, m)
      else vm_set_loop b m pt va (fill_pattern n) page_cnt)"

text \<open>Bytes from \<open>src_va\<close> to the end of its page, at most \<open>len\<close>: positive while \<open>len\<close> is.\<close>

definition chunk :: "u64 \<Rightarrow> u64 \<Rightarrow> u64" where
  "chunk src_va len =
     (let n = page_size - (src_va - page_round_down src_va) in if n > len then len else n)"

lemma chunk_bounds: "len > 0 \<Longrightarrow> 0 < chunk v len \<and> chunk v len \<le> len"
proof -
  assume len: "len > 0"
  have "unat (v - page_round_down v) = unat v mod 4096" by (rule unat_page_offset)
  then have "unat (v - page_round_down v) < 4096" by simp
  then have "unat (page_size - (v - page_round_down v)) = 4096 - unat (v - page_round_down v)"
    by (simp add: unat_sub_if')
  then have "0 < page_size - (v - page_round_down v)"
    using \<open>unat (v - page_round_down v) < 4096\<close> by (simp add: word_less_nat_alt)
  with len show ?thesis unfolding chunk_def by (auto simp: Let_def)
qed

lemma chunk_measure: "len > 0 \<Longrightarrow> unat (len - chunk v len) < unat len"
  using chunk_bounds [of len v] by (simp add: unat_sub word_le_nat_alt word_less_nat_alt)

function copy_in :: "buddy \<Rightarrow> mem \<Rightarrow> pagetable \<Rightarrow> u64 \<Rightarrow> u64 \<Rightarrow> u64 \<Rightarrow> (int \<times> mem) option" where
  "copy_in b m pt dst src_va len =
     (if len > 0 then
        let va = page_round_down src_va
        in Option.bind (walk_addr b m pt va) (\<lambda>pa.
             if to_vir pa = 0 then Some (- 1, m)
             else let n = chunk src_va len
                  in Option.bind (memmove m dst (to_vir pa + (src_va - va)) n) (\<lambda>m.
                       copy_in b m pt (dst + n) (va + page_size) (len - n)))
      else Some (0, m))"
  by pat_completeness auto
termination
  by (relation "measure (\<lambda>(b, m, pt, dst, src_va, len). unat len)") (auto simp: chunk_measure)

declare copy_in.simps [simp del]

text \<open>The inner loop over one page: the bytes left, and whether the terminator was met.\<close>

fun copy_str_page :: "mem \<Rightarrow> u64 \<Rightarrow> u64 \<Rightarrow> nat \<Rightarrow> u64 \<Rightarrow> bool \<times> mem \<times> u64 \<times> u64" where
  "copy_str_page m p p_dst 0 mx = (False, m, p_dst, mx)"
| "copy_str_page m p p_dst (Suc n) mx =
     (if m p = 0 then (True, m(p_dst := 0), p_dst, mx)
      else copy_str_page (m(p_dst := m p)) (p + 1) (p_dst + 1) n (mx - 1))"

partial_function (option) copy_str_in :: "buddy \<Rightarrow> mem \<Rightarrow> pagetable \<Rightarrow> u64 \<Rightarrow> u64 \<Rightarrow> u64 \<Rightarrow> (int \<times> mem) option" where
  "copy_str_in b m pt p_dst src_va mx =
     (if mx > 0 then
        Option.bind (walk_addr b m pt (page_round_down src_va)) (\<lambda>pa.
          if to_vir pa = 0 then Some (- 1, m)
          else
            let va = page_round_down src_va; n = chunk src_va mx;
                r = copy_str_page m (to_vir pa + (src_va - va)) p_dst (unat n) mx
            in if fst r then Some (0, fst (snd r))
               else copy_str_in b (fst (snd r)) pt (fst (snd (snd r))) (va + page_size) (snd (snd (snd r))))
      else Some (- 1, m))"

fun string_page :: "mem \<Rightarrow> u64 \<Rightarrow> nat \<Rightarrow> u64 \<Rightarrow> bool \<times> u8 list \<times> u64" where
  "string_page m p 0 mx = (False, [], mx)"
| "string_page m p (Suc n) mx =
     (if m p = 0 then (True, [], mx)
      else case string_page m (p + 1) n (mx - 1) of (g, s, mx) \<Rightarrow> (g, m p # s, mx))"

partial_function (option) copy_str_in_string ::
  "buddy \<Rightarrow> mem \<Rightarrow> pagetable \<Rightarrow> u8 list \<Rightarrow> u64 \<Rightarrow> u64 \<Rightarrow> (int \<times> u8 list) option" where
  "copy_str_in_string b m pt dst src_va mx =
     (if mx > 0 then
        Option.bind (walk_addr b m pt (page_round_down src_va)) (\<lambda>pa.
          if to_vir pa = 0 then Some (- 1, dst)
          else
            let va = page_round_down src_va; n = chunk src_va mx;
                r = string_page m (to_vir pa + (src_va - va)) (unat n) mx
            in if fst r then Some (0, dst @ fst (snd r))
               else copy_str_in_string b m pt (dst @ fst (snd r)) (va + page_size) (snd (snd r)))
      else Some (- 1, dst))"

text \<open>\<open>cur_pt\<close> is the page table of the current process.\<close>

definition either_copy_in ::
  "buddy \<Rightarrow> mem \<Rightarrow> pagetable \<Rightarrow> u64 \<Rightarrow> bool \<Rightarrow> u64 \<Rightarrow> u64 \<Rightarrow> (int \<times> mem) option" where
  "either_copy_in b m cur_pt dst user_src src len =
     (if user_src then copy_in b m cur_pt dst src len
      else do { m \<leftarrow> memmove m dst src len; Some (0, m) })"

function copyout :: "buddy \<Rightarrow> mem \<Rightarrow> pagetable \<Rightarrow> u64 \<Rightarrow> u64 \<Rightarrow> u64 \<Rightarrow> (int \<times> mem) option" where
  "copyout b m pt va p len =
     (if len > 0 then
        let a = page_round_down va
        in Option.bind (walk b m pt a False) (\<lambda>w.
             let pa = to_vir (pte_to_pa m (fst w))
             in if pa = 0 then Some (- 1, m)
                else let n = chunk va len
                     in Option.bind (memmove m (to_vir (pa + (va - a))) p n) (\<lambda>m.
                          copyout b m pt (a + page_size) (p + n) (len - n)))
      else Some (0, m))"
  by pat_completeness auto
termination
  by (relation "measure (\<lambda>(b, m, pt, va, p, len). unat len)") (auto simp: chunk_measure)

declare copyout.simps [simp del]

section \<open>Shared memory mappings\<close>

definition shm_bad_params :: "u64 \<Rightarrow> u64 \<Rightarrow> u64 \<Rightarrow> bool" where
  "shm_bad_params oldshm newshm sz \<longleftrightarrow>
     oldshm AND 0xfff \<noteq> 0 \<or> newshm AND 0xfff \<noteq> 0 \<or> newshm < sz \<or>
     oldshm > vm_trap_frame - 64 * 2 * page_size"

text \<open>
  \<open>phyaddr\<close> is the page array of the segment; running past its end has no defined result. The
  page is mapped from the old array entry, before the newly allocated one is stored.
\<close>

partial_function (option) allocshm_loop ::
  "buddy \<Rightarrow> mem \<Rightarrow> pagetable \<Rightarrow> u64 \<Rightarrow> u64 \<Rightarrow> nat \<Rightarrow> u64 list \<Rightarrow> (u64 list \<times> buddy \<times> mem) option" where
  "allocshm_loop b m pt a oldshm i phyaddr =
     (if a < oldshm then
        Option.bind (k_alloc_page b m) (\<lambda>(mem, b, m).
          if mem = 0 then None
          else if length phyaddr \<le> i then None
          else Option.bind (map_data_pages b m pt a page_size (phyaddr ! i) True) (\<lambda>(_, b, m).
                 allocshm_loop b m pt (a + page_size) oldshm (Suc i) (phyaddr[i := mem])))
      else Some (phyaddr, b, m))"

definition allocshm ::
  "buddy \<Rightarrow> mem \<Rightarrow> pagetable \<Rightarrow> u64 \<Rightarrow> u64 \<Rightarrow> u64 \<Rightarrow> u64 list \<Rightarrow> (u64 \<times> u64 list \<times> buddy \<times> mem) option" where
  "allocshm b m pt oldshm newshm sz phyaddr =
     (if shm_bad_params oldshm newshm sz then None
      else do {
        (phyaddr, b, m) \<leftarrow> allocshm_loop b m pt newshm oldshm 0 phyaddr;
        Some (newshm, phyaddr, b, m)
      })"

partial_function (option) mapshm_loop ::
  "buddy \<Rightarrow> mem \<Rightarrow> pagetable \<Rightarrow> u64 \<Rightarrow> u64 \<Rightarrow> nat \<Rightarrow> u64 list \<Rightarrow> (buddy \<times> mem) option" where
  "mapshm_loop b m pt a oldshm i phyaddr =
     (if a < oldshm then
        if length phyaddr \<le> i then None
        else Option.bind (map_data_pages b m pt a page_size (phyaddr ! i) True) (\<lambda>(_, b, m).
               mapshm_loop b m pt (a + page_size) oldshm (Suc i) phyaddr)
      else Some (b, m))"

definition mapshm ::
  "buddy \<Rightarrow> mem \<Rightarrow> pagetable \<Rightarrow> u64 \<Rightarrow> u64 \<Rightarrow> u32 \<Rightarrow> u64 list \<Rightarrow> (u64 \<times> buddy \<times> mem) option" where
  "mapshm b m pt oldshm newshm sz phyaddr =
     (if shm_bad_params oldshm newshm (ucast sz) then None
      else do { (b, m) \<leftarrow> mapshm_loop b m pt newshm oldshm 0 phyaddr; Some (newshm, b, m) })"

text \<open>The division binds only to the second rounded address.\<close>

definition deallocshm_npages :: "u64 \<Rightarrow> u64 \<Rightarrow> u64" where
  "deallocshm_npages oldshm newshm =
     through_int (page_round_up newshm - page_round_up oldshm div page_size)"

definition deallocshm ::
  "buddy \<Rightarrow> mem \<Rightarrow> pagetable \<Rightarrow> u64 \<Rightarrow> u64 \<Rightarrow> (u64 \<times> buddy \<times> mem) option" where
  "deallocshm b m pt oldshm newshm =
     (if newshm \<le> oldshm then Some (oldshm, b, m)
      else if page_round_up newshm > page_round_up oldshm then do {
        (b, m) \<leftarrow> vm_unmap b m pt (page_round_up oldshm) (deallocshm_npages oldshm newshm) False;
        Some (oldshm, b, m)
      }
      else Some (oldshm, b, m))"

section \<open>Copying address spaces\<close>

partial_function (option) vm_copy_loop ::
  "buddy \<Rightarrow> mem \<Rightarrow> pagetable \<Rightarrow> pagetable \<Rightarrow> u64 \<Rightarrow> u64 \<Rightarrow> u64 \<Rightarrow> (int \<times> buddy \<times> mem) option" where
  "vm_copy_loop b m old_pt new_pt start va va_end =
     (if va < va_end then
        Option.bind (walk b m old_pt va False) (\<lambda>(pte, b, m).
          if pte_is_null pte then None
          else if \<not> pte_is_present m pte then None
          else
            let pa = to_vir (pte_to_pa m pte); flags = pte_get_flags m pte
            in Option.bind (k_alloc_page b m) (\<lambda>(mem, b, m).
                 if mem = 0 then
                   Option.bind (vm_unmap b m new_pt start ((va - start) div page_size) True)
                     (\<lambda>(b, m). Some (- 1, b, m))
                 else Option.bind (memmove m mem pa page_size) (\<lambda>m.
                   Option.bind (map_pages b m new_pt va page_size mem flags) (\<lambda>(ok, b, m).
                     if \<not> ok then
                       Option.bind (k_free_pages b m mem) (\<lambda>(b, m).
                         Option.bind (vm_unmap b m new_pt start ((va - start) div page_size) True)
                           (\<lambda>(b, m). Some (- 1, b, m)))
                     else vm_copy_loop b m old_pt new_pt start (va + page_size) va_end))))
      else Some (0, b, m))"

definition vm_copy ::
  "buddy \<Rightarrow> mem \<Rightarrow> pagetable \<Rightarrow> pagetable \<Rightarrow> u64 \<Rightarrow> u64 \<Rightarrow> (int \<times> buddy \<times> mem) option" where
  "vm_copy b m old_pt new_pt start sz =
     (if \<not> is_page_align start then None
      else if \<not> is_page_align sz then None
      else vm_copy_loop b m old_pt new_pt start start (start + sz))"

partial_function (option) vm_copy_k_loop ::
  "buddy \<Rightarrow> mem \<Rightarrow> pagetable \<Rightarrow> pagetable \<Rightarrow> pagetable \<Rightarrow> u64 \<Rightarrow> u64 \<Rightarrow> u64 \<Rightarrow> (int \<times> buddy \<times> mem) option" where
  "vm_copy_k_loop b m old_pt new_pt new_kpt start va va_end =
     (if va < va_end then
        Option.bind (walk b m old_pt va False) (\<lambda>(pte, b, m).
          if pte_is_null pte then None
          else if \<not> pte_is_present m pte then None
          else
            let pa = to_vir (pte_to_pa m pte); flags = pte_get_flags m pte; done = (va - start) div page_size
            in Option.bind (k_alloc_page b m) (\<lambda>(mem, b, m).
                 if mem = 0 then
                   Option.bind (vm_unmap b m new_pt start done True) (\<lambda>(b, m). Some (- 1, b, m))
                 else Option.bind (memmove m mem pa page_size) (\<lambda>m.
                   Option.bind (map_pages b m new_pt va page_size mem flags) (\<lambda>(ok, b, m).
                     if \<not> ok then
                       Option.bind (k_free_pages b m mem) (\<lambda>(b, m).
                         Option.bind (vm_unmap b m new_pt start done True) (\<lambda>(b, m). Some (- 1, b, m)))
                     else
                       Option.bind (map_pages b m new_kpt va page_size mem (flags AND NOT user_plv_flag)) (\<lambda>(ok, b, m).
                         if \<not> ok then
                           Option.bind (k_free_pages b m mem) (\<lambda>(b, m).
                             Option.bind (vm_unmap b m new_pt start done True) (\<lambda>(b, m).
                               Option.bind (vm_unmap b m new_kpt start done True) (\<lambda>(b, m). Some (- 1, b, m))))
                         else vm_copy_k_loop b m old_pt new_pt new_kpt start (va + page_size) va_end)))))
      else Some (0, b, m))"

definition vm_copy_k ::
  "buddy \<Rightarrow> mem \<Rightarrow> pagetable \<Rightarrow> pagetable \<Rightarrow> pagetable \<Rightarrow> u64 \<Rightarrow> u64 \<Rightarrow> (int \<times> buddy \<times> mem) option" where
  "vm_copy_k b m old_pt new_pt new_kpt start sz =
     (if \<not> is_page_align start then None
      else if \<not> is_page_align sz then None
      else vm_copy_k_loop b m old_pt new_pt new_kpt start start (start + sz))"

partial_function (option) vm_set_super_loop ::
  "buddy \<Rightarrow> mem \<Rightarrow> pagetable \<Rightarrow> u64 \<Rightarrow> u64 \<Rightarrow> (int \<times> mem) option" where
  "vm_set_super_loop b m pt a va_end =
     (if a < va_end then
        Option.bind (walk b m pt a False) (\<lambda>(pte, _, m).
          if pte_is_null pte then Some (- 1, m)
          else if \<not> pte_is_valid m pte then Some (- 1, m)
          else if pte_is_dir_page m pte then Some (- 1, m)
          else vm_set_super_loop b (pte_set_super_plv m pte) pt (a + page_size) va_end)
      else Some (0, m))"

definition vm_set_super :: "buddy \<Rightarrow> mem \<Rightarrow> pagetable \<Rightarrow> u64 \<Rightarrow> u64 \<Rightarrow> (int \<times> mem) option" where
  "vm_set_super b m pt va page_cnt =
     (if \<not> is_page_align va then Some (- 1, m)
      else vm_set_super_loop b m pt va (va + page_cnt * page_size))"

section \<open>Kernel stacks and start-up\<close>

definition map_kstack :: "buddy \<Rightarrow> mem \<Rightarrow> pagetable \<Rightarrow> u64 \<Rightarrow> (buddy \<times> mem) option" where
  "map_kstack b m pt kstack =
     (if kstack = 0 then None
      else do {
        (pa, b, m) \<leftarrow> k_alloc_pages b m (ucast default_proc_kstack_pages);
        if pa = 0 then None
        else do {
          let m = clear_page m pa;
          (ok, b, m) \<leftarrow> map_data_pages b m pt kstack (page_size * ucast default_proc_kstack_pages) pa False;
          if \<not> ok then None else Some (b, m)
        }
      })"

text \<open>
  The board's kernel mappings; the address of the trampoline page, the end of the kernel text
  and the physical trampoline are build-time symbols. Failures to map are ignored.
\<close>

definition map_ignoring ::
  "bool \<Rightarrow> pagetable \<Rightarrow> (u64 \<times> u64 \<times> u64) \<Rightarrow> (buddy \<times> mem) \<Rightarrow> (buddy \<times> mem) option" where
  "map_ignoring code pt r st =
     (case r of (va, sz, pa) \<Rightarrow> case st of (b, m) \<Rightarrow>
        map_option snd (if code then map_code_pages b m pt va sz pa False
                        else map_data_pages b m pt va sz pa False))"

definition config_pt ::
  "u64 \<Rightarrow> u64 \<Rightarrow> u64 \<Rightarrow> buddy \<Rightarrow> mem \<Rightarrow> pagetable \<Rightarrow> (buddy \<times> mem) option" where
  "config_pt etext trampoline_va trampoline b m pt =
     do {
       let off = 0x3F00000000;
       st \<leftarrow> map_ignoring False pt (0x10000000, page_size, 0x10000000) (b, m);
       st \<leftarrow> map_ignoring False pt (0x10001000 + off, page_size, 0x10001000) st;
       st \<leftarrow> map_ignoring False pt (0x02000000 + off, 0x10000, 0x02000000) st;
       st \<leftarrow> map_ignoring False pt (0x0c000000 + off, 0x4000, 0x0c000000) st;
       st \<leftarrow> map_ignoring False pt (0x0c000000 + off + 0x200000, 0x4000, 0x0c000000 + 0x200000) st;
       st \<leftarrow> map_ignoring True pt (0x80200000, etext - 0x80200000, 0x80200000) st;
       st \<leftarrow> map_ignoring False pt (etext, PHYSTOP - etext, etext) st;
       map_ignoring True pt (trampoline_va, page_size, trampoline) st
     }"

fun map_kstacks :: "buddy \<Rightarrow> mem \<Rightarrow> pagetable \<Rightarrow> u64 list \<Rightarrow> (buddy \<times> mem) option" where
  "map_kstacks b m pt [] = Some (b, m)"
| "map_kstacks b m pt (k # ks) = do { (b, m) \<leftarrow> map_kstack b m pt k; map_kstacks b m pt ks }"

text \<open>\<open>kstacks\<close> are the kernel stack addresses of the process pool.\<close>

definition vmm_init ::
  "u64 \<Rightarrow> u64 \<Rightarrow> u64 \<Rightarrow> u64 list \<Rightarrow> buddy \<Rightarrow> mem \<Rightarrow> (pagetable \<times> buddy \<times> mem) option" where
  "vmm_init etext trampoline_va trampoline kstacks b m =
     do {
       let pt = set_global PageTable;
       (addr, b, m) \<leftarrow> k_alloc_page b m;
       if addr = 0 then None
       else do {
         let m = clear_page m addr;
         let pt = set_base pt addr;
         (b, m) \<leftarrow> config_pt etext trampoline_va trampoline b m pt;
         (b, m) \<leftarrow> map_kstacks b m pt kstacks;
         Some (pt, b, m)
       }
     }"

end
