(* ===== verification/Pipes.thy ===== *)
theory Pipes
  imports Virt_Mem
begin

text \<open>
  Pipes: the ring buffer of \<^verbatim>\<open>kernel/include/pm/ipc/PipeBuffer.hh\<close> and the blocking operations
  of \<^verbatim>\<open>kernel/pm/ipc/pipe.cc\<close>. An operation runs under the pipe's lock until it returns or goes
  to sleep, which releases the lock; it is modelled by its runs between two such points, with
  the loop counter kept across a sleep, and calls of several processes interleave run by run.
\<close>

section \<open>The ring buffer\<close>

definition PIPE_BUF_SIZE :: nat where "PIPE_BUF_SIZE = 4096"

record pipe_buffer =
  pb_buf :: "u8 list"
  pb_head :: nat
  pb_tail :: nat
  pb_size :: nat

definition pb_full :: "pipe_buffer \<Rightarrow> bool" where "pb_full q \<longleftrightarrow> pb_size q = PIPE_BUF_SIZE"
definition pb_empty :: "pipe_buffer \<Rightarrow> bool" where "pb_empty q \<longleftrightarrow> pb_size q = 0"

definition pb_push :: "pipe_buffer \<Rightarrow> u8 \<Rightarrow> bool \<times> pipe_buffer" where
  "pb_push q byte =
     (if pb_full q then (False, q)
      else (True, q\<lparr>pb_buf := (pb_buf q)[pb_tail q := byte],
                    pb_tail := (pb_tail q + 1) mod PIPE_BUF_SIZE, pb_size := pb_size q + 1\<rparr>))"

definition pb_pop :: "pipe_buffer \<Rightarrow> bool \<times> pipe_buffer" where
  "pb_pop q =
     (if pb_empty q then (False, q)
      else (True, q\<lparr>pb_head := (pb_head q + 1) mod PIPE_BUF_SIZE, pb_size := pb_size q - 1\<rparr>))"

definition pb_peek :: "pipe_buffer \<Rightarrow> u8" where
  "pb_peek q = (if pb_empty q then 0 else pb_buf q ! pb_head q)"

section \<open>Pipe operations\<close>

record pipe =
  p_data :: pipe_buffer
  read_is_open :: bool
  write_is_open :: bool

datatype channel = Read_Sleep | Write_Sleep

text \<open>
  How a run ends: asleep on a channel with the loop counter, or returned. Every run also reports
  the channels it wakes, in order.
\<close>

datatype run_end = Asleep channel nat | Returned int

function write_in_kernel_run ::
  "mem \<Rightarrow> bool \<Rightarrow> u64 \<Rightarrow> int \<Rightarrow> nat \<Rightarrow> pipe \<Rightarrow> run_end \<times> pipe \<times> channel list" where
  "write_in_kernel_run m killed addr n i p =
     (if int i < n then
        if \<not> read_is_open p \<or> killed then (Returned (- 1), p, [])
        else if pb_full (p_data p) then (Asleep Write_Sleep i, p, [Read_Sleep])
        else write_in_kernel_run m killed addr n (Suc i)
               (p\<lparr>p_data := snd (pb_push (p_data p) (m (addr + of_nat i)))\<rparr>)
      else (Returned (int i), p, [Read_Sleep]))"
  by pat_completeness auto
termination
  by (relation "measure (\<lambda>(m, killed, addr, n, i, p). nat (n - int i))") auto

declare write_in_kernel_run.simps [simp del]

text \<open>
  The write from user space copies each byte through a local variable at \<open>ch\<close>; a byte that is not
  mapped ends the loop.
\<close>

function write_run ::
  "buddy \<Rightarrow> mem \<Rightarrow> pagetable \<Rightarrow> u64 \<Rightarrow> bool \<Rightarrow> u64 \<Rightarrow> int \<Rightarrow> nat \<Rightarrow> pipe \<Rightarrow> (run_end \<times> pipe \<times> channel list) option" where
  "write_run b m pt ch killed addr n i p =
     (if int i < n then
        if \<not> read_is_open p \<or> killed then Some (Returned (- 1), p, [])
        else if pb_full (p_data p) then Some (Asleep Write_Sleep i, p, [Read_Sleep])
        else Option.bind (copy_in b m pt ch (addr + of_nat i) 1) (\<lambda>(r, m').
               if r = - 1 then Some (Returned (int i), p, [Read_Sleep])
               else write_run b m' pt ch killed addr n (Suc i)
                      (p\<lparr>p_data := snd (pb_push (p_data p) (m' ch))\<rparr>))
      else Some (Returned (int i), p, [Read_Sleep]))"
  by pat_completeness auto
termination
  by (relation "measure (\<lambda>(b, m, pt, ch, killed, addr, n, i, p). nat (n - int i))") auto

declare write_run.simps [simp del]

function read_loop :: "mem \<Rightarrow> u64 \<Rightarrow> int \<Rightarrow> nat \<Rightarrow> pipe \<Rightarrow> nat \<times> pipe \<times> mem" where
  "read_loop m addr n i p =
     (if int i < n then
        if pb_empty (p_data p) then (i, p, m)
        else
          let ch = pb_peek (p_data p); p = p\<lparr>p_data := snd (pb_pop (p_data p))\<rparr>
          in read_loop (m(addr + of_nat i := ch)) addr n (Suc i) p
      else (i, p, m))"
  by pat_completeness auto
termination
  by (relation "measure (\<lambda>(m, addr, n, i, p). nat (n - int i))") auto

declare read_loop.simps [simp del]

definition read_run :: "mem \<Rightarrow> bool \<Rightarrow> u64 \<Rightarrow> int \<Rightarrow> pipe \<Rightarrow> run_end \<times> pipe \<times> mem \<times> channel list" where
  "read_run m killed addr n p =
     (if pb_empty (p_data p) \<and> write_is_open p then
        if killed then (Returned (- 1), p, m, []) else (Asleep Read_Sleep 0, p, m, [])
      else case read_loop m addr n 0 p of (i, p, m) \<Rightarrow> (Returned (int i), p, m, [Write_Sleep]))"

definition Pipe :: "pipe_buffer \<Rightarrow> pipe" where
  "Pipe q = \<lparr>p_data = q, read_is_open = False, write_is_open = False\<rparr>"

definition pipe_alloc :: "pipe \<Rightarrow> pipe" where
  "pipe_alloc p = p\<lparr>read_is_open := True, write_is_open := True\<rparr>"

text \<open>\<^verbatim>\<open>close\<close> also tells whether the pipe deletes itself.\<close>

definition pipe_close :: "pipe \<Rightarrow> bool \<Rightarrow> pipe \<times> channel list \<times> bool" where
  "pipe_close p is_write =
     (let r = (if is_write then (p\<lparr>write_is_open := False\<rparr>, [Read_Sleep])
               else (p\<lparr>read_is_open := False\<rparr>, [Write_Sleep]))
      in (fst r, snd r, \<not> read_is_open (fst r) \<and> \<not> write_is_open (fst r)))"

section \<open>Bounded queues\<close>

text \<open>What the pipe relies on: a queue of at most \<open>cap\<close> bytes, seen as the list of its contents.\<close>

locale bounded_queue =
  fixes wf :: "'q \<Rightarrow> bool" and contents :: "'q \<Rightarrow> 'a list" and cap :: nat
    and full :: "'q \<Rightarrow> bool" and empty :: "'q \<Rightarrow> bool"
    and push :: "'q \<Rightarrow> 'a \<Rightarrow> 'q" and pop :: "'q \<Rightarrow> 'q" and peek :: "'q \<Rightarrow> 'a"
  assumes full_iff: "wf q \<Longrightarrow> full q \<longleftrightarrow> length (contents q) = cap"
    and empty_iff: "wf q \<Longrightarrow> empty q \<longleftrightarrow> contents q = []"
    and bounded: "wf q \<Longrightarrow> length (contents q) \<le> cap"
    and push_contents: "wf q \<Longrightarrow> \<not> full q \<Longrightarrow> wf (push q x) \<and> contents (push q x) = contents q @ [x]"
    and pop_contents: "wf q \<Longrightarrow> contents q = x # xs \<Longrightarrow> wf (pop q) \<and> contents (pop q) = xs \<and> peek q = x"
begin

fun push_many :: "'q \<Rightarrow> 'a list \<Rightarrow> 'q" where
  "push_many q [] = q"
| "push_many q (x # xs) = (if full q then q else push_many (push q x) xs)"

lemma push_many_contents:
  "wf q \<Longrightarrow> wf (push_many q xs) \<and> contents (push_many q xs) = contents q @ take (cap - length (contents q)) xs"
proof (induction xs arbitrary: q)
  case Nil
  then show ?case by simp
next
  case (Cons x xs)
  show ?case
  proof (cases "full q")
    case True
    then show ?thesis using Cons.prems full_iff by simp
  next
    case False
    then have "length (contents q) < cap" using Cons.prems full_iff bounded by (meson le_neq_implies_less)
    then obtain d where d: "cap - length (contents q) = Suc d" by (metis Suc_diff_Suc)
    then have "cap - Suc (length (contents q)) = d" by simp
    with d show ?thesis using Cons.IH [of "push q x"] push_contents [OF Cons.prems False] False by simp
  qed
qed

fun drain :: "'q \<Rightarrow> nat \<Rightarrow> 'a list \<times> 'q" where
  "drain q 0 = ([], q)"
| "drain q (Suc n) = (if empty q then ([], q) else case drain (pop q) n of (xs, q') \<Rightarrow> (peek q # xs, q'))"

lemma drain_contents:
  "wf q \<Longrightarrow> wf (snd (drain q n)) \<and> fst (drain q n) = take n (contents q) \<and>
     contents (snd (drain q n)) = drop n (contents q)"
proof (induction n arbitrary: q)
  case 0
  then show ?case by simp
next
  case (Suc n)
  show ?case
  proof (cases "contents q")
    case Nil
    then show ?thesis using Suc.prems empty_iff by simp
  next
    case (Cons x xs)
    then show ?thesis using Suc.IH [of "pop q"] pop_contents [OF Suc.prems Cons] empty_iff [OF Suc.prems]
      by (simp add: case_prod_beta)
  qed
qed

end

section \<open>The ring buffer is a bounded queue\<close>

definition pb_wf :: "pipe_buffer \<Rightarrow> bool" where
  "pb_wf q \<longleftrightarrow> length (pb_buf q) = PIPE_BUF_SIZE \<and> pb_head q < PIPE_BUF_SIZE \<and>
     pb_size q \<le> PIPE_BUF_SIZE \<and> pb_tail q = (pb_head q + pb_size q) mod PIPE_BUF_SIZE"

definition pb_contents :: "pipe_buffer \<Rightarrow> u8 list" where
  "pb_contents q = map (\<lambda>k. pb_buf q ! ((pb_head q + k) mod PIPE_BUF_SIZE)) [0..<pb_size q]"

lemma ring_slot_distinct:
  assumes "(h::nat) < c" "j < k" "k < c" shows "(h + j) mod c \<noteq> (h + k) mod c"
proof
  assume "(h + j) mod c = (h + k) mod c"
  then have "c dvd (h + k) - (h + j)" by (metis assms(2) mod_eq_dvd_iff_nat nat_add_left_cancel_less order.strict_implies_order)
  then have "c dvd k - j" by simp
  then show False using assms by (meson dvd_imp_le less_imp_diff_less not_less zero_less_diff)
qed

lemma pb_push_contents:
  assumes "pb_wf q" "\<not> pb_full q"
  shows "pb_wf (snd (pb_push q x)) \<and> pb_contents (snd (pb_push q x)) = pb_contents q @ [x]"
proof -
  have lt: "pb_size q < PIPE_BUF_SIZE" using assms by (auto simp: pb_wf_def pb_full_def)
  let ?q = "snd (pb_push q x)"
  have f: "pb_head ?q = pb_head q" "pb_size ?q = Suc (pb_size q)" "pb_buf ?q = (pb_buf q)[pb_tail q := x]"
    "pb_tail ?q = (pb_tail q + 1) mod PIPE_BUF_SIZE"
    using assms(2) by (simp_all add: pb_push_def)
  have tl: "pb_tail q < length (pb_buf q)" using assms(1) by (simp add: pb_wf_def PIPE_BUF_SIZE_def)
  have keep: "pb_buf ?q ! ((pb_head q + k) mod PIPE_BUF_SIZE) = pb_buf q ! ((pb_head q + k) mod PIPE_BUF_SIZE)"
    if "k < pb_size q" for k
    using ring_slot_distinct [OF _ that lt, of "pb_head q"] assms(1) by (simp add: f(3) pb_wf_def)
  have "pb_wf ?q" using assms(1) lt unfolding pb_wf_def f by (simp add: mod_Suc_eq)
  moreover have "pb_contents ?q = pb_contents q @ [x]"
    unfolding pb_contents_def f(1,2) using keep tl assms(1) by (simp add: f(3) pb_wf_def)
  ultimately show ?thesis by simp
qed

lemma pb_pop_contents:
  assumes "pb_wf q" "pb_contents q = x # xs"
  shows "pb_wf (snd (pb_pop q)) \<and> pb_contents (snd (pb_pop q)) = xs \<and> pb_peek q = x"
proof -
  have ne: "pb_size q \<noteq> 0" by (rule notI) (use assms(2) in \<open>simp add: pb_contents_def\<close>)
  then obtain n where n: "pb_size q = Suc n" by (meson not0_implies_Suc)
  have up: "[0..<pb_size q] = 0 # map Suc [0..<n]" unfolding n map_Suc_upt by (rule upt_conv_Cons) simp
  have hd: "x = pb_buf q ! pb_head q" "xs = map (\<lambda>k. pb_buf q ! ((pb_head q + Suc k) mod PIPE_BUF_SIZE)) [0..<n]"
    using assms unfolding pb_contents_def up by (auto simp: pb_wf_def comp_def)
  have "pb_contents (snd (pb_pop q)) = xs"
    using ne n by (simp add: pb_contents_def pb_pop_def pb_empty_def hd(2) mod_add_left_eq)
  moreover have "pb_wf (snd (pb_pop q))"
    using assms(1) ne n by (simp add: pb_wf_def pb_pop_def pb_empty_def PIPE_BUF_SIZE_def mod_simps)
  ultimately show ?thesis using hd(1) ne by (simp add: pb_peek_def pb_empty_def)
qed

interpretation ring: bounded_queue pb_wf pb_contents PIPE_BUF_SIZE pb_full pb_empty
    "\<lambda>q x. snd (pb_push q x)" "\<lambda>q. snd (pb_pop q)" pb_peek
proof unfold_locales
  fix q :: pipe_buffer and x :: u8 and xs
  show "pb_wf q \<Longrightarrow> pb_full q \<longleftrightarrow> length (pb_contents q) = PIPE_BUF_SIZE"
    by (simp add: pb_full_def pb_contents_def)
  show "pb_wf q \<Longrightarrow> pb_empty q \<longleftrightarrow> pb_contents q = []" by (simp add: pb_empty_def pb_contents_def)
  show "pb_wf q \<Longrightarrow> length (pb_contents q) \<le> PIPE_BUF_SIZE" by (simp add: pb_wf_def pb_contents_def)
qed (use pb_push_contents pb_pop_contents in blast)+


section \<open>Runs\<close>

text \<open>The loop counter a run of a writer ends with; a run that returns -1 has moved nothing.\<close>

fun run_count :: "nat \<Rightarrow> run_end \<Rightarrow> nat" where
  "run_count i (Asleep c j) = j"
| "run_count i (Returned r) = (if r = - 1 then i else nat r)"

definition bytes_at :: "mem \<Rightarrow> u64 \<Rightarrow> nat \<Rightarrow> nat \<Rightarrow> u8 list" where
  "bytes_at m addr i j = map (\<lambda>k. m (addr + of_nat k)) [i..<j]"

lemma bytes_at_Suc: "i < j \<Longrightarrow> bytes_at m addr i j = m (addr + of_nat i) # bytes_at m addr (Suc i) j"
  by (simp add: bytes_at_def upt_rec)

lemma write_run_open:
  "read_is_open p \<Longrightarrow> \<not> killed \<Longrightarrow> fst (write_in_kernel_run m killed addr n i p) \<noteq> Returned (- 1)"
proof (induction m killed addr n i p rule: write_in_kernel_run.induct)
  case (1 m killed addr n i p)
  then show ?case by (subst write_in_kernel_run.simps) simp
qed

lemma write_run_contents:
  "pb_wf (p_data p) \<Longrightarrow> write_in_kernel_run m killed addr n i p = (e, p', w) \<Longrightarrow>
     pb_wf (p_data p') \<and> i \<le> run_count i e \<and>
     pb_contents (p_data p') = pb_contents (p_data p) @ bytes_at m addr i (run_count i e) \<and>
     read_is_open p' = read_is_open p \<and> write_is_open p' = write_is_open p"
proof (induction m killed addr n i p rule: write_in_kernel_run.induct)
  case (1 m killed addr n i p)
  show ?case
  proof (cases "int i < n \<and> read_is_open p \<and> \<not> killed \<and> \<not> pb_full (p_data p)")
    case True
    let ?p = "p\<lparr>p_data := snd (pb_push (p_data p) (m (addr + of_nat i)))\<rparr>"
    have c: "pb_wf (p_data ?p)" "pb_contents (p_data ?p) = pb_contents (p_data p) @ [m (addr + of_nat i)]"
      using pb_push_contents [OF 1(2)] True by simp_all
    have run: "write_in_kernel_run m killed addr n (Suc i) ?p = (e, p', w)"
      using 1(3) True by (subst (asm) write_in_kernel_run.simps) simp
    have IH: "pb_wf (p_data p')" "Suc i \<le> run_count (Suc i) e"
        "pb_contents (p_data p') = pb_contents (p_data ?p) @ bytes_at m addr (Suc i) (run_count (Suc i) e)"
        "read_is_open p' = read_is_open p" "write_is_open p' = write_is_open p"
      using 1(1) [OF _ _ _ c(1) run] True by simp_all
    have "e \<noteq> Returned (- 1)" using write_run_open [of ?p killed m addr n "Suc i"] run True by simp
    then have "run_count (Suc i) e = run_count i e" by (cases e) auto
    with IH c(2) show ?thesis by (simp add: bytes_at_Suc)
  next
    case False
    then show ?thesis using 1(2,3)
      by (subst (asm) write_in_kernel_run.simps) (auto simp: bytes_at_def split: if_splits)
  qed
qed


lemma write_run_result:
  "pb_wf (p_data p) \<Longrightarrow> read_is_open p \<Longrightarrow> int i \<le> n \<Longrightarrow>
     (case write_in_kernel_run m False addr n i p of (e, p', w) \<Rightarrow>
        e = (if nat n - i \<le> PIPE_BUF_SIZE - length (pb_contents (p_data p)) then Returned n
             else Asleep Write_Sleep (i + (PIPE_BUF_SIZE - length (pb_contents (p_data p))))) \<and> w = [Read_Sleep])"
proof (induction m "False" addr n i p rule: write_in_kernel_run.induct)
  case (1 m addr n i p)
  note bd = ring.bounded [OF 1(2)]
  show ?case
  proof (cases "int i < n \<and> \<not> pb_full (p_data p)")
    case True
    let ?p = "p\<lparr>p_data := snd (pb_push (p_data p) (m (addr + of_nat i)))\<rparr>"
    have c: "pb_wf (p_data ?p)" "pb_contents (p_data ?p) = pb_contents (p_data p) @ [m (addr + of_nat i)]"
      using pb_push_contents [OF 1(2)] True by simp_all
    have lt: "length (pb_contents (p_data p)) < PIPE_BUF_SIZE"
      using bd ring.full_iff [OF 1(2)] True by (meson le_neq_implies_less)
    have "int i < n" using True by simp
    then have "Suc i \<le> nat n" by linarith
    have "write_in_kernel_run m False addr n i p = write_in_kernel_run m False addr n (Suc i) ?p"
      using True 1(3) by (subst write_in_kernel_run.simps) simp
    then show ?thesis using 1(1) [OF _ _ _ c(1)] True 1(3) c(2) lt \<open>Suc i \<le> nat n\<close>
      by (auto split: prod.splits if_splits)
  next
    case False
    then show ?thesis using 1(2-4) bd ring.full_iff [OF 1(2)]
      by (subst write_in_kernel_run.simps) auto
  qed
qed

lemma read_loop_contents:
  "pb_wf (p_data p) \<Longrightarrow> read_loop m addr n i p = (j, p', m') \<Longrightarrow> n < 2 ^ 64 \<Longrightarrow>
     pb_wf (p_data p') \<and> i \<le> j \<and> (i < j \<longrightarrow> int j \<le> n) \<and>
     pb_contents (p_data p) = bytes_at m' addr i j @ pb_contents (p_data p') \<and>
     (\<forall>k. k < i \<longrightarrow> int i \<le> n \<longrightarrow> m' (addr + of_nat k) = m (addr + of_nat k)) \<and>
     read_is_open p' = read_is_open p \<and> write_is_open p' = write_is_open p"
proof (induction m addr n i p rule: read_loop.induct)
  case (1 m addr n i p)
  show ?case
  proof (cases "int i < n \<and> \<not> pb_empty (p_data p)")
    case True
    then obtain x xs where xs: "pb_contents (p_data p) = x # xs"
      using ring.empty_iff [OF 1(2)] by (cases "pb_contents (p_data p)") auto
    let ?p = "p\<lparr>p_data := snd (pb_pop (p_data p))\<rparr>" and ?m = "m(addr + of_nat i := pb_peek (p_data p))"
    have c: "pb_wf (p_data ?p)" "pb_contents (p_data ?p) = xs" "pb_peek (p_data p) = x"
      using pb_pop_contents [OF 1(2) xs] by simp_all
    have run: "read_loop ?m addr n (Suc i) ?p = (j, p', m')"
      using 1(3) True by (subst (asm) read_loop.simps) (simp add: Let_def)
    have IH: "pb_wf (p_data p')" "Suc i \<le> j" "Suc i < j \<longrightarrow> int j \<le> n"
        "pb_contents (p_data ?p) = bytes_at m' addr (Suc i) j @ pb_contents (p_data p')"
        "\<forall>k. k < Suc i \<longrightarrow> int (Suc i) \<le> n \<longrightarrow> m' (addr + of_nat k) = ?m (addr + of_nat k)"
        "read_is_open p' = read_is_open p" "write_is_open p' = write_is_open p"
      using 1(1) [OF _ _ refl refl c(1) run 1(4)] True by simp_all
    have i: "int (Suc i) \<le> n" using True by simp
    have "m' (addr + of_nat i) = x" using IH(5) i c(3) by simp
    moreover have "m' (addr + of_nat k) = m (addr + of_nat k)" if "k < i" for k
    proof -
      have "i < 2 ^ 64" using i 1(4) by simp
      then have "(of_nat k :: u64) \<noteq> of_nat i" using that by (simp add: word_unat_eq_iff unat_of_nat)
      then show ?thesis using IH(5) i that by simp
    qed
    moreover have "int j \<le> n" using IH(2,3) i by (cases "Suc i = j") auto
    ultimately show ?thesis using IH xs c(2) by (simp add: bytes_at_Suc)
  next
    case False
    then show ?thesis using 1(2,3) by (subst (asm) read_loop.simps) (auto simp: bytes_at_def split: if_splits)
  qed
qed

text \<open>
  Any interleaving of runs of any number of writers, readers and closers on one pipe, with the bytes
  the writers have handed over and the bytes the readers have been given.
\<close>

inductive pipe_reach :: "pipe \<Rightarrow> u8 list \<Rightarrow> u8 list \<Rightarrow> bool" where
  start: "pb_wf q \<Longrightarrow> pb_size q = 0 \<Longrightarrow> pipe_reach (pipe_alloc (Pipe q)) [] []"
| writer: "pipe_reach p W R \<Longrightarrow> write_in_kernel_run m killed addr n i p = (e, p', w) \<Longrightarrow>
     pipe_reach p' (W @ bytes_at m addr i (run_count i e)) R"
| reader: "pipe_reach p W R \<Longrightarrow> read_run m killed addr n p = (e, p', m', w) \<Longrightarrow> n < 2 ^ 31 \<Longrightarrow>
     pipe_reach p' W (R @ bytes_at m' addr 0 (run_count 0 e))"
| closer: "pipe_reach p W R \<Longrightarrow> pipe_close p is_write = (p', w, d) \<Longrightarrow> pipe_reach p' W R"

inductive_cases pipe_reachE: "pipe_reach p W R"

lemma pipe_reach_inv:
  "pipe_reach p W R \<Longrightarrow> pb_wf (p_data p) \<and> W = R @ pb_contents (p_data p)"
proof (induction rule: pipe_reach.induct)
  case (start q)
  then show ?case by (simp add: pipe_alloc_def Pipe_def pb_contents_def)
next
  case (writer p W R m killed addr n i e p' w)
  then show ?case using write_run_contents [of p m killed addr n i e p' w] by simp
next
  case (reader p W R m killed addr n e p' m' w)
  obtain j q m1 where l: "read_loop m addr n 0 p = (j, q, m1)" by (metis prod_cases3)
  have n: "n < 2 ^ 64" using reader.hyps by simp
  note L = read_loop_contents [OF _ l n]
  show ?case
    using reader L by (auto simp: read_run_def l bytes_at_def split: if_splits)
next
  case (closer p W R is_write p' w d)
  then show ?case by (auto simp: pipe_close_def Let_def split: if_splits)
qed

section \<open>Properties\<close>

text \<open>
  C14: a pipe is a first-in first-out channel. In every interleaving of writers, readers and closers,
  whatever they ask for, where they sleep and whether they are killed, the bytes taken from the writers' memory are
  exactly the bytes delivered to the readers' memory, in order, followed by the contents of
  the ring buffer, which never holds more than 4096.
\<close>

theorem pipe_fifo:
  assumes "pipe_reach p W R"
  shows "W = R @ pb_contents (p_data p) \<and> length (pb_contents (p_data p)) \<le> 4096"
  using pipe_reach_inv [OF assms] ring.bounded [of "p_data p"] by (simp add: PIPE_BUF_SIZE_def)

text \<open>
  C37: a writer of \<open>n\<close> bytes on a pipe whose read end is open moves as many bytes, from the first on, as
  the 4096-byte buffer has room for: it returns \<open>n\<close> when all fit, otherwise it goes to sleep
  on the writers' channel with the number moved; the readers' channel is woken either way.
\<close>

theorem pipe_write_prefix:
  assumes "pb_wf (p_data p)" and "read_is_open p" and "0 \<le> n" and "n < 2 ^ 31"
  shows "\<exists>p'. write_in_kernel_run m False addr n 0 p =
      (let room = 4096 - length (pb_contents (p_data p))
       in if nat n \<le> room then (Returned n, p', [Read_Sleep]) else (Asleep Write_Sleep room, p', [Read_Sleep])) \<and>
    pb_contents (p_data p') =
      pb_contents (p_data p) @ bytes_at m addr 0 (min (nat n) (4096 - length (pb_contents (p_data p))))"
proof -
  obtain e p' w where r: "write_in_kernel_run m False addr n 0 p = (e, p', w)" by (metis prod_cases3)
  have "int 0 \<le> n" using assms(3) by simp
  note E = write_run_result [OF assms(1,2) this, of m addr, unfolded r prod.case]
  note C = write_run_contents [OF assms(1) r]
  show ?thesis using E C assms(3) r
    by (intro exI [of _ p']) (auto simp: Let_def PIPE_BUF_SIZE_def min_def)
qed

lemma demo_bytes_at: "bytes_at (\<lambda>x. ucast x) 5 0 3 = [5, 6, 7]"
  by (simp add: bytes_at_def upt_rec)

theorem pipe_write_prefix_witness:
  "\<exists>p'. write_in_kernel_run (\<lambda>x. ucast x) False 5 3 0
      (pipe_alloc (Pipe \<lparr>pb_buf = replicate 4096 0, pb_head = 4095, pb_tail = 4095, pb_size = 0\<rparr>)) =
      (Returned 3, p', [Read_Sleep]) \<and> pb_contents (p_data p') = [5, 6, 7]"
proof -
  let ?p = "pipe_alloc (Pipe \<lparr>pb_buf = replicate 4096 0, pb_head = 4095, pb_tail = 4095, pb_size = 0\<rparr>)"
  have i: "pb_wf (p_data ?p)" "read_is_open ?p" "pb_contents (p_data ?p) = []"
    by (simp_all add: pb_wf_def pipe_alloc_def Pipe_def PIPE_BUF_SIZE_def pb_contents_def)
  from pipe_write_prefix [OF i(1,2), of 3 "\<lambda>x. ucast x" 5] show ?thesis
    unfolding i(3) by (simp add: demo_bytes_at)
qed

theorem pipe_fifo_witness:
  "\<exists>p. pipe_reach p [5, 6, 7] [] \<and> [5, 6, 7] = [] @ pb_contents (p_data p) \<and>
     length (pb_contents (p_data p)) \<le> 4096"
proof -
  let ?q = "\<lparr>pb_buf = replicate 4096 0, pb_head = 4095, pb_tail = 4095, pb_size = 0\<rparr>"
  have wf: "pb_wf ?q" by (simp add: pb_wf_def PIPE_BUF_SIZE_def)
  obtain e p' w where r: "write_in_kernel_run (\<lambda>x. ucast x) False 5 3 0 (pipe_alloc (Pipe ?q)) = (e, p', w)"
    by (metis prod_cases3)
  have e: "e = Returned 3" using write_run_result [of "pipe_alloc (Pipe ?q)" 0 3 "\<lambda>x. ucast x" 5] wf r
    by (simp add: pipe_alloc_def Pipe_def pb_contents_def PIPE_BUF_SIZE_def)
  have s1: "pipe_reach p' [5, 6, 7] []"
    using pipe_reach.writer [OF pipe_reach.start [OF wf] r] e demo_bytes_at by simp
  then show ?thesis using pipe_fifo [OF s1] by blast
qed

end
