(* ===== verification/Files.thy ===== *)
theory Files
  imports Paths Pipes
begin

text \<open>
  Open files and the memory file system's nodes: the reference-counted file objects of
  \<^verbatim>\<open>kernel/include/fs/file/\<close>, reading, writing and seeking of \<^verbatim>\<open>kernel/fs/file/normal.cc\<close>, and the
  node contents of \<^verbatim>\<open>kernel/fs/ramfs/ramfsinode.cc\<close>. \<open>None\<close> is an access outside an array, through
  a null pointer or to a deleted object.
\<close>

section \<open>Bytes in memory\<close>

definition load_bytes :: "mem \<Rightarrow> u64 \<Rightarrow> nat \<Rightarrow> u8 list" where
  "load_bytes m a n = map (\<lambda>k. m (a + of_nat k)) [0..<n]"

definition store_bytes :: "mem \<Rightarrow> u64 \<Rightarrow> u8 list \<Rightarrow> mem" where
  "store_bytes m a bs = (\<lambda>x. if unat (x - a) < length bs then bs ! unat (x - a) else m x)"

lemma load_store_bytes [simp]:
  "length bs < 2 ^ 64 \<Longrightarrow> load_bytes (store_bytes m a bs) a (length bs) = bs"
  by (rule nth_equalityI) (simp_all add: load_bytes_def store_bytes_def unat_of_nat)

lemma length_load_bytes [simp]: "length (load_bytes m a n) = n" by (simp add: load_bytes_def)

section \<open>Nodes of the memory file system\<close>

text \<open>A byte string resized, as the string class does it: cut, or filled up with zeros.\<close>

definition resize_data :: "u8 list \<Rightarrow> nat \<Rightarrow> u8 list" where
  "resize_data d n = take n d @ replicate (n - length d) 0"

definition Normal_nodeRead :: "u8 list \<Rightarrow> mem \<Rightarrow> u64 \<Rightarrow> u64 \<Rightarrow> u64 \<Rightarrow> (u64 \<times> mem) option" where
  "Normal_nodeRead d m src off len =
     (let ln = of_nat (length d);
          read_len = (if off + len > ln then ln - off else len)
      in if read_len = 0 then Some (0, m)
         else if unat off + unat read_len \<le> length d
              then Some (read_len, store_bytes m src (take (unat read_len) (drop (unat off) d)))
              else None)"

definition Normal_nodeWrite :: "u8 list \<Rightarrow> mem \<Rightarrow> u64 \<Rightarrow> u64 \<Rightarrow> u64 \<Rightarrow> (u64 \<times> u8 list) option" where
  "Normal_nodeWrite d m src off len =
     (let d = (if off > of_nat (length d) then resize_data d (unat off) else d);
          d = (if off + len > of_nat (length d) then resize_data d (unat (off + len)) else d)
      in if len = 0 then Some (0, d)
         else if unat off + unat len \<le> length d
              then Some (len, take (unat off) d @ load_bytes m src (unat len) @ drop (unat off + unat len) d)
              else None)"

definition Normal_nodeTruncate :: "u8 list \<Rightarrow> u64 \<Rightarrow> u64 \<times> u8 list" where
  "Normal_nodeTruncate d len = (let d = resize_data d (unat len) in (of_nat (length d), d))"

definition Zero_nodeRead :: "mem \<Rightarrow> u64 \<Rightarrow> u64 \<Rightarrow> u64 \<Rightarrow> u64 \<times> mem" where
  "Zero_nodeRead m src off len = (len, store_bytes m src (replicate (unat len) 0))"

text \<open>The base class reads a fixed configuration text \<open>conf\<close>, terminator included.\<close>

definition RamInode_nodeRead :: "u8 list \<Rightarrow> bool \<Rightarrow> mem \<Rightarrow> u64 \<Rightarrow> u64 \<Rightarrow> u64 \<Rightarrow> (u64 \<times> mem) option" where
  "RamInode_nodeRead conf readable m dst off len =
     (if readable then
        let sz = of_nat (length conf); read_len = (if off + len > sz then sz - off else len)
        in if unat off + unat read_len \<le> length conf
           then Some (read_len, store_bytes m dst (take (unat read_len) (drop (unat off) conf)))
           else None
      else Some (0, m))"

section \<open>Open files\<close>

definition u_read :: "file_attrs \<Rightarrow> bool" where "u_read a \<longleftrightarrow> bit (fa_value a) 8"
definition u_write :: "file_attrs \<Rightarrow> bool" where "u_write a \<longleftrightarrow> bit (fa_value a) 7"

text \<open>The mode bits of \<^verbatim>\<open>sys/stat.h\<close>.\<close>

fun type_mode :: "file_type \<Rightarrow> u32" where
  "type_mode FT_NORMAL = 0x8000"
| "type_mode FT_DIRECT = 0x4000"
| "type_mode FT_SYMLINK = 0xA000"
| "type_mode FT_PIPE = 0x1000"
| "type_mode FT_DEVICE = 0x2000"
| "type_mode FT_NONE = 0"

definition transMode :: "file_attrs \<Rightarrow> u32" where
  "transMode a = type_mode (filetype a) OR (ucast (fa_value a) AND 0x1ff)"

datatype file_kind = NormalFile "nat option" | DeviceFile "nat option" | PipeFile nat bool

record kfile =
  f_kind :: file_kind
  f_attrs :: file_attrs
  f_refcnt :: u32
  f_size :: u64
  f_cloexec :: bool
  f_ptr :: int
  f_always_on :: bool

text \<open>
  The state behind the descriptors: directory entries, file objects, pipes, and the contents of
  the nodes. Objects created by \<^verbatim>\<open>new\<close> get the number \<open>fs_next\<close>.
\<close>

record fstate =
  fs_vfs :: vfs
  fs_files :: "nat \<Rightarrow> kfile option"
  fs_pipes :: "nat \<Rightarrow> pipe option"
  fs_data :: "nat \<Rightarrow> u8 list"
  fs_next :: nat

definition set_file :: "fstate \<Rightarrow> nat \<Rightarrow> kfile option \<Rightarrow> fstate" where
  "set_file st f x = st\<lparr>fs_files := (fs_files st)(f := x)\<rparr>"

definition dup_entry :: "fstate \<Rightarrow> nat option \<Rightarrow> fstate" where
  "dup_entry st d = (case d of None \<Rightarrow> st | Some d \<Rightarrow> st\<lparr>fs_vfs := dup_dentry (fs_vfs st) d\<rparr>)"

definition release_entry :: "fstate \<Rightarrow> nat option \<Rightarrow> fstate option" where
  "release_entry st d =
     (case d of None \<Rightarrow> Some st
      | Some d \<Rightarrow> do { v \<leftarrow> release_dentry (fs_vfs st) d; Some (st\<lparr>fs_vfs := v\<rparr>) })"

definition dup_file :: "fstate \<Rightarrow> nat \<Rightarrow> fstate option" where
  "dup_file st f =
     do {
       x \<leftarrow> fs_files st f;
       let st = set_file st f (Some (x\<lparr>f_refcnt := f_refcnt x + 1\<rparr>));
       Some (case f_kind x of NormalFile d \<Rightarrow> dup_entry st d | DeviceFile d \<Rightarrow> dup_entry st d | PipeFile p w \<Rightarrow> st)
     }"

text \<open>
  Giving up a reference. Deleting a pipe's file object closes its end, which wakes sleepers and
  may delete the pipe; the channels woken are part of the result.
\<close>

definition delete_file :: "fstate \<Rightarrow> nat \<Rightarrow> kfile \<Rightarrow> (fstate \<times> (nat \<times> channel) list) option" where
  "delete_file st f x =
     (let st = set_file st f None
      in case f_kind x of
           PipeFile p w \<Rightarrow> do {
             pp \<leftarrow> fs_pipes st p;
             let (pp, woken, gone) = pipe_close pp w;
             Some (st\<lparr>fs_pipes := (fs_pipes st)(p := if gone then None else Some pp)\<rparr>, map (\<lambda>c. (p, c)) woken)
           }
         | _ \<Rightarrow> Some (st, []))"

definition free_file :: "fstate \<Rightarrow> nat \<Rightarrow> (fstate \<times> (nat \<times> channel) list) option" where
  "free_file st f =
     do {
       x \<leftarrow> fs_files st f;
       let x = x\<lparr>f_refcnt := f_refcnt x - 1\<rparr>;
       let st = set_file st f (Some x);
       st \<leftarrow> (case f_kind x of NormalFile d \<Rightarrow> release_entry st d | DeviceFile d \<Rightarrow> release_entry st d
                           | PipeFile p w \<Rightarrow> Some st);
       if f_refcnt x = 0 then delete_file st f x else Some (st, [])
     }"

definition new_file :: "fstate \<Rightarrow> file_kind \<Rightarrow> file_attrs \<Rightarrow> u64 \<Rightarrow> (nat \<times> fstate) option" where
  "new_file st k a size0 =
     do {
       let f = fs_next st;
       let x = \<lparr>f_kind = k, f_attrs = a, f_refcnt = 0, f_size = size0, f_cloexec = False, f_ptr = 0, f_always_on = False\<rparr>;
       st \<leftarrow> dup_file ((set_file st f (Some x))\<lparr>fs_next := Suc f\<rparr>) f;
       Some (f, st)
     }"

section \<open>Normal files\<close>

text \<open>
  The virtual calls on the node go to \<^verbatim>\<open>ramfs::Normal\<close>, the class of a file created in the memory
  file system; files on other file systems are not modelled.
  \<open>off\<close> and the result are \<^verbatim>\<open>long\<close>, converted to and from \<^verbatim>\<open>size_t\<close>.
\<close>

definition entry_node :: "fstate \<Rightarrow> kfile \<Rightarrow> nat option option" where
  "entry_node st x =
     (case f_kind x of NormalFile (Some d) \<Rightarrow> Some (d_node (d_pool (fs_vfs st) d)) | _ \<Rightarrow> None)"

definition file_read ::
  "fstate \<Rightarrow> mem \<Rightarrow> kfile \<Rightarrow> u64 \<Rightarrow> u64 \<Rightarrow> int \<Rightarrow> bool \<Rightarrow> (int \<times> kfile \<times> mem) option" where
  "file_read st m x buf len off upgrade =
     (if \<not> u_read (f_attrs x) then Some (- 1, x, m)
      else do {
        n \<leftarrow> entry_node st x;
        case n of
          None \<Rightarrow> Some (- 1, x, m)
        | Some n \<Rightarrow> do {
            let off = (if off < 0 then f_ptr x else off);
            (r, m) \<leftarrow> Normal_nodeRead (fs_data st n) m buf (word_of_int off) len;
            let ret = sint r;
            Some (ret, if ret \<ge> 0 \<and> upgrade then x\<lparr>f_ptr := f_ptr x + ret\<rparr> else x, m)
          }
      })"

definition file_write ::
  "fstate \<Rightarrow> mem \<Rightarrow> kfile \<Rightarrow> u64 \<Rightarrow> u64 \<Rightarrow> int \<Rightarrow> bool \<Rightarrow> (int \<times> kfile \<times> fstate) option" where
  "file_write st m x buf len off upgrade =
     (if \<not> u_write (f_attrs x) then Some (- 1, x, st)
      else if filetype (f_attrs x) = FT_DIRECT then Some (- 1, x, st)
      else if filetype (f_attrs x) = FT_NONE then Some (- 1, x, st)
      else do {
        n \<leftarrow> entry_node st x;
        case n of
          None \<Rightarrow> Some (- 1, x, st)
        | Some n \<Rightarrow> do {
            let off = (if off < 0 then f_ptr x else off);
            (r, d) \<leftarrow> Normal_nodeWrite (fs_data st n) m buf (word_of_int off) len;
            let ret = sint r;
            let x = (if ret \<ge> 0 \<and> upgrade then x\<lparr>f_ptr := f_ptr x + ret\<rparr> else x);
            let st = st\<lparr>fs_data := (fs_data st)(n := d)\<rparr>;
            Some (ret, x\<lparr>f_size := of_nat (length (fs_data st n))\<rparr>, st)
          }
      })"

definition file_ready :: "kfile \<Rightarrow> bool" where
  "file_ready x \<longleftrightarrow>
     (if filetype (f_attrs x) = FT_DIRECT then False else filetype (f_attrs x) = FT_NONE)"

definition ftruncate :: "fstate \<Rightarrow> kfile \<Rightarrow> u64 \<Rightarrow> (u64 \<times> kfile \<times> fstate) option" where
  "ftruncate st x len =
     do {
       n \<leftarrow> entry_node st x;
       n \<leftarrow> n;
       let (cur_len, d) = Normal_nodeTruncate (fs_data st n) len;
       Some (cur_len, x\<lparr>f_size := cur_len\<rparr>, st\<lparr>fs_data := (fs_data st)(n := d)\<rparr>)
     }"

definition EINVAL :: int where "EINVAL = 22"

text \<open>\<^verbatim>\<open>whence\<close> is 0, 1 or 2 for the start, the current position and the end.\<close>

definition lseek :: "kfile \<Rightarrow> int \<Rightarrow> int \<Rightarrow> int \<times> kfile" where
  "lseek x offset whence =
     (if whence = 0 then
        if offset < 0 then (- EINVAL, x) else (offset, x\<lparr>f_ptr := offset\<rparr>)
      else if whence = 1 then
        let new_off = f_ptr x + offset
        in if new_off < 0 then (- EINVAL, x) else (new_off, x\<lparr>f_ptr := new_off\<rparr>)
      else if whence = 2 then
        let new_off = sint (f_size x + word_of_int offset)
        in if new_off < 0 \<or> new_off > sint (f_size x) then (- EINVAL, x) else (new_off, x\<lparr>f_ptr := new_off\<rparr>)
      else (- EINVAL, x))"

definition setAppend :: "kfile \<Rightarrow> kfile" where "setAppend x = x\<lparr>f_ptr := sint (f_size x)\<rparr>"

lemma unat_of_nat_small: "n < 2 ^ 64 \<Longrightarrow> unat (of_nat n :: u64) = n" by (simp add: unat_of_nat)

section \<open>Contents\<close>

text \<open>What a node's bytes become when \<open>bs\<close> is written at \<open>off\<close>: a gap before \<open>off\<close> reads as zeros.\<close>

definition overwrite :: "u8 list \<Rightarrow> nat \<Rightarrow> u8 list \<Rightarrow> u8 list" where
  "overwrite d off bs = take off (d @ replicate (off - length d) 0) @ bs @ drop (off + length bs) d"

lemma overwrite_read: "take (length bs) (drop off (overwrite d off bs)) = bs"
  by (simp add: overwrite_def)

lemma length_overwrite: "length (overwrite d off bs) = max (length d) (off + length bs)"
  by (simp add: overwrite_def)

lemma overwrite_elsewhere:
  assumes "i < length d" and "i < off \<or> off + length bs \<le> i"
  shows "overwrite d off bs ! i = d ! i"
  using assms by (auto simp: overwrite_def nth_append)

lemma overwrite_Nil: "overwrite d off [] = d @ replicate (off - length d) 0"
  by (cases "off \<le> length d") (simp_all add: overwrite_def)

text \<open>What the file code relies on: a node is a byte string that is read and overwritten in place.\<close>

locale node_contents =
  fixes bytes :: "'n \<Rightarrow> u8 list"
    and rd :: "'n \<Rightarrow> mem \<Rightarrow> u64 \<Rightarrow> u64 \<Rightarrow> u64 \<Rightarrow> (u64 \<times> mem) option"
    and wr :: "'n \<Rightarrow> mem \<Rightarrow> u64 \<Rightarrow> u64 \<Rightarrow> u64 \<Rightarrow> (u64 \<times> 'n) option"
  assumes rd_bytes: "length (bytes n) < 2 ^ 63 \<Longrightarrow> unat len < 2 ^ 63 \<Longrightarrow> unat off \<le> length (bytes n) \<Longrightarrow>
      rd n m dst off len = Some (of_nat (min (unat len) (length (bytes n) - unat off)),
        store_bytes m dst (take (unat len) (drop (unat off) (bytes n))))"
    and wr_bytes: "length (bytes n) < 2 ^ 63 \<Longrightarrow> unat off + unat len < 2 ^ 63 \<Longrightarrow>
      \<exists>n'. wr n m src off len = Some (len, n') \<and> bytes n' = overwrite (bytes n) (unat off) (load_bytes m src (unat len))"
begin

lemma write_read:
  assumes "length (bytes n) < 2 ^ 63" "unat off + unat len < 2 ^ 63"
  obtains n' where "wr n m src off len = Some (len, n')"
    and "bytes n' = overwrite (bytes n) (unat off) (load_bytes m src (unat len))"
    and "\<And>m' dst. rd n' m' dst off len = Some (len, store_bytes m' dst (load_bytes m src (unat len)))"
proof -
  obtain n' where n': "wr n m src off len = Some (len, n')"
    and b: "bytes n' = overwrite (bytes n) (unat off) (load_bytes m src (unat len))"
    using wr_bytes [OF assms, of m src] by blast
  have l: "length (bytes n') = max (length (bytes n)) (unat off + unat len)"
    unfolding b length_overwrite by simp
  have t: "take (unat len) (drop (unat off) (bytes n')) = load_bytes m src (unat len)"
    using overwrite_read [of "load_bytes m src (unat len)" "unat off" "bytes n"] unfolding b by simp
  have "min (unat len) (length (bytes n') - unat off) = unat len" unfolding l by simp
  then have "rd n' m' dst off len = Some (len, store_bytes m' dst (load_bytes m src (unat len)))" for m' dst
    using rd_bytes [of n' len off m' dst] assms unfolding t by (simp add: l)
  with n' b show ?thesis using that by blast
qed

lemma write_elsewhere:
  assumes "length (bytes n) < 2 ^ 63" "unat off + unat len < 2 ^ 63" "wr n m src off len = Some (r, n')"
    "i < length (bytes n)" "i < unat off \<or> unat off + unat len \<le> i"
  shows "bytes n' ! i = bytes n ! i"
  using wr_bytes [OF assms(1,2), of m src] assms(3-5) by (auto simp: overwrite_elsewhere)

end

lemma unat_add_small: "unat (a::u64) + unat b < 2 ^ 64 \<Longrightarrow> unat (a + b) = unat a + unat b"
  by (simp add: unat_word_ariths)

lemma resize_data_grow: "length d \<le> n \<Longrightarrow> resize_data d n = d @ replicate (n - length d) 0"
  by (simp add: resize_data_def)

interpretation ram: node_contents "\<lambda>d. d" Normal_nodeRead Normal_nodeWrite
proof
  fix d :: "u8 list" and len off dst m
  assume d: "length d < 2 ^ 63" and l: "unat (len::u64) < 2 ^ 63" and o: "unat (off::u64) \<le> length d"
  have u: "unat (of_nat (length d) :: u64) = length d" using d by (simp add: unat_of_nat)
  have s: "unat (off + len) = unat off + unat len" using d l o by (intro unat_add_small) simp
  show "Normal_nodeRead d m dst off len = Some (of_nat (min (unat len) (length d - unat off)),
      store_bytes m dst (take (unat len) (drop (unat off) d)))"
  proof (cases "off + len > of_nat (length d)")
    case True
    then have "length d < unat off + unat len" by (simp add: word_less_nat_alt u s)
    moreover have "unat (of_nat (length d) - off) = length d - unat off"
      using o by (simp add: unat_sub word_le_nat_alt u)
    ultimately show ?thesis using True o d
      by (auto simp: Normal_nodeRead_def Let_def min_def store_bytes_def of_nat_diff unat_eq_0 [symmetric])
  next
    case False
    then have "unat off + unat len \<le> length d" by (simp add: word_le_nat_alt word_less_nat_alt u s not_less)
    then show ?thesis using False
      by (auto simp: Normal_nodeRead_def min_def store_bytes_def)
  qed
next
  fix d :: "u8 list" and len off src m
  assume d: "length d < 2 ^ 63" and l: "unat (off::u64) + unat (len::u64) < 2 ^ 63"
  have s: "unat (off + len) = unat off + unat len" using l by (intro unat_add_small) simp
  define d1 where "d1 = (if off > of_nat (length d) then resize_data d (unat off) else d)"
  have u: "unat (of_nat (length d) :: u64) = length d" using d by (simp add: unat_of_nat)
  have d1: "d1 = d @ replicate (unat off - length d) 0"
    by (simp add: d1_def word_less_nat_alt u resize_data_grow)
  have "length d1 < 2 ^ 64" using d l unfolding d1 by simp
  then have u1: "unat (of_nat (length d1) :: u64) = length d1" by (simp add: unat_of_nat)
  define d2 where "d2 = (if off + len > of_nat (length d1) then resize_data d1 (unat (off + len)) else d1)"
  have d2: "d2 = d1 @ replicate (unat off + unat len - length d1) 0"
    unfolding d2_def by (simp add: word_less_nat_alt u1 s resize_data_grow)
  show "\<exists>d'. Normal_nodeWrite d m src off len = Some (len, d') \<and>
      d' = overwrite d (unat off) (load_bytes m src (unat len))"
  proof (cases "len = 0")
    case True
    then have "d2 = overwrite d (unat off) []" unfolding d2 d1 overwrite_Nil by simp
    then show ?thesis using True
      unfolding Normal_nodeWrite_def d1_def [symmetric] d2_def [symmetric] Let_def by (simp add: load_bytes_def)
  next
    case False
    have "unat off + unat len \<le> length d2" unfolding d2 by simp
    moreover have "take (unat off) d2 = take (unat off) d1" unfolding d2 by (simp add: d1)
    moreover have "drop (unat off + unat len) d2 = drop (unat off + unat len) d" unfolding d2 d1 by simp
    ultimately show ?thesis using False
      unfolding Normal_nodeWrite_def d1_def [symmetric] d2_def [symmetric] Let_def by (simp add: overwrite_def d1)
  qed
qed

section \<open>References\<close>

lemma dup_then_free:
  assumes f: "fs_files st f = Some x" and k: "f_kind x = NormalFile (Some d) \<or> f_kind x = DeviceFile (Some d)"
    and r: "f_refcnt x \<noteq> 0" and d: "0 < d_refcnt (d_pool (fs_vfs st) d)"
  shows "\<exists>st'. dup_file st f = Some st' \<and> free_file st' f = Some (st, [])"
proof -
  have rel: "release_dentry (dup_dentry v d) d = Some v" if "0 < d_refcnt (d_pool v d)" for v
    using that by (simp add: release_dentry_def dup_dentry_def set_dentry_def Let_def fun_upd_idem)
  have upd: "set_file (set_file st f y) f z = set_file st f z" "set_file st f (Some x) = st" for y z
    using f by (simp_all add: set_file_def fun_upd_idem)
  have sf: "set_file (st\<lparr>fs_vfs := v\<rparr>) f y = (set_file st f y)\<lparr>fs_vfs := v\<rparr>" for v y
    by (simp add: set_file_def)
  have vf: "fs_vfs (set_file st f y) = fs_vfs st" "fs_files (set_file st f y) f = y" for y by (simp_all add: set_file_def)
  let ?st = "(set_file st f (Some (x\<lparr>f_refcnt := f_refcnt x + 1\<rparr>)))\<lparr>fs_vfs := dup_dentry (fs_vfs st) d\<rparr>"
  have "dup_file st f = Some ?st" using f k by (auto simp: dup_file_def dup_entry_def vf)
  moreover have "free_file ?st f = Some (st, [])"
    using f k r by (auto simp: free_file_def release_entry_def vf rel [OF d] set_file_def fun_upd_idem)
  ultimately show ?thesis by blast
qed

section \<open>Properties\<close>

text \<open>
  C17: what is written to a file can be read back. Writing \<open>len\<close> bytes at the file position of a writable
  and readable file, seeking back to that position and reading \<open>len\<close> bytes puts the written bytes
  into the buffer; write and read report \<open>len\<close>, the position ends behind the bytes, and the
  rest of the old contents stays.
\<close>

theorem file_write_then_read:
  assumes n: "entry_node st x = Some (Some n)" and a: "u_read (f_attrs x)" "u_write (f_attrs x)"
    and t: "filetype (f_attrs x) = FT_NORMAL"
    and b: "length (fs_data st n) < 2 ^ 63" "0 \<le> f_ptr x" "nat (f_ptr x) + unat len < 2 ^ 63"
  shows "\<exists>x1 st1 x2 x3 m'. file_write st m x src len (- 1) True = Some (int (unat len), x1, st1) \<and>
    lseek x1 (f_ptr x) 0 = (f_ptr x, x2) \<and>
    file_read st1 m x2 dst len (- 1) True = Some (int (unat len), x3, m') \<and>
    load_bytes m' dst (unat len) = load_bytes m src (unat len) \<and> f_ptr x3 = f_ptr x + int (unat len) \<and>
    fs_data st1 n = overwrite (fs_data st n) (nat (f_ptr x)) (load_bytes m src (unat len))"
proof -
  let ?o = "word_of_int (f_ptr x) :: u64"
  have o: "unat ?o = nat (f_ptr x)"
  proof -
    have "?o = of_nat (nat (f_ptr x))" using b(2) by simp
    moreover have "unat (of_nat (nat (f_ptr x)) :: u64) = nat (f_ptr x)" using b(3) by (intro unat_of_nat_small) simp
    ultimately show ?thesis by simp
  qed
  have s: "sint len = int (unat len)" using b by (intro sint_small) simp
  obtain d' where w: "Normal_nodeWrite (fs_data st n) m src ?o len = Some (len, d')"
    and d': "d' = overwrite (fs_data st n) (nat (f_ptr x)) (load_bytes m src (unat len))"
    and rd: "Normal_nodeRead d' m dst ?o len = Some (len, store_bytes m dst (load_bytes m src (unat len)))"
    using ram.write_read [of "fs_data st n" ?o len m src] b unfolding o by metis
  let ?st = "st\<lparr>fs_data := (fs_data st)(n := d')\<rparr>"
  let ?x1 = "x\<lparr>f_ptr := f_ptr x + int (unat len), f_size := of_nat (length d')\<rparr>"
  let ?m = "store_bytes m dst (load_bytes m src (unat len))"
  have 1: "file_write st m x src len (- 1) True = Some (int (unat len), ?x1, ?st)"
    using n a t w s by (simp add: file_write_def Let_def)
  have 2: "lseek ?x1 (f_ptr x) 0 = (f_ptr x, ?x1\<lparr>f_ptr := f_ptr x\<rparr>)" using b by (simp add: lseek_def)
  have "entry_node ?st (?x1\<lparr>f_ptr := f_ptr x\<rparr>) = Some (Some n)" using n by (simp add: entry_node_def cong: file_kind.case_cong option.case_cong)
  then have 3: "file_read ?st m (?x1\<lparr>f_ptr := f_ptr x\<rparr>) dst len (- 1) True = Some (int (unat len), ?x1, ?m)"
    using a s rd by (simp add: file_read_def Let_def)
  have 4: "load_bytes ?m dst (unat len) = load_bytes m src (unat len)"
    using load_store_bytes [of "load_bytes m src (unat len)" m dst] unat_less_2p [of len] by simp
  show ?thesis
  proof (intro exI conjI)
    show "file_write st m x src len (- 1) True = Some (int (unat len), ?x1, ?st)" by (rule 1)
    show "lseek ?x1 (f_ptr x) 0 = (f_ptr x, ?x1\<lparr>f_ptr := f_ptr x\<rparr>)" by (rule 2)
    show "file_read ?st m (?x1\<lparr>f_ptr := f_ptr x\<rparr>) dst len (- 1) True = Some (int (unat len), ?x1, ?m)" by (rule 3)
    show "load_bytes ?m dst (unat len) = load_bytes m src (unat len)" by (rule 4)
  qed (simp_all add: d')
qed

definition demo_file :: kfile where
  "demo_file = \<lparr>f_kind = NormalFile (Some 0), f_attrs = \<lparr>filetype = FT_NORMAL, fa_value = 0x1ff\<rparr>, f_refcnt = 1, f_size = 0,
     f_cloexec = False, f_ptr = 2, f_always_on = False\<rparr>"

definition demo_fstate :: fstate where
  "demo_fstate = \<lparr>fs_vfs = \<lparr>d_pool = \<lambda>_. (mk_dentry ''f'' (Some 5) None False)\<lparr>d_refcnt := 1\<rparr>, d_free = [], node_fs = \<lambda>_. 0,
       fs_root = \<lambda>_. None, fs_mnt = \<lambda>_. None, fs_is_root = \<lambda>_. False, mnt_table = []\<rparr>,
     fs_files = (\<lambda>_. None)(3 := Some demo_file), fs_pipes = \<lambda>_. None, fs_data = \<lambda>_. [], fs_next = 4\<rparr>"

theorem file_write_then_read_witness:
  "\<exists>x1 st1 x2 x3 m'. file_write demo_fstate (\<lambda>_. 7) demo_file 0x1000 3 (- 1) True = Some (3, x1, st1) \<and>
    lseek x1 2 0 = (2, x2) \<and> file_read st1 (\<lambda>_. 7) x2 0x2000 3 (- 1) True = Some (3, x3, m') \<and>
    load_bytes m' 0x2000 3 = [7, 7, 7] \<and> f_ptr x3 = 5 \<and> fs_data st1 5 = [0, 0, 7, 7, 7]"
proof -
  have "entry_node demo_fstate demo_file = Some (Some 5)" "u_read (f_attrs demo_file)" "u_write (f_attrs demo_file)"
    "filetype (f_attrs demo_file) = FT_NORMAL" "length (fs_data demo_fstate 5) < 2 ^ 63" "0 \<le> f_ptr demo_file"
    "nat (f_ptr demo_file) + unat (3::u64) < 2 ^ 63"
    by (simp_all add: demo_fstate_def demo_file_def entry_node_def mk_dentry_def u_read_def u_write_def bit_numeral_rec)
  note * = file_write_then_read [OF this, of "\<lambda>_. 7" "0x1000" "0x2000"]
  have "[0..<3] = [0, 1, 2]" by (simp add: upt_rec)
  then have "load_bytes (\<lambda>_. 7) 0x1000 3 = [7, 7, 7]" by (simp add: load_bytes_def)
  moreover have "overwrite [] 2 [7, 7, 7] = [0, 0, 7, 7, 7]" by (simp add: overwrite_def numeral_2_eq_2)
  moreover have "f_ptr demo_file = 2" "fs_data demo_fstate 5 = []" by (simp_all add: demo_file_def demo_fstate_def)
  ultimately show ?thesis using * by simp
qed

text \<open>
  reading behind the end of a file does not return: when the offset lies beyond the contents of the node,
  the remaining length wraps around and the copy runs out of the byte string, for every
  non-wrapping length. \<^verbatim>\<open>lseek\<close> accepts such an offset from the start of the file.
\<close>

theorem read_behind_end_fails:
  assumes "length d < unat off" and "unat off + unat len < 2 ^ 64"
  shows "Normal_nodeRead d m buf off len = None \<and> (\<forall>x. fst (lseek x (int (unat off)) 0) = int (unat off))"
proof -
  have u: "unat (of_nat (length d) :: u64) = length d"
    using assms(1) unat_less_2p [of off] by (simp add: unat_of_nat)
  have s: "unat (off + len) = unat off + unat len" using assms(2) by (rule unat_add_small)
  have g: "off + len > of_nat (length d)" using assms(1) by (simp add: word_less_nat_alt u s)
  have w: "unat (of_nat (length d) - off) = 2 ^ 64 + length d - unat off"
    using assms(1) by (simp add: unat_sub_if' u)
  have "of_nat (length d) - off \<noteq> 0" using w assms(1) unat_less_2p [of off] by (auto simp flip: unat_eq_zero)
  moreover have "\<not> unat off + unat (of_nat (length d) - off) \<le> length d" unfolding w using assms(1) unat_less_2p [of off] by simp
  ultimately show ?thesis using g by (simp add: Normal_nodeRead_def Let_def lseek_def)
qed

theorem read_behind_end_fails_witness:
  "Normal_nodeRead [1, 2] (\<lambda>_. 0) 4096 3 1 = None \<and> fst (lseek demo_file 3 0) = 3"
  using read_behind_end_fails [of "[1, 2]" 3 1 "\<lambda>_. 0" 4096] by simp

text \<open>
  seeking. With the sum of base and offset in range, the new position is base plus offset, where the base
  is 0, the position or the size; a negative position, a position behind the size when seeking from the
  end, and an unknown base are refused with \<^verbatim>\<open>EINVAL\<close> and leave the file as it was.
\<close>

theorem lseek_position:
  assumes "unat (f_size x) < 2 ^ 63" and "- (2 ^ 63) \<le> offset" and "int (unat (f_size x)) + offset < 2 ^ 63"
    and "base = (if whence = 0 then 0 else if whence = 1 then f_ptr x else int (unat (f_size x)))"
  shows "lseek x offset whence =
    (if whence \<notin> {0, 1, 2} \<or> base + offset < 0 \<or> whence = 2 \<and> base + offset > int (unat (f_size x)) then (- 22, x)
     else (base + offset, x\<lparr>f_ptr := base + offset\<rparr>))"
proof -
  have s: "sint (f_size x) = int (unat (f_size x))" by (rule sint_small) (rule assms(1))
  have "sint (f_size x + word_of_int offset) = int (unat (f_size x)) + offset"
  proof -
    have "f_size x + word_of_int offset = word_of_int (int (unat (f_size x)) + offset)" by simp
    then have "sint (f_size x + word_of_int offset) = signed_take_bit 63 (int (unat (f_size x)) + offset)"
      by (simp only: sint_sbintrunc') simp
    also have "\<dots> = int (unat (f_size x)) + offset"
    proof (rule signed_take_bit_int_eq_self)
      show "- (2 ^ 63) \<le> int (unat (f_size x)) + offset" using assms(2) of_nat_0_le_iff [of "unat (f_size x)", where 'a = int] by linarith
    qed (rule assms(3))
    finally show ?thesis .
  qed
  then show ?thesis using assms(4) s by (simp add: lseek_def EINVAL_def Let_def)
qed

theorem lseek_position_witness:
  "lseek demo_file (- 1) 1 = (1, demo_file\<lparr>f_ptr := 1\<rparr>) \<and> lseek demo_file 1 2 = (- 22, demo_file)"
proof -
  have "f_ptr demo_file = 2" "f_size demo_file = 0" by (simp_all add: demo_file_def)
  then show ?thesis
    using lseek_position [of demo_file "- 1" "f_ptr demo_file" 1] lseek_position [of demo_file 1 0 2] by simp
qed

text \<open>
  a duplicated reference that is given up again leaves no trace: file object, directory entry and pipes
  are as before and nobody is woken.
\<close>

theorem dup_free_restores:
  assumes "fs_files st f = Some x" and "f_kind x = NormalFile (Some d) \<or> f_kind x = DeviceFile (Some d)"
    and "f_refcnt x \<noteq> 0" and "0 < d_refcnt (d_pool (fs_vfs st) d)"
  shows "\<exists>st'. dup_file st f = Some st' \<and> free_file st' f = Some (st, [])"
  using assms by (rule dup_then_free)

theorem dup_free_restores_witness:
  "\<exists>st'. dup_file demo_fstate 3 = Some st' \<and> free_file st' 3 = Some (demo_fstate, [])"
  using dup_free_restores [of demo_fstate 3 demo_file 0] by (simp add: demo_fstate_def demo_file_def)

end
