(* ===== verification/Processes.thy ===== *)
theory Processes
  imports Files
begin

text \<open>
  The process table: \<^verbatim>\<open>kernel/pm/process.cc\<close> and the part of \<^verbatim>\<open>kernel/pm/process_manager.cc\<close> that
  allocates, releases, copies, ends, waits for and wakes processes. One processor runs the
  kernel; its spin locks are always free when they are taken here and are left out. A process is its slot
  in the pool of 32. \<open>None\<close> is a panic, an access outside an array or through a null pointer.
\<close>

section \<open>Process control blocks\<close>

definition default_proc_prio :: int where "default_proc_prio = 10"
definition lowest_proc_prio :: int where "lowest_proc_prio = 19"
definition default_proc_slot :: int where "default_proc_slot = 4"
definition max_open_files :: nat where "max_open_files = 1024"
definition max_vma_num :: nat where "max_vma_num = 64"
definition default_proc_ustack_pages :: u64 where "default_proc_ustack_pages = 32"
definition pool_size :: nat where "pool_size = 32"
definition RLIM_NLIMITS :: nat where "RLIM_NLIMITS = 16"
definition TRAMPOLINE :: u64 where "TRAMPOLINE = push_bit 38 1 - page_size"

datatype proc_state = Unused | Used | Sleeping | Runnable | Running | Zombie

text \<open>What a process can sleep on: a process, an end of a pipe, the tick counter, or another address.\<close>

datatype wchan = Chan_proc nat | Chan_pipe nat channel | Chan_ticks | Chan_addr u64

record vma =
  vma_used :: bool
  vma_address :: u64
  vma_length :: int
  vma_prot :: u32
  vma_flags :: u32
  vma_file :: "nat option"

record kcontext =
  ctx_ra :: u64
  ctx_sp :: u64
  ctx_saved :: "u64 list"

record pcb =
  pr_gid :: nat
  pr_secs :: "nat \<Rightarrow> u64 \<times> u64"
  pr_sec_cnt :: nat
  pr_cwd :: "nat option"
  pr_cwd_name :: string
  pr_state :: proc_state
  pr_chan :: "wchan option"
  pr_killed :: bool
  pr_xstate :: int
  pr_pid :: int
  pr_parent :: "nat option"
  pr_kstack :: u64
  pr_sz :: u64
  pr_pt :: pagetable
  pr_trapframe :: u64
  pr_context :: kcontext
  pr_ofile :: "nat \<Rightarrow> nat option"
  pr_name :: string
  pr_slot :: int
  pr_priority :: int
  pr_shm :: u64
  pr_shmva :: "nat \<Rightarrow> u64"
  pr_shmkeymask :: u32
  pr_mqmask :: u32
  pr_start_tick :: u64
  pr_user_ticks :: u64
  pr_heap_start :: u64
  pr_heap_ptr :: u64
  pr_vm :: "nat \<Rightarrow> vma"
  pr_clear_child_tid :: u64
  pr_robust_list :: u64
  pr_rlim :: "nat \<Rightarrow> u64 \<times> u64"
  pr_sigmask :: u64
  pr_uid :: int
  pr_ggid :: int
  pr_tid :: int
  pr_tgid :: int

text \<open>
  The kernel's state: the pool, the next process number, the slot allocated last, the init
  process, page allocator, memory, files, and the tick counter. \<open>k_tramp\<close> and
  \<open>k_fork_ret\<close> are addresses of linked code.
\<close>

record kern =
  k_pool :: "nat \<Rightarrow> pcb"
  k_cur_pid :: int
  k_last_gid :: nat
  k_init :: "nat option"
  k_buddy :: buddy
  k_mem :: mem
  k_fs :: fstate
  k_ticks :: u64
  k_tramp :: u64
  k_fork_ret :: u64

definition upd :: "kern \<Rightarrow> nat \<Rightarrow> (pcb \<Rightarrow> pcb) \<Rightarrow> kern" where
  "upd k i g = k\<lparr>k_pool := (k_pool k)(i := g (k_pool k i))\<rparr>"

definition set_mm :: "kern \<Rightarrow> buddy \<times> mem \<Rightarrow> kern" where
  "set_mm k bm = k\<lparr>k_buddy := fst bm, k_mem := snd bm\<rparr>"

definition Pcb_init :: "pcb \<Rightarrow> nat \<Rightarrow> pcb option" where
  "Pcb_init p gid =
     do {
       ks \<leftarrow> kstack_vm_from_gid (of_nat gid);
       Some (p\<lparr>pr_state := Unused, pr_gid := gid, pr_kstack := ks, pr_pt := PageTable, pr_ofile := (\<lambda>_. None),
         pr_rlim := (pr_rlim p)(3 := (default_proc_ustack_pages * page_size, default_proc_ustack_pages * page_size)),
         pr_sigmask := 0, pr_vm := (\<lambda>i. if i < max_vma_num then (pr_vm p i)\<lparr>vma_used := False\<rparr> else pr_vm p i)\<rparr>)
     }"

fun init_pool :: "kern \<Rightarrow> nat list \<Rightarrow> kern option" where
  "init_pool k [] = Some k"
| "init_pool k (i # is) = do { p \<leftarrow> Pcb_init (k_pool k i) i; init_pool (upd k i (\<lambda>_. p)) is }"

definition pm_init :: "kern \<Rightarrow> kern option" where
  "pm_init k =
     do { k \<leftarrow> init_pool k [0..<pool_size]; Some (k\<lparr>k_cur_pid := 1, k_last_gid := pool_size - 1\<rparr>) }"

definition alloc_pid :: "kern \<Rightarrow> nat \<Rightarrow> kern" where
  "alloc_pid k i = (upd k i (\<lambda>p. p\<lparr>pr_pid := k_cur_pid k\<rparr>))\<lparr>k_cur_pid := k_cur_pid k + 1\<rparr>"

section \<open>Waking\<close>

definition wake_one :: "wchan \<Rightarrow> nat \<Rightarrow> kern \<Rightarrow> kern" where
  "wake_one ch i k =
     (if pr_state (k_pool k i) = Sleeping \<and> pr_chan (k_pool k i) = Some ch
      then upd k i (\<lambda>p. p\<lparr>pr_state := Runnable\<rparr>) else k)"

definition wakeup :: "kern \<Rightarrow> wchan \<Rightarrow> kern" where
  "wakeup k ch = fold (wake_one ch) [0..<pool_size] k"

definition sleep_on :: "kern \<Rightarrow> nat \<Rightarrow> wchan \<Rightarrow> kern" where
  "sleep_on k i ch = upd k i (\<lambda>p. p\<lparr>pr_chan := Some ch, pr_state := Sleeping\<rparr>)"

definition sleep_resume :: "kern \<Rightarrow> nat \<Rightarrow> kern" where
  "sleep_resume k i = upd k i (\<lambda>p. p\<lparr>pr_chan := None\<rparr>)"

section \<open>Files of a process\<close>

definition free_kfile :: "kern \<Rightarrow> nat \<Rightarrow> kern option" where
  "free_kfile k f =
     do {
       (st, woken) \<leftarrow> free_file (k_fs k) f;
       Some (fold (\<lambda>(p, c) k. wakeup k (Chan_pipe p c)) woken (k\<lparr>k_fs := st\<rparr>))
     }"

definition dup_kfile :: "kern \<Rightarrow> nat \<Rightarrow> kern option" where
  "dup_kfile k f = do { st \<leftarrow> dup_file (k_fs k) f; Some (k\<lparr>k_fs := st\<rparr>) }"

text \<open>The loop that closes every descriptor with a counted file; an uncounted one stays.\<close>

fun close_files :: "kern \<Rightarrow> nat \<Rightarrow> nat list \<Rightarrow> kern option" where
  "close_files k i [] = Some k"
| "close_files k i (fd # fds) =
     (case pr_ofile (k_pool k i) fd of
        None \<Rightarrow> close_files k i fds
      | Some f \<Rightarrow> do {
          x \<leftarrow> fs_files (k_fs k) f;
          if f_refcnt x > 0 then do {
            k \<leftarrow> free_kfile k f;
            close_files (upd k i (\<lambda>p. p\<lparr>pr_ofile := (pr_ofile p)(fd := None)\<rparr>)) i fds
          }
          else close_files k i fds
        })"

fun dup_files :: "kern \<Rightarrow> nat \<Rightarrow> nat \<Rightarrow> nat list \<Rightarrow> kern option" where
  "dup_files k i np [] = Some k"
| "dup_files k i np (fd # fds) =
     (case pr_ofile (k_pool k i) fd of
        None \<Rightarrow> dup_files k i np fds
      | Some f \<Rightarrow> do {
          k \<leftarrow> dup_kfile k f;
          dup_files (upd k np (\<lambda>p. p\<lparr>pr_ofile := (pr_ofile p)(fd := Some f)\<rparr>)) i np fds
        })"

section \<open>Release\<close>

definition k_unmap :: "kern \<Rightarrow> nat \<Rightarrow> u64 \<Rightarrow> u64 \<Rightarrow> bool \<Rightarrow> kern option" where
  "k_unmap k i va n do_free =
     do { bm \<leftarrow> vm_unmap (k_buddy k) (k_mem k) (pr_pt (k_pool k i)) va n do_free; Some (set_mm k bm) }"

fun unmap_sections :: "kern \<Rightarrow> nat \<Rightarrow> nat list \<Rightarrow> kern option" where
  "unmap_sections k i [] = Some k"
| "unmap_sections k i (j # js) =
     do {
       let (start, sz) = pr_secs (k_pool k i) j;
       let sec_start = page_round_down start;
       let sec_size = page_round_up (start + sz - sec_start);
       k \<leftarrow> k_unmap k i sec_start (sec_size div page_size) True;
       unmap_sections k i js
     }"

definition proc_free :: "kern \<Rightarrow> nat \<Rightarrow> kern option" where
  "proc_free k i = k_unmap k i TRAMPOLINE 1 False"

definition proc_init :: "kern \<Rightarrow> nat \<Rightarrow> kern option" where
  "proc_init k i =
     do {
       (_, bm) \<leftarrow> map_code_pages (k_buddy k) (k_mem k) (pr_pt (k_pool k i)) TRAMPOLINE page_size (k_tramp k) False;
       Some (set_mm k bm)
     }"

definition freeproc_vm :: "kern \<Rightarrow> nat \<Rightarrow> kern option" where
  "freeproc_vm k i =
     (if pt_is_null (pr_pt (k_pool k i)) then Some k
      else do {
        k \<leftarrow> unmap_sections k i [0..<pr_sec_cnt (k_pool k i)];
        let stackbase = vm_ustack_end - default_proc_ustack_pages * page_size;
        k \<leftarrow> k_unmap k i (stackbase - page_size) (default_proc_ustack_pages + 1) True;
        let p = k_pool k i;
        let heapsize = page_round_up (pr_heap_ptr p - pr_heap_start p);
        k \<leftarrow> k_unmap k i (pr_heap_start p) (heapsize div page_size) True;
        k \<leftarrow> proc_free k i;
        bm \<leftarrow> freewalk (k_buddy k) (k_mem k) (pr_pt (k_pool k i));
        Some (set_mm k bm)
      })"

definition reset_pcb :: "pcb \<Rightarrow> pcb" where
  "reset_pcb p = p\<lparr>pr_pt := set_base (pr_pt p) 0, pr_sec_cnt := 0, pr_sz := 0, pr_heap_ptr := 0, pr_pid := 0,
     pr_parent := None, pr_chan := None, pr_name := [], pr_killed := False, pr_xstate := 0, pr_state := Unused\<rparr>"

definition freeproc :: "kern \<Rightarrow> nat \<Rightarrow> kern option" where
  "freeproc k i =
     do {
       k \<leftarrow> k_unmap k i vm_trap_frame 1 True;
       let k = upd k i (\<lambda>p. p\<lparr>pr_trapframe := 0\<rparr>);
       k \<leftarrow> freeproc_vm k i;
       let k = upd k i reset_pcb;
       close_files k i [0..<max_open_files]
     }"

section \<open>Allocation\<close>

definition pool_order :: "kern \<Rightarrow> nat list" where
  "pool_order k = map (\<lambda>i. (k_last_gid k + i) mod pool_size) [0..<pool_size]"

definition proc_create_vm_with :: "kern \<Rightarrow> nat \<Rightarrow> pagetable \<Rightarrow> kern option" where
  "proc_create_vm_with k i pt =
     (if get_base pt = 0 then Some k
      else do {
        (ok, bm) \<leftarrow> map_data_pages (k_buddy k) (k_mem k) pt vm_trap_frame page_size (pr_trapframe (k_pool k i)) False;
        if \<not> ok then None
        else Some (upd (set_mm k bm) i (\<lambda>p. p\<lparr>pr_pt := pt\<rparr>))
      })"

definition proc_create_vm :: "kern \<Rightarrow> nat \<Rightarrow> kern option" where
  "proc_create_vm k i =
     do {
       (pt, bm) \<leftarrow> vm_create (k_buddy k) (k_mem k);
       let k = set_mm k bm;
       if get_base pt = 0 then Some k else proc_create_vm_with k i pt
     }"

definition new_context :: "kern \<Rightarrow> nat \<Rightarrow> kcontext" where
  "new_context k i =
     \<lparr>ctx_ra = k_fork_ret k,
      ctx_sp = pr_kstack (k_pool k i) + page_size * ucast default_proc_kstack_pages,
      ctx_saved = replicate 12 0\<rparr>"

definition claim_pcb :: "int \<Rightarrow> pcb \<Rightarrow> pcb" where
  "claim_pcb tgid p = p\<lparr>pr_state := Used, pr_slot := default_proc_slot, pr_priority := default_proc_prio,
     pr_uid := 0, pr_ggid := 0, pr_tid := pr_pid p, pr_tgid := tgid\<rparr>"

definition alloc_trapframe :: "kern \<Rightarrow> nat \<Rightarrow> kern option" where
  "alloc_trapframe k i =
     do {
       (tf, bm) \<leftarrow> k_alloc_page (k_buddy k) (k_mem k);
       Some (upd (set_mm k bm) i (\<lambda>p. p\<lparr>pr_trapframe := tf\<rparr>))
     }"

definition finish_alloc :: "kern \<Rightarrow> nat \<Rightarrow> kern" where
  "finish_alloc k i =
     (upd k i (\<lambda>p. p\<lparr>pr_mqmask := 0, pr_context := new_context k i\<rparr>))\<lparr>k_last_gid := pr_gid (k_pool k i)\<rparr>"

definition alloc_proc :: "kern \<Rightarrow> (nat option \<times> kern) option" where
  "alloc_proc k =
     (case find (\<lambda>i. pr_state (k_pool k i) = Unused) (pool_order k) of
        None \<Rightarrow> Some (None, k)
      | Some i \<Rightarrow> do {
          let k = alloc_pid k i;
          let k = upd k i (claim_pcb (pr_pid (k_pool k i)));
          k \<leftarrow> alloc_trapframe k i;
          if pr_trapframe (k_pool k i) = 0 then do { k \<leftarrow> freeproc k i; Some (None, k) }
          else do {
            k \<leftarrow> proc_create_vm k i;
            if get_base (pr_pt (k_pool k i)) = 0 then do { k \<leftarrow> freeproc k i; Some (None, k) }
            else Some (Some i, finish_alloc k i)
          }
        })"

text \<open>\<open>cur\<close> is the slot of the running process.\<close>

definition alloc_thread :: "kern \<Rightarrow> nat \<Rightarrow> (nat option \<times> kern) option" where
  "alloc_thread k cur =
     (case find (\<lambda>i. pr_state (k_pool k i) = Unused) (pool_order k) of
        None \<Rightarrow> Some (None, k)
      | Some i \<Rightarrow> do {
          let k = alloc_pid k i;
          let k = upd k i (claim_pcb (pr_pid (k_pool k cur)));
          k \<leftarrow> alloc_trapframe k i;
          if pr_trapframe (k_pool k i) = 0 then do { k \<leftarrow> freeproc k i; Some (None, k) }
          else Some (Some i, finish_alloc k i)
        })"

definition set_shm :: "kern \<Rightarrow> nat \<Rightarrow> kern" where
  "set_shm k i = upd k i (\<lambda>p. p\<lparr>pr_shm := vm_trap_frame - 64 * 2 * page_size, pr_shmkeymask := 0\<rparr>)"

section \<open>Copying a process\<close>

definition k_vm_copy :: "kern \<Rightarrow> nat \<Rightarrow> nat \<Rightarrow> u64 \<Rightarrow> u64 \<Rightarrow> (int \<times> kern) option" where
  "k_vm_copy k cur np start sz =
     do {
       (r, bm) \<leftarrow> vm_copy (k_buddy k) (k_mem k) (pr_pt (k_pool k cur)) (pr_pt (k_pool k np)) start sz;
       Some (r, set_mm k bm)
     }"

fun copy_sections :: "kern \<Rightarrow> nat \<Rightarrow> nat \<Rightarrow> nat list \<Rightarrow> (bool \<times> kern) option" where
  "copy_sections k cur np [] = Some (True, k)"
| "copy_sections k cur np (j # js) =
     do {
       let (start, sz) = pr_secs (k_pool k cur) j;
       let sec_start = page_round_down start;
       let sec_size = page_round_up (start + sz) - sec_start;
       (r, k) \<leftarrow> k_vm_copy k cur np sec_start sec_size;
       if r < 0 then Some (False, k)
       else copy_sections (upd k np (\<lambda>p. p\<lparr>pr_secs := (pr_secs p)(j := (start, sz)), pr_sec_cnt := Suc (pr_sec_cnt p)\<rparr>))
              cur np js
     }"

text \<open>The copied area keeps neither protection nor flags.\<close>

fun copy_vmas :: "kern \<Rightarrow> nat \<Rightarrow> nat \<Rightarrow> nat list \<Rightarrow> (bool \<times> kern) option" where
  "copy_vmas k cur np [] = Some (True, k)"
| "copy_vmas k cur np (i # is) =
     (let a = pr_vm (k_pool k cur) i
      in if vma_used a then do {
           (r, k) \<leftarrow> k_vm_copy k cur np (vma_address a) (word_of_int (vma_length a));
           if r < 0 then Some (False, k)
           else do {
             k \<leftarrow> (case vma_file a of None \<Rightarrow> Some k | Some f \<Rightarrow> dup_kfile k f);
             copy_vmas (upd k np (\<lambda>p. p\<lparr>pr_vm := (pr_vm p)(i := (pr_vm p i)\<lparr>vma_used := True, vma_address := vma_address a,
               vma_length := vma_length a, vma_file := vma_file a\<rparr>)\<rparr>)) cur np is
           }
         }
         else copy_vmas k cur np is)"

definition copy_trap_frame :: "mem \<Rightarrow> u64 \<Rightarrow> u64 \<Rightarrow> mem" where
  "copy_trap_frame m from_tf to_tf = store_bytes m to_tf (load_bytes m from_tf 288)"

definition set_trap_frame_return_value :: "mem \<Rightarrow> u64 \<Rightarrow> u64 \<Rightarrow> mem" where
  "set_trap_frame_return_value m tf v = st64 m (tf + 112) v"
definition set_trap_frame_user_sp :: "mem \<Rightarrow> u64 \<Rightarrow> u64 \<Rightarrow> mem" where
  "set_trap_frame_user_sp m tf v = st64 m (tf + 48) v"
definition set_trap_frame_user_tp :: "mem \<Rightarrow> u64 \<Rightarrow> u64 \<Rightarrow> mem" where
  "set_trap_frame_user_tp m tf v = st64 m (tf + 64) v"

text \<open>
  What \<^verbatim>\<open>fork\<close> and \<^verbatim>\<open>clone\<close> do once the address space is in place: registers with result 0 and
  the given stack, open files, working directory, name, parent, and the start of the clock.
\<close>

definition inherit_regs :: "kern \<Rightarrow> nat \<Rightarrow> nat \<Rightarrow> u64 \<Rightarrow> kern" where
  "inherit_regs k cur np usp =
     (let tf = pr_trapframe (k_pool k np);
          m = copy_trap_frame (k_mem k) (pr_trapframe (k_pool k cur)) tf;
          m = set_trap_frame_return_value m tf 0;
          m = (if usp \<noteq> 0 then set_trap_frame_user_sp m tf usp else m)
      in k\<lparr>k_mem := m\<rparr>)"

definition inherit_cwd :: "kern \<Rightarrow> nat \<Rightarrow> nat \<Rightarrow> kern option" where
  "inherit_cwd k cur np =
     do {
       let p = k_pool k cur;
       d \<leftarrow> pr_cwd p;
       let st = (k_fs k)\<lparr>fs_vfs := dup_dentry (fs_vfs (k_fs k)) d\<rparr>;
       Some (upd (k\<lparr>k_fs := st\<rparr>) np (\<lambda>q. q\<lparr>pr_cwd := Some d, pr_cwd_name := pr_cwd_name p, pr_name := pr_name p\<rparr>))
     }"

definition start_child :: "kern \<Rightarrow> nat \<Rightarrow> nat \<Rightarrow> kern" where
  "start_child k cur np =
     upd k np (\<lambda>p. p\<lparr>pr_parent := Some cur, pr_state := Runnable, pr_start_tick := k_ticks k, pr_user_ticks := 0\<rparr>)"

definition inherit :: "kern \<Rightarrow> nat \<Rightarrow> nat \<Rightarrow> u64 \<Rightarrow> (int \<times> kern) option" where
  "inherit k cur np usp =
     do {
       let k = inherit_regs k cur np usp;
       k \<leftarrow> dup_files k cur np [0..<max_open_files];
       k \<leftarrow> inherit_cwd k cur np;
       Some (pr_pid (k_pool k np), start_child k cur np)
     }"

definition fork_fail :: "kern \<Rightarrow> nat \<Rightarrow> int \<Rightarrow> (int \<times> kern) option" where
  "fork_fail k np r = do { k \<leftarrow> freeproc k np; Some (r, k) }"

definition fork :: "kern \<Rightarrow> nat \<Rightarrow> u64 \<Rightarrow> (int \<times> kern) option" where
  "fork k cur usp =
     do {
       (np, k) \<leftarrow> alloc_proc k;
       case np of
         None \<Rightarrow> Some (- 1, k)
       | Some np \<Rightarrow> do {
           (ok, k) \<leftarrow> copy_sections k cur np [0..<pr_sec_cnt (k_pool k cur)];
           if \<not> ok then fork_fail k np (- 1)
           else do {
             let p = k_pool k cur;
             (r, k) \<leftarrow> k_vm_copy k cur np (pr_heap_start p) (page_round_up (pr_heap_ptr p - pr_heap_start p));
             if r < 0 then fork_fail k np (- 2)
             else do {
               let k = upd k np (\<lambda>q. q\<lparr>pr_sz := pr_sz p, pr_heap_start := pr_heap_start p, pr_heap_ptr := pr_heap_ptr p\<rparr>);
               (r, k) \<leftarrow> k_vm_copy k cur np (vm_ustack_end - (1 + default_proc_ustack_pages) * page_size)
                          ((1 + default_proc_ustack_pages) * page_size);
               if r < 0 then fork_fail k np (- 3)
               else do {
                 (ok, k) \<leftarrow> copy_vmas k cur np [0..<max_vma_num];
                 if \<not> ok then fork_fail k np (- 3)
                 else do { k \<leftarrow> proc_init k np; inherit k cur np usp }
               }
             }
           }
         }
     }"

definition CLONE_VM :: u32 where "CLONE_VM = 0x100"
definition CLONE_THREAD :: u32 where "CLONE_THREAD = 0x10000"
definition CLONE_SETTLS :: u32 where "CLONE_SETTLS = 0x80000"
definition CLONE_PARENT_SETTID :: u32 where "CLONE_PARENT_SETTID = 0x100000"

fun share_vmas :: "kern \<Rightarrow> nat \<Rightarrow> nat \<Rightarrow> nat list \<Rightarrow> kern option" where
  "share_vmas k cur np [] = Some k"
| "share_vmas k cur np (i # is) =
     (let a = pr_vm (k_pool k cur) i
      in if vma_used a then do {
           k \<leftarrow> (case vma_file a of None \<Rightarrow> Some k | Some f \<Rightarrow> dup_kfile k f);
           share_vmas (upd k np (\<lambda>p. p\<lparr>pr_vm := (pr_vm p)(i := a)\<rparr>)) cur np is
         }
         else share_vmas k cur np is)"

text \<open>
  Copying an \<^verbatim>\<open>int\<close> of the kernel to user memory; \<open>loc\<close> is the kernel address at which
  it lies.
\<close>

definition copyout_int :: "kern \<Rightarrow> nat \<Rightarrow> u64 \<Rightarrow> u64 \<Rightarrow> int \<Rightarrow> (int \<times> kern) option" where
  "copyout_int k cur va loc v =
     do {
       (r, m) \<leftarrow> copyout (k_buddy k) (st32 (k_mem k) loc (word_of_int v)) (pr_pt (k_pool k cur)) va loc 4;
       Some (r, k\<lparr>k_mem := m\<rparr>)
     }"

definition clone_thread_finish ::
  "kern \<Rightarrow> nat \<Rightarrow> nat \<Rightarrow> u32 \<Rightarrow> u64 \<Rightarrow> u64 \<Rightarrow> u64 \<Rightarrow> int \<Rightarrow> (int \<times> kern) option" where
  "clone_thread_finish k cur np flags parent_tid tls loc pid =
     do {
       (r, k) \<leftarrow> (if flags AND CLONE_PARENT_SETTID \<noteq> 0 then copyout_int k cur parent_tid loc pid else Some (0, k));
       if r < 0 then Some (- 1, k)
       else if flags AND CLONE_SETTLS \<noteq> 0 \<and> tls \<noteq> 0
       then Some (pid, k\<lparr>k_mem := set_trap_frame_user_tp (k_mem k) (pr_trapframe (k_pool k np)) tls\<rparr>)
       else Some (pid, k)
     }"

definition clone :: "kern \<Rightarrow> nat \<Rightarrow> u32 \<Rightarrow> u64 \<Rightarrow> u64 \<Rightarrow> u64 \<Rightarrow> u64 \<Rightarrow> (int \<times> kern) option" where
  "clone k cur flags child_stack parent_tid tls loc =
     (if flags AND CLONE_THREAD \<noteq> 0 then do {
        (np, k) \<leftarrow> alloc_thread k cur;
        case np of
          None \<Rightarrow> Some (- 1, k)
        | Some np \<Rightarrow>
            if flags AND CLONE_VM = 0 then Some (- 1, k)
            else do {
              let p = k_pool k cur;
              let k = upd k np (\<lambda>q. q\<lparr>pr_pt := pr_pt p, pr_sec_cnt := pr_sec_cnt p,
                pr_secs := (\<lambda>j. if j < pr_sec_cnt p then pr_secs p j else pr_secs q j),
                pr_sz := pr_sz p, pr_heap_start := pr_heap_start p, pr_heap_ptr := pr_heap_ptr p\<rparr>);
              k \<leftarrow> share_vmas k cur np [0..<max_vma_num];
              (pid, k) \<leftarrow> inherit k cur np child_stack;
              clone_thread_finish k cur np flags parent_tid tls loc pid
            }
      }
      else fork k cur child_stack)"

text \<open>A slot number outside the pool is an access outside the array.\<close>

definition kill :: "kern \<Rightarrow> int \<Rightarrow> int \<Rightarrow> (int \<times> kern) option" where
  "kill k pid sig =
     (if sig = 0 then Some (0, k)
      else if sig = 15 then
        if 0 \<le> pid \<and> pid < int pool_size then Some (0, upd k (nat pid) (\<lambda>p. p\<lparr>pr_killed := True\<rparr>)) else None
      else Some (0, k))"

section \<open>Ending and waiting\<close>

definition reparent_one :: "nat \<Rightarrow> nat \<Rightarrow> kern \<Rightarrow> kern" where
  "reparent_one p i k =
     (if pr_parent (k_pool k i) = Some p then upd k i (\<lambda>q. q\<lparr>pr_parent := k_init k\<rparr>) else k)"

definition reparent :: "kern \<Rightarrow> nat \<Rightarrow> kern" where
  "reparent k p = fold (reparent_one p) (pool_order k) k"

text \<open>Pages of a shared writable mapping are written back to its file.\<close>

partial_function (option) write_back :: "kern \<Rightarrow> nat \<Rightarrow> nat \<Rightarrow> u64 \<Rightarrow> u64 \<Rightarrow> int \<Rightarrow> kern option" where
  "write_back k i f va va_end off =
     (if va < va_end then
        Option.bind (kwalk_addr (k_buddy k) (k_mem k) (pr_pt (k_pool k i)) va) (\<lambda>pa.
        Option.bind (fs_files (k_fs k) f) (\<lambda>x.
        Option.bind (file_write (k_fs k) (k_mem k) x (to_vir pa) page_size off True) (\<lambda>(_, x, st).
          write_back (k\<lparr>k_fs := set_file st f (Some x)\<rparr>) i f (va + page_size) va_end (off + 4096))))
      else Some k)"

definition MAP_SHARED :: u32 where "MAP_SHARED = 1"
definition PROT_WRITE :: u32 where "PROT_WRITE = 2"

definition drop_vma :: "kern \<Rightarrow> nat \<Rightarrow> nat \<Rightarrow> kern option" where
  "drop_vma k i j =
     do {
       let k = upd k i (\<lambda>p. p\<lparr>pr_vm := (pr_vm p)(j := (pr_vm p j)\<lparr>vma_used := False\<rparr>)\<rparr>);
       let a = pr_vm (k_pool k i) j;
       let va = vma_address a;
       let len = word_of_int (vma_length a);
       k \<leftarrow> (case vma_file a of
               Some f \<Rightarrow> if vma_flags a = MAP_SHARED \<and> vma_prot a AND PROT_WRITE \<noteq> 0
                          then write_back k i f va (va + len) 0 else Some k
             | None \<Rightarrow> Some k);
       k \<leftarrow> k_unmap k i (page_round_up va) (len div page_size) True;
       let k = upd k i (\<lambda>p. p\<lparr>pr_vm := (pr_vm p)(j := (pr_vm p j)\<lparr>vma_address := 0\<rparr>)\<rparr>);
       k \<leftarrow> (case vma_file a of Some f \<Rightarrow> free_kfile k f | None \<Rightarrow> Some k);
       Some (upd k i (\<lambda>p. p\<lparr>pr_vm := (pr_vm p)(j := (pr_vm p j)\<lparr>vma_file := None\<rparr>)\<rparr>))
     }"

fun drop_vmas :: "kern \<Rightarrow> nat \<Rightarrow> nat list \<Rightarrow> kern option" where
  "drop_vmas k i [] = Some k"
| "drop_vmas k i (j # js) =
     do {
       k \<leftarrow> (if vma_address (pr_vm (k_pool k i) j) \<noteq> 0 then drop_vma k i j else Some k);
       drop_vmas k i js
     }"

definition clear_tid :: "kern \<Rightarrow> nat \<Rightarrow> kern" where
  "clear_tid k i =
     (let a = pr_clear_child_tid (k_pool k i)
      in if a \<noteq> 0 then upd (k\<lparr>k_mem := store_bytes (k_mem k) a [0, 0, 0, 0]\<rparr>) i (\<lambda>p. p\<lparr>pr_clear_child_tid := 0\<rparr>) else k)"

text \<open>
  \<^verbatim>\<open>exit_proc\<close> up to the switch to the scheduler, from which it never returns. The status is
  shifted in an \<^verbatim>\<open>int\<close>.
\<close>

definition exit_proc :: "kern \<Rightarrow> nat \<Rightarrow> int \<Rightarrow> kern option" where
  "exit_proc k i status =
     (if k_init k = Some i then None
      else do {
        k \<leftarrow> close_files k i [0..<max_open_files];
        k \<leftarrow> drop_vmas k i [0..<max_vma_num];
        let k = reparent k i;
        let k = (case pr_parent (k_pool k i) of Some q \<Rightarrow> wakeup k (Chan_proc q) | None \<Rightarrow> k);
        let k = upd k i (\<lambda>p. p\<lparr>pr_xstate := signed_take_bit 31 (push_bit 8 status), pr_state := Zombie\<rparr>);
        Some (clear_tid k i)
      })"

text \<open>The chain of ancestors on the array of 42 pointers, up to a child of \<open>cp\<close> or a process without parent.\<close>

function ancestors :: "kern \<Rightarrow> nat \<Rightarrow> nat \<Rightarrow> nat list \<Rightarrow> (bool \<times> nat list) option" where
  "ancestors k cp p stk =
     (case pr_parent (k_pool k p) of
        None \<Rightarrow> Some (False, stk)
      | Some q \<Rightarrow> if q = cp then Some (True, stk)
                   else if pool_size + 10 \<le> length stk then None
                   else ancestors k cp q (q # stk))"
  by pat_completeness auto
termination by (relation "measure (\<lambda>(k, cp, p, stk). pool_size + 10 - length stk)") auto

declare ancestors.simps [simp del]

fun freeprocs :: "kern \<Rightarrow> nat list \<Rightarrow> kern option" where
  "freeprocs k [] = Some k"
| "freeprocs k (i # is) = do { k \<leftarrow> freeproc k i; freeprocs k is }"

fun exit_group_loop :: "kern \<Rightarrow> nat \<Rightarrow> nat set \<Rightarrow> nat list \<Rightarrow> kern option" where
  "exit_group_loop k cp visit [] = Some k"
| "exit_group_loop k cp visit (i # is) =
     (if pr_state (k_pool k i) = Unused \<or> i \<in> visit then exit_group_loop k cp visit is
      else do {
        (need, stk) \<leftarrow> ancestors k cp i [i];
        let visit = visit \<union> insert i ((\<lambda>q. pr_gid (k_pool k q)) ` set (butlast stk));
        k \<leftarrow> (if need then freeprocs k stk else Some k);
        exit_group_loop k cp visit is
      })"

definition exit_group :: "kern \<Rightarrow> nat \<Rightarrow> int \<Rightarrow> kern option" where
  "exit_group k cp status = do { k \<leftarrow> exit_group_loop k cp {} [0..<pool_size]; exit_proc k cp status }"

text \<open>One pass of \<^verbatim>\<open>wait\<close> over the pool: the value returned, if it returns, and whether there are children.\<close>

fun wait_scan :: "kern \<Rightarrow> nat \<Rightarrow> int \<Rightarrow> u64 \<Rightarrow> u64 \<Rightarrow> nat list \<Rightarrow> bool \<Rightarrow> (int option \<times> bool \<times> kern) option" where
  "wait_scan k cur child_pid addr loc [] havekids = Some (None, havekids, k)"
| "wait_scan k cur child_pid addr loc (np # nps) havekids =
     (if child_pid > 0 \<and> pr_pid (k_pool k np) \<noteq> child_pid then wait_scan k cur child_pid addr loc nps havekids
      else if pr_parent (k_pool k np) = Some cur then
        if pr_state (k_pool k np) = Zombie then do {
          let pid = pr_pid (k_pool k np);
          (r, k) \<leftarrow> (if addr \<noteq> 0 then copyout_int k cur addr loc (pr_xstate (k_pool k np)) else Some (0, k));
          if r < 0 then Some (Some (- 1), True, k)
          else do { k \<leftarrow> freeproc k np; Some (Some pid, True, k) }
        }
        else wait_scan k cur child_pid addr loc nps True
      else wait_scan k cur child_pid addr loc nps havekids)"

definition ECHILD :: int where "ECHILD = 10"

text \<open>A run of the loop: it returns a value, or the process sleeps on itself and runs again when woken.\<close>

definition wait_run :: "kern \<Rightarrow> nat \<Rightarrow> int \<Rightarrow> u64 \<Rightarrow> u64 \<Rightarrow> (int option \<times> kern) option" where
  "wait_run k cur child_pid addr loc =
     do {
       (r, havekids, k) \<leftarrow> wait_scan k cur child_pid addr loc [0..<pool_size] False;
       case r of
         Some v \<Rightarrow> Some (Some v, k)
       | None \<Rightarrow> if \<not> havekids \<or> pr_killed (k_pool k cur) then Some (Some (- ECHILD), k)
                  else Some (None, sleep_on k cur (Chan_proc cur))
     }"

definition wait_call :: "kern \<Rightarrow> nat \<Rightarrow> int \<Rightarrow> u64 \<Rightarrow> u64 \<Rightarrow> (int option \<times> kern) option" where
  "wait_call k cur child_pid addr loc =
     (if child_pid > 0 \<and> \<not> list_ex (\<lambda>i. pr_pid (k_pool k i) = child_pid \<and> pr_parent (k_pool k i) = Some cur) [0..<pool_size]
      then Some (Some (- 1), k)
      else wait_run k cur child_pid addr loc)"

section \<open>Scheduling\<close>

definition sche_proc :: "kern \<Rightarrow> nat \<Rightarrow> bool \<times> kern" where
  "sche_proc k i =
     (let k = upd k i (\<lambda>p. p\<lparr>pr_slot := pr_slot p - 1\<rparr>)
      in if pr_slot (k_pool k i) = 0
         then (True, upd k i (\<lambda>p. p\<lparr>pr_slot := default_proc_slot, pr_state := Runnable\<rparr>)) else (False, k))"

definition get_highest_proirity :: "kern \<Rightarrow> int" where
  "get_highest_proirity k =
     fold (\<lambda>i prio. if pr_priority (k_pool k i) < prio \<and> pr_state (k_pool k i) = Runnable
                    then pr_priority (k_pool k i) else prio) [0..<pool_size] lowest_proc_prio"

text \<open>
  The scheduler's loop from slot \<open>i\<close> on, with its flag and the priority it remembers, until it
  switches to a process or has passed the last slot. After a switch the flag is set again.
\<close>

function sched_scan :: "kern \<Rightarrow> nat \<Rightarrow> bool \<Rightarrow> int \<Rightarrow> (nat \<times> kern) option" where
  "sched_scan k i needed prio =
     (if i < pool_size then
        let prio = (if needed then get_highest_proirity k else prio)
        in if pr_state (k_pool k i) \<noteq> Runnable \<or> pr_priority (k_pool k i) > prio
           then sched_scan k (Suc i) False prio
           else Some (i, upd k i (\<lambda>p. p\<lparr>pr_state := Running\<rparr>))
      else None)"
  by pat_completeness auto
termination by (relation "measure (\<lambda>(k, i, needed, prio). pool_size - i)") auto

declare sched_scan.simps [simp del]

definition yield_proc :: "kern \<Rightarrow> nat \<Rightarrow> kern" where
  "yield_proc k i = upd k i (\<lambda>p. p\<lparr>pr_state := Runnable\<rparr>)"

end
