(* ===== verification/Process_Correct.thy ===== *)
theory Process_Correct
  imports Processes
begin

text \<open>
  Correctness of the process table: which operations touch which slots, the invariant of process
  numbers over all operations, and the behaviour of the scheduler, of waking, waiting, ending and copying.
\<close>

named_theorems view_intros

section \<open>Frames\<close>

lemma upd_pool [simp]: "k_pool (upd k i g) = (k_pool k)(i := g (k_pool k i))" by (simp add: upd_def)

lemma upd_fields [simp]:
  "k_cur_pid (upd k i g) = k_cur_pid k" "k_last_gid (upd k i g) = k_last_gid k" "k_init (upd k i g) = k_init k"
  "k_fs (upd k i g) = k_fs k" "k_mem (upd k i g) = k_mem k" "k_buddy (upd k i g) = k_buddy k"
  "k_fork_ret (upd k i g) = k_fork_ret k" "k_ticks (upd k i g) = k_ticks k"
  by (simp_all add: upd_def)

lemma set_mm_fields [simp]:
  "k_pool (set_mm k bm) = k_pool k" "k_cur_pid (set_mm k bm) = k_cur_pid k" "k_last_gid (set_mm k bm) = k_last_gid k"
  "k_init (set_mm k bm) = k_init k" "k_fs (set_mm k bm) = k_fs k" "k_fork_ret (set_mm k bm) = k_fork_ret k"
  by (simp_all add: set_mm_def)

text \<open>
  A relation between states that differ, in the slots outside \<open>S\<close>, only by waking sleepers. In the slots of
  \<open>S\<close> number, slot number and whether they are in use stay as they are. No slot starts to run.
\<close>

definition same_slot :: "pcb \<Rightarrow> pcb \<Rightarrow> bool" where
  "same_slot p q \<longleftrightarrow> pr_gid q = pr_gid p \<and> pr_pid q = pr_pid p \<and> (pr_state q = Unused \<longleftrightarrow> pr_state p = Unused) \<and>
     (pr_state q = Running \<longrightarrow> pr_state p = Running)"

definition woken :: "pcb \<Rightarrow> pcb \<Rightarrow> bool" where
  "woken p q \<longleftrightarrow> q = p \<or> pr_state p = Sleeping \<and> q = p\<lparr>pr_state := Runnable\<rparr>"

definition frame :: "nat set \<Rightarrow> kern \<Rightarrow> kern \<Rightarrow> bool" where
  "frame S k k' \<longleftrightarrow>
     k_cur_pid k' = k_cur_pid k \<and> k_last_gid k' = k_last_gid k \<and> k_init k' = k_init k \<and>
     (\<forall>i. same_slot (k_pool k i) (k_pool k' i)) \<and> (\<forall>i. i \<notin> S \<longrightarrow> woken (k_pool k i) (k_pool k' i))"

lemma same_slot_refl [simp]: "same_slot p p" by (simp add: same_slot_def)
lemma same_slot_trans: "same_slot p q \<Longrightarrow> same_slot q r \<Longrightarrow> same_slot p r" by (simp add: same_slot_def)
lemma woken_refl [simp]: "woken p p" by (simp add: woken_def)
lemma woken_trans: "woken p q \<Longrightarrow> woken q r \<Longrightarrow> woken p r" by (auto simp: woken_def)
lemma woken_same_slot: "woken p q \<Longrightarrow> same_slot p q" by (auto simp: woken_def same_slot_def)

lemma frame_refl [simp, intro]: "frame S k k" by (simp add: frame_def)

lemma frame_trans: "frame S k k' \<Longrightarrow> frame S k' k'' \<Longrightarrow> frame S k k''"
  unfolding frame_def by (auto intro: same_slot_trans woken_trans)

lemma frame_mono: "frame S k k' \<Longrightarrow> S \<subseteq> T \<Longrightarrow> frame T k k'"
  unfolding frame_def by auto

lemma frame_upd [view_intros]:
  "i \<in> S \<Longrightarrow> (same_slot (k_pool k i) (g (k_pool k i))) \<Longrightarrow> frame S k (upd k i g)"
  by (simp add: frame_def)

lemma frame_set_mm [view_intros]: "frame S k (set_mm k bm)" by (simp add: frame_def)

lemma frame_fs [view_intros]: "frame S k (k\<lparr>k_fs := st\<rparr>)" by (simp add: frame_def)

lemma frame_mem [view_intros]: "frame S k (k\<lparr>k_mem := m\<rparr>)" by (simp add: frame_def)

lemma frame_slot: "frame S k k' \<Longrightarrow> same_slot (k_pool k i) (k_pool k' i)"
  unfolding frame_def by blast

lemma frame_outside: "frame S k k' \<Longrightarrow> i \<notin> S \<Longrightarrow> woken (k_pool k i) (k_pool k' i)"
  unfolding frame_def by blast

section \<open>Waking\<close>

lemma wake_one_pool:
  "k_pool (wake_one ch j k) i =
     (if i = j \<and> pr_state (k_pool k i) = Sleeping \<and> pr_chan (k_pool k i) = Some ch
      then (k_pool k i)\<lparr>pr_state := Runnable\<rparr> else k_pool k i)"
  by (simp add: wake_one_def)

lemma fold_wake:
  "k_pool (fold (wake_one ch) is k) i =
     (if i \<in> set is \<and> pr_state (k_pool k i) = Sleeping \<and> pr_chan (k_pool k i) = Some ch
      then (k_pool k i)\<lparr>pr_state := Runnable\<rparr> else k_pool k i)"
  by (induction "is" arbitrary: k) (auto simp: wake_one_pool)

lemma wakeup_pool:
  "k_pool (wakeup k ch) =
     (\<lambda>i. if i < pool_size \<and> pr_state (k_pool k i) = Sleeping \<and> pr_chan (k_pool k i) = Some ch
          then (k_pool k i)\<lparr>pr_state := Runnable\<rparr> else k_pool k i)"
  by (rule ext) (simp add: wakeup_def fold_wake)

lemma fold_wake_fields:
  "k_cur_pid (fold (wake_one ch) is k) = k_cur_pid k \<and> k_last_gid (fold (wake_one ch) is k) = k_last_gid k \<and>
   k_init (fold (wake_one ch) is k) = k_init k \<and> k_fs (fold (wake_one ch) is k) = k_fs k \<and>
   k_mem (fold (wake_one ch) is k) = k_mem k \<and> k_buddy (fold (wake_one ch) is k) = k_buddy k"
  by (induction "is" arbitrary: k) (simp_all, simp_all add: wake_one_def)

lemma wakeup_fields [simp]:
  "k_cur_pid (wakeup k ch) = k_cur_pid k" "k_last_gid (wakeup k ch) = k_last_gid k" "k_init (wakeup k ch) = k_init k"
  "k_fs (wakeup k ch) = k_fs k" "k_mem (wakeup k ch) = k_mem k" "k_buddy (wakeup k ch) = k_buddy k"
  by (simp_all add: wakeup_def fold_wake_fields)

lemma frame_wakeup [view_intros]: "frame S k (wakeup k ch)"
  by (auto simp: frame_def wakeup_pool woken_def same_slot_def)

lemma frame_wakeups: "frame S k (fold (\<lambda>(p, c) k. wakeup k (Chan_pipe p c)) ws k)"
proof (induction ws arbitrary: k)
  case (Cons w ws)
  show ?case using frame_trans [OF frame_wakeup Cons] by (cases w) simp
qed simp

lemma frame_free_kfile: "free_kfile k f = Some k' \<Longrightarrow> frame S k k'"
  unfolding free_kfile_def
  by (auto simp: bind_eq_Some_conv intro: frame_trans [OF frame_fs frame_wakeups])

lemma frame_dup_kfile: "dup_kfile k f = Some k' \<Longrightarrow> frame S k k' \<and> k_pool k' = k_pool k"
  unfolding dup_kfile_def by (auto simp: bind_eq_Some_conv frame_fs)

section \<open>Frames of the operations\<close>

lemma frame_close_files: "close_files k i fds = Some k' \<Longrightarrow> i \<in> S \<Longrightarrow> frame S k k'"
proof (induction k i fds arbitrary: k' rule: close_files.induct)
  case (2 k i fd fds)
  show ?case
  proof (cases "pr_ofile (k_pool k i) fd")
    case None
    then show ?thesis using 2 by simp
  next
    case (Some f)
    then obtain x where x: "fs_files (k_fs k) f = Some x" using 2 by (auto simp: bind_eq_Some_conv)
    show ?thesis
    proof (cases "f_refcnt x > 0")
      case True
      then obtain k1 where k1: "free_kfile k f = Some k1"
        and r: "close_files (upd k1 i (\<lambda>p. p\<lparr>pr_ofile := (pr_ofile p)(fd := None)\<rparr>)) i fds = Some k'"
        using 2 Some x by (auto simp: bind_eq_Some_conv)
      have "frame S k1 (upd k1 i (\<lambda>p. p\<lparr>pr_ofile := (pr_ofile p)(fd := None)\<rparr>))"
        using 2 by (intro frame_upd) (auto simp: same_slot_def)
      then show ?thesis using frame_trans [OF frame_free_kfile [OF k1]] frame_trans 2(2) [OF Some x True k1 r 2(5)] by blast
    next
      case False
      then show ?thesis using 2 Some x by auto
    qed
  qed
qed auto

lemma frame_dup_files: "dup_files k i np fds = Some k' \<Longrightarrow> np \<in> S \<Longrightarrow> frame S k k'"
proof (induction k i np fds arbitrary: k' rule: dup_files.induct)
  case (2 k i np fd fds)
  show ?case
  proof (cases "pr_ofile (k_pool k i) fd")
    case None
    then show ?thesis using 2 by simp
  next
    case (Some f)
    then obtain k1 where k1: "dup_kfile k f = Some k1"
      and r: "dup_files (upd k1 np (\<lambda>p. p\<lparr>pr_ofile := (pr_ofile p)(fd := Some f)\<rparr>)) i np fds = Some k'"
      using 2 by (auto simp: bind_eq_Some_conv)
    have "frame S k1 (upd k1 np (\<lambda>p. p\<lparr>pr_ofile := (pr_ofile p)(fd := Some f)\<rparr>))"
      using 2 by (intro frame_upd) (auto simp: same_slot_def)
    then show ?thesis
      using frame_trans frame_dup_kfile [OF k1] 2(2) [OF Some k1 r 2(4)] by blast
  qed
qed auto

text \<open>Operations on address spaces change the allocator and memory only.\<close>

definition mm_only :: "kern \<Rightarrow> kern \<Rightarrow> bool" where "mm_only k k' \<longleftrightarrow> (\<exists>bm. k' = set_mm k bm)"

lemma mm_only_refl [intro]: "mm_only k k"
  unfolding mm_only_def by (rule exI [of _ "(k_buddy k, k_mem k)"]) (simp add: set_mm_def)

lemma mm_only_set [intro]: "mm_only k (set_mm k bm)" unfolding mm_only_def by blast

lemma mm_only_trans: "mm_only k k' \<Longrightarrow> mm_only k' k'' \<Longrightarrow> mm_only k k''"
  unfolding mm_only_def set_mm_def by force

lemma mm_only_pool: "mm_only k k' \<Longrightarrow> k_pool k' = k_pool k" by (auto simp: mm_only_def)

lemma frame_mm_only: "mm_only k k' \<Longrightarrow> frame S k k'" by (auto simp: mm_only_def frame_set_mm)

lemma mm_only_unmap: "k_unmap k i va n d = Some k' \<Longrightarrow> mm_only k k'"
  by (auto simp: k_unmap_def bind_eq_Some_conv)

lemma mm_only_sections: "unmap_sections k i js = Some k' \<Longrightarrow> mm_only k k'"
proof (induction k i js arbitrary: k' rule: unmap_sections.induct)
  case (2 k i j js)
  then show ?case
    by (auto simp: bind_eq_Some_conv Let_def split: prod.splits) (blast intro: mm_only_trans mm_only_unmap)
qed auto

lemma mm_only_proc_free: "proc_free k i = Some k' \<Longrightarrow> mm_only k k'"
  by (auto simp: proc_free_def intro: mm_only_unmap)

lemma mm_only_proc_init: "proc_init k i = Some k' \<Longrightarrow> mm_only k k'"
  by (auto simp: proc_init_def bind_eq_Some_conv)

lemma mm_only_freeproc_vm: "freeproc_vm k i = Some k' \<Longrightarrow> mm_only k k'"
  by (auto simp: freeproc_vm_def bind_eq_Some_conv Let_def split: if_splits
      dest!: mm_only_sections mm_only_unmap mm_only_proc_free) (blast intro: mm_only_trans mm_only_set)

lemma mm_only_vm_copy: "k_vm_copy k cur np st sz = Some (r, k') \<Longrightarrow> mm_only k k'"
  by (auto simp: k_vm_copy_def bind_eq_Some_conv)

text \<open>Releasing a slot leaves it unused and numberless.\<close>

definition vacate :: "pcb \<Rightarrow> pcb" where "vacate p = p\<lparr>pr_state := Unused, pr_pid := 0\<rparr>"

lemma freeproc_steps:
  assumes "freeproc k i = Some k'"
  obtains k1 k2 where "mm_only k k1" "mm_only (upd k1 i (\<lambda>p. p\<lparr>pr_trapframe := 0\<rparr>)) k2"
    "close_files (upd k2 i reset_pcb) i [0..<max_open_files] = Some k'"
  using assms unfolding freeproc_def
  by (auto simp: bind_eq_Some_conv Let_def dest!: mm_only_unmap mm_only_freeproc_vm)

lemma freeproc_frame:
  assumes "freeproc k i = Some k'"
  shows "frame {i} (upd k i vacate) k'"
proof -
  obtain k1 k2 where s: "mm_only k k1" "mm_only (upd k1 i (\<lambda>p. p\<lparr>pr_trapframe := 0\<rparr>)) k2"
    "close_files (upd k2 i reset_pcb) i [0..<max_open_files] = Some k'" using assms by (rule freeproc_steps)
  have "frame {i} (upd k i vacate) (upd k2 i reset_pcb)"
    using s(1,2) by (auto simp: mm_only_def frame_def vacate_def reset_pcb_def same_slot_def)
  then show ?thesis using frame_close_files [OF s(3)] by (blast intro: frame_trans)
qed

section \<open>The invariant\<close>

text \<open>
  Slots know their number; exactly the slots in use have a process number, which is positive, below
  the next number to be given out, and no other slot's. At most one process runs.
\<close>

definition pool_ok :: "kern \<Rightarrow> bool" where
  "pool_ok k \<longleftrightarrow>
     0 < k_cur_pid k \<and> k_last_gid k < pool_size \<and>
     (\<forall>i < pool_size. pr_gid (k_pool k i) = i \<and>
        (if pr_state (k_pool k i) = Unused then pr_pid (k_pool k i) = 0
         else 0 < pr_pid (k_pool k i) \<and> pr_pid (k_pool k i) < k_cur_pid k)) \<and>
     (\<forall>i < pool_size. \<forall>j < pool_size. i \<noteq> j \<longrightarrow> pr_state (k_pool k i) \<noteq> Unused \<longrightarrow> pr_pid (k_pool k i) \<noteq> pr_pid (k_pool k j)) \<and>
     (\<forall>i < pool_size. \<forall>j < pool_size. pr_state (k_pool k i) = Running \<longrightarrow> pr_state (k_pool k j) = Running \<longrightarrow> i = j)"

lemma pool_ok_frame:
  assumes ok: "pool_ok k" and f: "frame S k k'"
  shows "pool_ok k'"
proof -
  have s: "pr_gid (k_pool k' i) = pr_gid (k_pool k i)" "pr_pid (k_pool k' i) = pr_pid (k_pool k i)"
    "pr_state (k_pool k' i) = Unused \<longleftrightarrow> pr_state (k_pool k i) = Unused" for i
    using frame_slot [OF f, of i] by (simp_all add: same_slot_def)
  have r: "pr_state (k_pool k' i) = Running \<Longrightarrow> pr_state (k_pool k i) = Running" for i
    using frame_slot [OF f, of i] by (simp add: same_slot_def)
  have "k_cur_pid k' = k_cur_pid k" "k_last_gid k' = k_last_gid k" using f by (simp_all add: frame_def)
  then show ?thesis using ok r unfolding pool_ok_def s by simp
qed

lemma pool_ok_vacate: "pool_ok k \<Longrightarrow> pool_ok (upd k i vacate)"
  unfolding pool_ok_def vacate_def by (auto split: if_splits)

lemma pool_ok_freeproc: "pool_ok k \<Longrightarrow> freeproc k i = Some k' \<Longrightarrow> pool_ok k'"
  by (blast intro: pool_ok_frame pool_ok_vacate freeproc_frame)

lemma pool_ok_freeprocs: "pool_ok k \<Longrightarrow> freeprocs k is = Some k' \<Longrightarrow> pool_ok k'"
  by (induction k "is" arbitrary: k' rule: freeprocs.induct) (auto simp: bind_eq_Some_conv intro: pool_ok_freeproc)


section \<open>Allocation\<close>

text \<open>The slot \<open>i\<close> handed out with the next process number.\<close>

definition hand_out :: "kern \<Rightarrow> nat \<Rightarrow> kern" where
  "hand_out k i =
     (upd k i (\<lambda>p. p\<lparr>pr_state := Used, pr_pid := k_cur_pid k\<rparr>))\<lparr>k_cur_pid := k_cur_pid k + 1, k_last_gid := pr_gid (k_pool k i)\<rparr>"

definition take_back :: "kern \<Rightarrow> nat \<Rightarrow> kern" where
  "take_back k i = (upd k i vacate)\<lparr>k_cur_pid := k_cur_pid k + 1\<rparr>"

lemma pool_ok_hand_out: "pool_ok k \<Longrightarrow> i < pool_size \<Longrightarrow> pool_ok (hand_out k i)"
  unfolding pool_ok_def hand_out_def by (auto split: if_splits; fastforce split: if_splits)

lemma pool_ok_take_back: "pool_ok k \<Longrightarrow> pool_ok (take_back k i)"
  unfolding pool_ok_def take_back_def vacate_def by (auto split: if_splits; fastforce split: if_splits)

lemma pool_order_set: "i \<in> set (pool_order k) \<Longrightarrow> i < pool_size"
  by (auto simp: pool_order_def pool_size_def)

lemma find_pool:
  assumes "find (\<lambda>i. pr_state (k_pool k i) = Unused) (pool_order k) = Some i"
  shows "i < pool_size" and "pr_state (k_pool k i) = Unused"
  using assms pool_order_set by (auto simp: find_Some_iff in_set_conv_nth)

text \<open>What a fresh slot looks like, whether for a process or for a thread.\<close>

definition fresh_slot :: "kern \<Rightarrow> nat \<Rightarrow> int \<Rightarrow> kern \<Rightarrow> bool" where
  "fresh_slot k i tgid k' \<longleftrightarrow>
     frame {i} (hand_out k i) k' \<and> (\<forall>j. j \<noteq> i \<longrightarrow> k_pool k' j = k_pool k j) \<and>
     (let p = k_pool k' i in
        pr_state p = Used \<and> pr_pid p = k_cur_pid k \<and> pr_tid p = k_cur_pid k \<and> pr_tgid p = tgid \<and> pr_uid p = 0 \<and>
        pr_priority p = default_proc_prio \<and> pr_slot p = default_proc_slot \<and> pr_trapframe p \<noteq> 0 \<and>
        pr_ofile p = pr_ofile (k_pool k i) \<and> pr_sec_cnt p = pr_sec_cnt (k_pool k i) \<and> pr_vm p = pr_vm (k_pool k i) \<and>
        ctx_ra (pr_context p) = k_fork_ret k' \<and>
        ctx_sp (pr_context p) = pr_kstack (k_pool k i) + page_size * ucast default_proc_kstack_pages)"

lemma proc_create_vm_frame:
  assumes "proc_create_vm k i = Some k'"
  obtains pt where "k_pool k' = (k_pool k)(i := (k_pool k i)\<lparr>pr_pt := pt\<rparr>)" "k_fork_ret k' = k_fork_ret k"
    "k_cur_pid k' = k_cur_pid k" "k_last_gid k' = k_last_gid k" "k_init k' = k_init k"
proof -
  obtain pt bm where v: "vm_create (k_buddy k) (k_mem k) = Some (pt, bm)"
    using assms by (auto simp: proc_create_vm_def bind_eq_Some_conv)
  show ?thesis
  proof (cases "get_base pt = 0")
    case True
    then have "k' = set_mm k bm" using assms v by (simp add: proc_create_vm_def)
    then show ?thesis using that [of "pr_pt (k_pool k i)"] by (simp add: set_mm_def)
  next
    case False
    then obtain bm' where "k' = upd (set_mm (set_mm k bm) bm') i (\<lambda>p. p\<lparr>pr_pt := pt\<rparr>)"
      using assms v by (auto simp: proc_create_vm_def proc_create_vm_with_def bind_eq_Some_conv Let_def split: if_splits)
    then show ?thesis using that [of pt] by (simp add: set_mm_def upd_def)
  qed
qed

lemma alloc_trapframe_frame:
  assumes "alloc_trapframe k i = Some k'"
  obtains tf where "k_pool k' = (k_pool k)(i := (k_pool k i)\<lparr>pr_trapframe := tf\<rparr>)" "k_fork_ret k' = k_fork_ret k"
    "k_cur_pid k' = k_cur_pid k" "k_last_gid k' = k_last_gid k" "k_init k' = k_init k"
  using assms that by (auto simp: alloc_trapframe_def bind_eq_Some_conv set_mm_def upd_def)

lemma alloc_failed:
  assumes "freeproc k2 i = Some k'" and "k_pool k2 = (k_pool k)(i := q)" and "pr_gid q = pr_gid (k_pool k i)"
    and "k_cur_pid k2 = k_cur_pid k + 1" and "k_last_gid k2 = k_last_gid k" and "k_init k2 = k_init k"
  shows "frame {i} (take_back k i) k'"
proof -
  have "frame {i} (take_back k i) (upd k2 i vacate)"
    using assms(2-) by (auto simp: frame_def take_back_def vacate_def same_slot_def)
  then show ?thesis using freeproc_frame [OF assms(1)] by (rule frame_trans)
qed

lemma alloc_proc_cases:
  assumes "alloc_proc k = Some (r, k')"
  shows "(r = None \<and> k' = k) \<or> (\<exists>i < pool_size. r = None \<and> pr_state (k_pool k i) = Unused \<and> frame {i} (take_back k i) k') \<or>
    (\<exists>i < pool_size. r = Some i \<and> pr_state (k_pool k i) = Unused \<and> fresh_slot k i (k_cur_pid k) k' \<and>
       get_base (pr_pt (k_pool k' i)) \<noteq> 0)"
proof (cases "find (\<lambda>i. pr_state (k_pool k i) = Unused) (pool_order k)")
  case None
  then show ?thesis using assms by (simp add: alloc_proc_def)
next
  case (Some i)
  note i = find_pool [OF Some]
  let ?k = "upd (alloc_pid k i) i (claim_pcb (pr_pid (k_pool (alloc_pid k i) i)))"
  obtain k1 where k1: "alloc_trapframe ?k i = Some k1"
    using assms Some by (auto simp: alloc_proc_def bind_eq_Some_conv Let_def)
  obtain tf where t: "k_pool k1 = (k_pool ?k)(i := (k_pool ?k i)\<lparr>pr_trapframe := tf\<rparr>)" "k_fork_ret k1 = k_fork_ret ?k"
    "k_cur_pid k1 = k_cur_pid ?k" "k_last_gid k1 = k_last_gid ?k" "k_init k1 = k_init ?k"
    using k1 by (rule alloc_trapframe_frame)
  note t' = t [unfolded alloc_pid_def claim_pcb_def, simplified]
  show ?thesis
  proof (cases "pr_trapframe (k_pool k1 i) = 0")
    case True
    then have fp: "freeproc k1 i = Some k'" and rn: "r = None"
      using assms Some k1 by (auto simp: alloc_proc_def bind_eq_Some_conv Let_def)
    have "frame {i} (take_back k i) k'"
      using t' by (intro alloc_failed [OF fp, of _ "k_pool k1 i"]) auto
    then show ?thesis using i rn by blast
  next
    case False
    then obtain k2 where k2: "proc_create_vm k1 i = Some k2"
      using assms Some k1 by (auto simp: alloc_proc_def bind_eq_Some_conv Let_def)
    obtain pt where v: "k_pool k2 = (k_pool k1)(i := (k_pool k1 i)\<lparr>pr_pt := pt\<rparr>)" "k_fork_ret k2 = k_fork_ret k1"
      "k_cur_pid k2 = k_cur_pid k1" "k_last_gid k2 = k_last_gid k1" "k_init k2 = k_init k1"
      using k2 by (rule proc_create_vm_frame)
    show ?thesis
    proof (cases "get_base (pr_pt (k_pool k2 i)) = 0")
      case zero: True
      then have fp: "freeproc k2 i = Some k'" and rn: "r = None"
        using assms Some k1 k2 False by (auto simp: alloc_proc_def bind_eq_Some_conv Let_def)
      have "frame {i} (take_back k i) k'"
        using t' v by (intro alloc_failed [OF fp, of _ "k_pool k2 i"]) auto
      then show ?thesis using i rn by blast
    next
      case ok: False
      then have r: "r = Some i" "k' = finish_alloc k2 i"
        using assms Some k1 k2 False by (auto simp: alloc_proc_def bind_eq_Some_conv Let_def)
      have "fresh_slot k i (k_cur_pid k) k'"
        using t' v False unfolding r fresh_slot_def finish_alloc_def hand_out_def frame_def new_context_def
        by (auto simp: same_slot_def Let_def)
      then show ?thesis using i r ok by (simp add: finish_alloc_def)
    qed
  qed
qed

lemma alloc_thread_cases:
  assumes "alloc_thread k cur = Some (r, k')"
  shows "(r = None \<and> k' = k) \<or> (\<exists>i < pool_size. r = None \<and> pr_state (k_pool k i) = Unused \<and> frame {i} (take_back k i) k') \<or>
    (\<exists>i < pool_size. r = Some i \<and> pr_state (k_pool k i) = Unused \<and>
       fresh_slot k i (if i = cur then k_cur_pid k else pr_pid (k_pool k cur)) k')"
proof (cases "find (\<lambda>i. pr_state (k_pool k i) = Unused) (pool_order k)")
  case None
  then show ?thesis using assms by (simp add: alloc_thread_def)
next
  case (Some i)
  note i = find_pool [OF Some]
  let ?k = "upd (alloc_pid k i) i (claim_pcb (pr_pid (k_pool (alloc_pid k i) cur)))"
  obtain k1 where k1: "alloc_trapframe ?k i = Some k1"
    using assms Some by (auto simp: alloc_thread_def bind_eq_Some_conv Let_def)
  obtain tf where t: "k_pool k1 = (k_pool ?k)(i := (k_pool ?k i)\<lparr>pr_trapframe := tf\<rparr>)" "k_fork_ret k1 = k_fork_ret ?k"
    "k_cur_pid k1 = k_cur_pid ?k" "k_last_gid k1 = k_last_gid ?k" "k_init k1 = k_init ?k"
    using k1 by (rule alloc_trapframe_frame)
  note t' = t [unfolded alloc_pid_def claim_pcb_def, simplified]
  show ?thesis
  proof (cases "pr_trapframe (k_pool k1 i) = 0")
    case True
    then have fp: "freeproc k1 i = Some k'" and rn: "r = None"
      using assms Some k1 by (auto simp: alloc_thread_def bind_eq_Some_conv Let_def)
    have "frame {i} (take_back k i) k'"
      using t' by (intro alloc_failed [OF fp, of _ "k_pool k1 i"]) auto
    then show ?thesis using i rn by blast
  next
    case False
    then have r: "r = Some i" "k' = finish_alloc k1 i"
      using assms Some k1 by (auto simp: alloc_thread_def bind_eq_Some_conv Let_def)
    have "fresh_slot k i (if i = cur then k_cur_pid k else pr_pid (k_pool k cur)) k'"
      using t' False unfolding r fresh_slot_def finish_alloc_def hand_out_def frame_def new_context_def
      by (auto simp: same_slot_def Let_def)
    then show ?thesis using i r by simp
  qed
qed

section \<open>Copying\<close>

lemma frame_copy_sections: "copy_sections k cur np js = Some (b, k') \<Longrightarrow> frame {np} k k'"
proof (induction k cur np js arbitrary: k' rule: copy_sections.induct)
  case (2 k cur np j js)
  obtain st sz where s: "pr_secs (k_pool k cur) j = (st, sz)" by (cases "pr_secs (k_pool k cur) j")
  let ?a = "page_round_down st" and ?n = "page_round_up (st + sz) - page_round_down st"
  obtain r k1 where c: "k_vm_copy k cur np ?a ?n = Some (r, k1)"
    using 2(2) s by (auto simp: bind_eq_Some_conv Let_def)
  have f: "frame {np} k k1" using mm_only_vm_copy [OF c] by (rule frame_mm_only)
  show ?case
  proof (cases "r < 0")
    case True
    then show ?thesis using 2(2) s c f by (simp add: Let_def)
  next
    case False
    let ?k = "upd k1 np (\<lambda>p. p\<lparr>pr_secs := (pr_secs p)(j := (st, sz)), pr_sec_cnt := Suc (pr_sec_cnt p)\<rparr>)"
    have "frame {np} k1 ?k" by (rule frame_upd) (auto simp: same_slot_def)
    moreover have "frame {np} ?k k'"
      using 2(1) [OF refl s [symmetric] refl refl c refl False] 2(2) s c False by (simp add: Let_def)
    ultimately show ?thesis using f by (blast intro: frame_trans)
  qed
qed auto

lemma frame_dup_vfile: "(case fo of None \<Rightarrow> Some k | Some f \<Rightarrow> dup_kfile k f) = Some k' \<Longrightarrow> frame S k k' \<and> k_pool k' = k_pool k"
  by (auto split: option.splits dest: frame_dup_kfile)

lemma frame_copy_vmas: "copy_vmas k cur np is = Some (b, k') \<Longrightarrow> frame {np} k k'"
proof (induction k cur np "is" arbitrary: k' rule: copy_vmas.induct)
  case (2 k cur np i "is")
  let ?a = "pr_vm (k_pool k cur) i"
  show ?case
  proof (cases "vma_used ?a")
    case False
    then show ?thesis using 2(2) [OF refl] 2(3) by (simp add: Let_def)
  next
    case True
    obtain r k1 where c: "k_vm_copy k cur np (vma_address ?a) (word_of_int (vma_length ?a)) = Some (r, k1)"
      using 2(3) True by (auto simp: bind_eq_Some_conv Let_def)
    have f: "frame {np} k k1" using mm_only_vm_copy [OF c] by (rule frame_mm_only)
    show ?thesis
    proof (cases "r < 0")
      case True
      then show ?thesis using 2(3) \<open>vma_used ?a\<close> c f by (simp add: Let_def)
    next
      case neg: False
      obtain k2 where d: "(case vma_file ?a of None \<Rightarrow> Some k1 | Some f \<Rightarrow> dup_kfile k1 f) = Some k2"
        using 2(3) True c neg by (auto simp: bind_eq_Some_conv Let_def)
      let ?k = "upd k2 np (\<lambda>p. p\<lparr>pr_vm := (pr_vm p)(i := (pr_vm p i)\<lparr>vma_used := True, vma_address := vma_address ?a,
               vma_length := vma_length ?a, vma_file := vma_file ?a\<rparr>)\<rparr>)"
      have "frame {np} k2 ?k" by (rule frame_upd) (auto simp: same_slot_def)
      moreover have "frame {np} ?k k'" using 2(1) [OF refl True c refl neg d] 2(3) True c neg d by (simp add: Let_def)
      ultimately show ?thesis using f frame_dup_vfile [OF d] by (blast intro: frame_trans)
    qed
  qed
qed auto

lemma frame_share_vmas: "share_vmas k cur np is = Some k' \<Longrightarrow> frame {np} k k'"
proof (induction k cur np "is" arbitrary: k' rule: share_vmas.induct)
  case (2 k cur np i "is")
  let ?a = "pr_vm (k_pool k cur) i"
  show ?case
  proof (cases "vma_used ?a")
    case False
    then show ?thesis using 2 by (simp add: Let_def)
  next
    case True
    obtain k2 where d: "(case vma_file ?a of None \<Rightarrow> Some k | Some f \<Rightarrow> dup_kfile k f) = Some k2"
      using 2(3) True by (auto simp: bind_eq_Some_conv Let_def)
    have "frame {np} k2 (upd k2 np (\<lambda>p. p\<lparr>pr_vm := (pr_vm p)(i := ?a)\<rparr>))" by (rule frame_upd) (auto simp: same_slot_def)
    moreover have "frame {np} (upd k2 np (\<lambda>p. p\<lparr>pr_vm := (pr_vm p)(i := ?a)\<rparr>)) k'"
      using 2(1) [OF refl True d] 2(3) True d by (simp add: Let_def)
    ultimately show ?thesis using frame_dup_vfile [OF d] by (blast intro: frame_trans)
  qed
qed auto

lemma inherit_steps:
  assumes "inherit k cur np usp = Some (r, k')"
  obtains k1 k2 where "dup_files (inherit_regs k cur np usp) cur np [0..<max_open_files] = Some k1"
    "inherit_cwd k1 cur np = Some k2" "r = pr_pid (k_pool k2 np)" "k' = start_child k2 cur np"
  using assms by (auto simp: inherit_def bind_eq_Some_conv Let_def)

lemma inherit_regs_pool [simp]: "k_pool (inherit_regs k cur np usp) = k_pool k" by (simp add: inherit_regs_def Let_def)

lemma frame_inherit_regs: "frame S k (inherit_regs k cur np usp)" by (simp add: inherit_regs_def Let_def frame_mem)

lemma inherit_cwd_pool:
  assumes "inherit_cwd k cur np = Some k'"
  obtains d where "pr_cwd (k_pool k cur) = Some d" "frame {np} k k'"
    "k_pool k' = (k_pool k)(np := (k_pool k np)\<lparr>pr_cwd := Some d, pr_cwd_name := pr_cwd_name (k_pool k cur), pr_name := pr_name (k_pool k cur)\<rparr>)"
proof -
  obtain d where d: "pr_cwd (k_pool k cur) = Some d" and k': "k' = upd (k\<lparr>k_fs := (k_fs k)\<lparr>fs_vfs := dup_dentry (fs_vfs (k_fs k)) d\<rparr>\<rparr>) np
      (\<lambda>q. q\<lparr>pr_cwd := Some d, pr_cwd_name := pr_cwd_name (k_pool k cur), pr_name := pr_name (k_pool k cur)\<rparr>)"
    using assms by (auto simp: inherit_cwd_def bind_eq_Some_conv Let_def)
  have "frame {np} k k'" unfolding k' by (auto simp: frame_def same_slot_def)
  then show ?thesis using that [OF d] k' by simp
qed

lemma frame_inherit:
  assumes i: "inherit k cur np usp = Some (r, k')" and u: "pr_state (k_pool k np) \<noteq> Unused"
  shows "frame {np} k k' \<and> r = pr_pid (k_pool k np) \<and> pr_state (k_pool k' np) = Runnable \<and> pr_parent (k_pool k' np) = Some cur"
proof -
  obtain k1 k2 where s: "dup_files (inherit_regs k cur np usp) cur np [0..<max_open_files] = Some k1"
    "inherit_cwd k1 cur np = Some k2" "r = pr_pid (k_pool k2 np)" "k' = start_child k2 cur np"
    using i by (rule inherit_steps)
  have "frame {np} (inherit_regs k cur np usp) k1" using frame_dup_files [OF s(1)] by simp
  moreover have "frame {np} k1 k2" using s(2) by (rule inherit_cwd_pool)
  ultimately have f: "frame {np} k k2" using frame_inherit_regs by (blast intro: frame_trans)
  then have "pr_state (k_pool k2 np) \<noteq> Unused" "pr_pid (k_pool k2 np) = pr_pid (k_pool k np)"
    using u frame_slot [of _ k k2 np] by (auto simp: same_slot_def)
  moreover from this(1) have "frame {np} k2 k'" unfolding s(4) start_child_def by (intro frame_upd) (auto simp: same_slot_def)
  ultimately show ?thesis using f s(3,4) by (auto simp: start_child_def intro: frame_trans)
qed

lemma pool_ok_alloc_proc:
  assumes "pool_ok k" and "alloc_proc k = Some (r, k')"
  shows "pool_ok k'"
  using alloc_proc_cases [OF assms(2)] assms(1)
  by (auto simp: fresh_slot_def intro: pool_ok_frame pool_ok_hand_out pool_ok_take_back)

lemma pool_ok_alloc_thread:
  assumes "pool_ok k" and "alloc_thread k cur = Some (r, k')"
  shows "pool_ok k'"
  using alloc_thread_cases [OF assms(2)] assms(1)
  by (auto simp: fresh_slot_def intro: pool_ok_frame pool_ok_hand_out pool_ok_take_back)

text \<open>The course of \<^verbatim>\<open>fork\<close>: no slot, a slot given back after a failed copy, or a child.\<close>

definition fork_copied :: "kern \<Rightarrow> nat \<Rightarrow> nat \<Rightarrow> kern \<Rightarrow> bool" where
  "fork_copied k cur np k' \<longleftrightarrow>
     (\<exists>k1 k2 k3 k4. copy_sections k cur np [0..<pr_sec_cnt (k_pool k cur)] = Some (True, k1) \<and> mm_only k1 k2 \<and>
        mm_only (upd k2 np (\<lambda>q. q\<lparr>pr_sz := pr_sz (k_pool k1 cur), pr_heap_start := pr_heap_start (k_pool k1 cur),
          pr_heap_ptr := pr_heap_ptr (k_pool k1 cur)\<rparr>)) k3 \<and>
        copy_vmas k3 cur np [0..<max_vma_num] = Some (True, k4) \<and> proc_init k4 np = Some k')"

lemma fork_copied_frame: "fork_copied k cur np k' \<Longrightarrow> frame {np} k k'"
proof -
  assume "fork_copied k cur np k'"
  then obtain k1 k2 k3 k4 where s: "copy_sections k cur np [0..<pr_sec_cnt (k_pool k cur)] = Some (True, k1)" "mm_only k1 k2"
    "mm_only (upd k2 np (\<lambda>q. q\<lparr>pr_sz := pr_sz (k_pool k1 cur), pr_heap_start := pr_heap_start (k_pool k1 cur),
       pr_heap_ptr := pr_heap_ptr (k_pool k1 cur)\<rparr>)) k3"
    "copy_vmas k3 cur np [0..<max_vma_num] = Some (True, k4)" "proc_init k4 np = Some k'" unfolding fork_copied_def by blast
  have "frame {np} k2 (upd k2 np (\<lambda>q. q\<lparr>pr_sz := pr_sz (k_pool k1 cur), pr_heap_start := pr_heap_start (k_pool k1 cur),
       pr_heap_ptr := pr_heap_ptr (k_pool k1 cur)\<rparr>))" by (rule frame_upd) (auto simp: same_slot_def)
  then show ?thesis
    using frame_copy_sections [OF s(1)] frame_mm_only [OF s(2)] frame_mm_only [OF s(3)] frame_copy_vmas [OF s(4)]
      frame_mm_only [OF mm_only_proc_init [OF s(5)]] by (blast intro: frame_trans)
qed

lemma fork_cases:
  assumes "fork k cur usp = Some (r, k')"
  obtains (full) "alloc_proc k = Some (None, k')" "r = - 1"
  | (failed) np k1 k2 where "alloc_proc k = Some (Some np, k1)" "frame {np} k1 k2" "freeproc k2 np = Some k'" "r < 0"
  | (child) np k1 k2 where "alloc_proc k = Some (Some np, k1)" "fork_copied k1 cur np k2" "inherit k2 cur np usp = Some (r, k')"
proof -
  obtain npo k1 where a: "alloc_proc k = Some (npo, k1)" using assms by (auto simp: fork_def bind_eq_Some_conv)
  show ?thesis
  proof (cases npo)
    case None
    then show ?thesis using assms a full by (simp add: fork_def)
  next
    case (Some np)
    have fail: thesis if "frame {np} k1 k2" "fork_fail k2 np e = Some (r, k')" "e < 0" for k2 e
      using that failed [of np k1 k2] a Some by (auto simp: fork_fail_def bind_eq_Some_conv)
    obtain ok k2 where s: "copy_sections k1 cur np [0..<pr_sec_cnt (k_pool k1 cur)] = Some (ok, k2)"
      using assms a Some by (auto simp: fork_def bind_eq_Some_conv)
    note f2 = frame_copy_sections [OF s]
    show ?thesis
    proof (cases ok)
      case False
      then have "fork_fail k2 np (- 1) = Some (r, k')" using assms a Some s by (simp add: fork_def)
      then show ?thesis using fail f2 by simp
    next
      case True
      let ?p = "k_pool k2 cur"
      obtain e k3 where h: "k_vm_copy k2 cur np (pr_heap_start ?p) (page_round_up (pr_heap_ptr ?p - pr_heap_start ?p)) = Some (e, k3)"
        using assms a Some s True by (auto simp: fork_def bind_eq_Some_conv Let_def)
      note m3 = mm_only_vm_copy [OF h]
      have f3: "frame {np} k1 k3" using f2 frame_mm_only [OF m3] by (rule frame_trans)
      show ?thesis
      proof (cases "e < 0")
        case neg: True
        then have "fork_fail k3 np (- 2) = Some (r, k')" using assms a Some s True h by (simp add: fork_def Let_def)
        then show ?thesis using fail f3 by simp
      next
        case e: False
        let ?k = "upd k3 np (\<lambda>q. q\<lparr>pr_sz := pr_sz ?p, pr_heap_start := pr_heap_start ?p, pr_heap_ptr := pr_heap_ptr ?p\<rparr>)"
        obtain e' k4 where t: "k_vm_copy ?k cur np (vm_ustack_end - (1 + default_proc_ustack_pages) * page_size)
            ((1 + default_proc_ustack_pages) * page_size) = Some (e', k4)"
          using assms a Some s True h e by (auto simp: fork_def bind_eq_Some_conv Let_def)
        note m4 = mm_only_vm_copy [OF t]
        have "frame {np} k3 ?k" by (rule frame_upd) (auto simp: same_slot_def)
        then have f4: "frame {np} k1 k4" using f3 frame_mm_only [OF m4] by (blast intro: frame_trans)
        show ?thesis
        proof (cases "e' < 0")
          case neg: True
          then have "fork_fail k4 np (- 3) = Some (r, k')" using assms a Some s True h e t by (simp add: fork_def Let_def)
          then show ?thesis using fail f4 by simp
        next
          case e': False
          obtain ok' k5 where v: "copy_vmas k4 cur np [0..<max_vma_num] = Some (ok', k5)"
            using assms a Some s True h e t e' by (auto simp: fork_def bind_eq_Some_conv Let_def)
          have f5: "frame {np} k1 k5" using f4 frame_copy_vmas [OF v] by (rule frame_trans)
          show ?thesis
          proof (cases ok')
            case False
            then have "fork_fail k5 np (- 3) = Some (r, k')" using assms a Some s True h e t e' v by (simp add: fork_def Let_def)
            then show ?thesis using fail f5 by simp
          next
            case ok': True
            then obtain k6 where p: "proc_init k5 np = Some k6" "inherit k6 cur np usp = Some (r, k')"
              using assms a Some s True h e t e' v by (auto simp: fork_def bind_eq_Some_conv Let_def)
            have s': "copy_sections k1 cur np [0..<pr_sec_cnt (k_pool k1 cur)] = Some (True, k2)" using s True by simp
            have v': "copy_vmas k4 cur np [0..<max_vma_num] = Some (True, k5)" using v ok' by simp
            have "fork_copied k1 cur np k6" unfolding fork_copied_def
              by (intro exI conjI) (rule s' m3 m4 v' p(1))+
            then show ?thesis using child a Some p(2) by blast
          qed
        qed
      qed
    qed
  qed
qed

lemma pool_ok_fork:
  assumes ok: "pool_ok k" and f: "fork k cur usp = Some (r, k')"
  shows "pool_ok k'"
  using f
proof (cases rule: fork_cases)
  case full
  then show ?thesis using ok pool_ok_alloc_proc by blast
next
  case (failed np k1 k2)
  then show ?thesis using ok pool_ok_alloc_proc pool_ok_frame pool_ok_freeproc by metis
next
  case (child np k1 k2)
  have "pool_ok k2" using child ok pool_ok_alloc_proc pool_ok_frame fork_copied_frame by metis
  moreover have "pr_state (k_pool k1 np) \<noteq> Unused"
    using alloc_proc_cases [OF child(1)] by (auto simp: fresh_slot_def Let_def)
  then have "pr_state (k_pool k2 np) \<noteq> Unused"
    using frame_slot [OF fork_copied_frame [OF child(2)], of np] by (simp add: same_slot_def)
  ultimately show ?thesis using frame_inherit [OF child(3)] pool_ok_frame by blast
qed

lemma frame_copyout_int: "copyout_int k cur va loc v = Some (r, k') \<Longrightarrow> frame S k k' \<and> k_pool k' = k_pool k"
  by (auto simp: copyout_int_def bind_eq_Some_conv frame_mem)

lemma clone_thread_frame:
  assumes c: "clone k cur flags stk ptid tls loc = Some (r, k')" and t: "flags AND CLONE_THREAD \<noteq> 0"
  obtains npo k1 where "alloc_thread k cur = Some (npo, k1)" "frame (set_option npo) k1 k'"
proof -
  obtain npo k1 where a: "alloc_thread k cur = Some (npo, k1)" using c t by (auto simp: clone_def bind_eq_Some_conv)
  show ?thesis
  proof (cases "npo = None \<or> flags AND CLONE_VM = 0")
    case True
    then have "k' = k1" using c t a by (auto simp: clone_def split: option.splits)
    then show ?thesis using that a by blast
  next
    case vm: False
    then obtain np where np: "npo = Some np" by auto
    let ?p = "k_pool k1 cur"
    let ?k = "upd k1 np (\<lambda>q. q\<lparr>pr_pt := pr_pt ?p, pr_sec_cnt := pr_sec_cnt ?p,
        pr_secs := (\<lambda>j. if j < pr_sec_cnt ?p then pr_secs ?p j else pr_secs q j),
        pr_sz := pr_sz ?p, pr_heap_start := pr_heap_start ?p, pr_heap_ptr := pr_heap_ptr ?p\<rparr>)"
    obtain k2 pid k3 where s: "share_vmas ?k cur np [0..<max_vma_num] = Some k2" "inherit k2 cur np stk = Some (pid, k3)"
      "clone_thread_finish k3 cur np flags ptid tls loc pid = Some (r, k')"
      using c t a np vm by (auto simp: clone_def bind_eq_Some_conv Let_def)
    have "frame {np} k1 ?k" by (rule frame_upd) (auto simp: same_slot_def)
    then have f: "frame {np} k1 k2" using frame_share_vmas [OF s(1)] by (blast intro: frame_trans)
    have "pr_state (k_pool k1 np) \<noteq> Unused" using alloc_thread_cases [OF a] np by (auto simp: fresh_slot_def Let_def)
    then have "pr_state (k_pool k2 np) \<noteq> Unused" using frame_slot [OF f, of np] by (simp add: same_slot_def)
    then have "frame {np} k1 k3" using frame_inherit [OF s(2)] f by (blast intro: frame_trans)
    moreover have "frame {np} k3 k'" using s(3) unfolding clone_thread_finish_def
      by (auto simp: bind_eq_Some_conv frame_mem split: if_splits dest!: frame_copyout_int [where S = "{np}"]
          intro: frame_trans [OF _ frame_mem])
    ultimately show ?thesis using that a np by (auto intro: frame_trans)
  qed
qed

lemma pool_ok_clone:
  assumes ok: "pool_ok k" and c: "clone k cur flags stk ptid tls loc = Some (r, k')"
  shows "pool_ok k'"
proof (cases "flags AND CLONE_THREAD = 0")
  case True
  then show ?thesis using assms pool_ok_fork by (simp add: clone_def)
next
  case False
  then show ?thesis using clone_thread_frame [OF c] ok by (metis pool_ok_alloc_thread pool_ok_frame)
qed

text \<open>Creating a process leaves the slots in use in use.\<close>

lemma used_frame: "frame S k k' \<Longrightarrow> pr_state (k_pool k' i) = Unused \<longleftrightarrow> pr_state (k_pool k i) = Unused"
  using frame_slot [of S k k' i] by (simp add: same_slot_def)

lemma alloc_proc_used:
  assumes "alloc_proc k = Some (r, k')" "pr_state (k_pool k i) \<noteq> Unused"
  shows "pr_state (k_pool k' i) \<noteq> Unused \<and> r \<noteq> Some i"
  using alloc_proc_cases [OF assms(1)] assms(2)
  by (auto simp: take_back_def hand_out_def fresh_slot_def used_frame [of _ _ k' i] split: if_splits)

lemma alloc_thread_used:
  assumes "alloc_thread k cur = Some (r, k')" "pr_state (k_pool k i) \<noteq> Unused"
  shows "pr_state (k_pool k' i) \<noteq> Unused \<and> r \<noteq> Some i"
  using alloc_thread_cases [OF assms(1)] assms(2)
  by (auto simp: take_back_def hand_out_def fresh_slot_def used_frame [of _ _ k' i] split: if_splits)

lemma freeproc_used: "freeproc k np = Some k' \<Longrightarrow> i \<noteq> np \<Longrightarrow> pr_state (k_pool k' i) = Unused \<longleftrightarrow> pr_state (k_pool k i) = Unused"
  using used_frame [OF freeproc_frame] by simp

lemma fork_used:
  assumes f: "fork k cur usp = Some (r, k')" and i: "pr_state (k_pool k i) \<noteq> Unused"
  shows "pr_state (k_pool k' i) \<noteq> Unused"
  using f
proof (cases rule: fork_cases)
  case full
  then show ?thesis using alloc_proc_used i by blast
next
  case (failed np k1 k2)
  then show ?thesis using alloc_proc_used [OF failed(1) i] used_frame [OF failed(2)] freeproc_used [OF failed(3), of i] by auto
next
  case (child np k1 k2)
  have "pr_state (k_pool k1 np) \<noteq> Unused" using alloc_proc_cases [OF child(1)] by (auto simp: fresh_slot_def Let_def)
  then have "pr_state (k_pool k2 np) \<noteq> Unused" using used_frame [OF fork_copied_frame [OF child(2)]] by simp
  then have "frame {np} k1 k'" using frame_inherit [OF child(3)] fork_copied_frame [OF child(2)] by (blast intro: frame_trans)
  then show ?thesis using alloc_proc_used [OF child(1) i] used_frame by blast
qed

lemma clone_used:
  assumes c: "clone k cur flags stk ptid tls loc = Some (r, k')" and i: "pr_state (k_pool k i) \<noteq> Unused"
  shows "pr_state (k_pool k' i) \<noteq> Unused"
proof (cases "flags AND CLONE_THREAD = 0")
  case True
  then show ?thesis using assms fork_used by (simp add: clone_def)
next
  case False
  then show ?thesis using clone_thread_frame [OF c] alloc_thread_used i used_frame by metis
qed

section \<open>Waiting and ending\<close>

lemma pool_ok_wait_scan:
  "wait_scan k cur cp addr loc is h = Some (r, h', k') \<Longrightarrow> pool_ok k \<Longrightarrow> pool_ok k' \<and> (r = None \<longrightarrow> k' = k)"
proof (induction k cur cp addr loc "is" h rule: wait_scan.induct)
  case (2 k cur cp addr loc np nps h)
  show ?case
  proof (cases "\<not> (cp > 0 \<and> pr_pid (k_pool k np) \<noteq> cp) \<and> pr_parent (k_pool k np) = Some cur \<and> pr_state (k_pool k np) = Zombie")
    case True
    then obtain e k1 where c: "(if addr \<noteq> 0 then copyout_int k cur addr loc (pr_xstate (k_pool k np)) else Some (0, k)) = Some (e, k1)"
      and rest: "(if e < 0 then Some (Some (- 1), True, k1)
        else do { k2 \<leftarrow> freeproc k1 np; Some (Some (pr_pid (k_pool k np)), True, k2) }) = Some (r, h', k')"
      using 2(4) by (auto simp: bind_eq_Some_conv Let_def)
    have "frame {} k k1" using c frame_copyout_int by (auto split: if_splits)
    then have "pool_ok k1" using 2(5) pool_ok_frame by blast
    then show ?thesis using rest pool_ok_freeproc by (auto simp: bind_eq_Some_conv split: if_splits)
  next
    case False
    then show ?thesis using 2 by (auto split: if_splits)
  qed
qed auto

lemma frame_sleep_on: "pr_state (k_pool k i) \<noteq> Unused \<Longrightarrow> frame UNIV k (sleep_on k i ch)"
  unfolding sleep_on_def by (rule frame_upd) (auto simp: same_slot_def)

lemma pool_ok_wait:
  assumes "wait_run k cur cp addr loc = Some (r, k')" and "pool_ok k" and "pr_state (k_pool k cur) \<noteq> Unused"
  shows "pool_ok k'"
proof -
  obtain r1 h k1 where w: "wait_scan k cur cp addr loc [0..<pool_size] False = Some (r1, h, k1)"
    and rest: "(case r1 of Some v \<Rightarrow> Some (Some v, k1)
      | None \<Rightarrow> if \<not> h \<or> pr_killed (k_pool k1 cur) then Some (Some (- ECHILD), k1)
                else Some (None, sleep_on k1 cur (Chan_proc cur))) = Some (r, k')"
    using assms(1) by (auto simp: wait_run_def bind_eq_Some_conv)
  note p = pool_ok_wait_scan [OF w assms(2)]
  show ?thesis
  proof (cases r1)
    case (Some v)
    then show ?thesis using rest p by simp
  next
    case None
    then have "k1 = k" using p by simp
    then show ?thesis using rest None p assms(3) pool_ok_frame [OF _ frame_sleep_on, of k cur] by (auto split: if_splits)
  qed
qed

lemma write_back_frame:
  assumes "write_back k i f va va_end off = Some k'"
  shows "frame S k k' \<and> k_pool k' = k_pool k"
  using assms
proof (rule write_back.raw_induct [where P = "\<lambda>k i f va va_end off k'. frame S k k' \<and> k_pool k' = k_pool k", rotated])
  fix wb :: "kern \<Rightarrow> nat \<Rightarrow> nat \<Rightarrow> u64 \<Rightarrow> u64 \<Rightarrow> int \<Rightarrow> kern option" and k i f va va_end off k'
  assume IH: "\<And>k i f va va_end off k'. wb k i f va va_end off = Some k' \<Longrightarrow> frame S k k' \<and> k_pool k' = k_pool k"
  assume "(if va < va_end then
        Option.bind (kwalk_addr (k_buddy k) (k_mem k) (pr_pt (k_pool k i)) va) (\<lambda>pa.
        Option.bind (fs_files (k_fs k) f) (\<lambda>x.
        Option.bind (file_write (k_fs k) (k_mem k) x (to_vir pa) page_size off True) (\<lambda>(_, x, st).
          wb (k\<lparr>k_fs := set_file st f (Some x)\<rparr>) i f (va + page_size) va_end (off + 4096))))
      else Some k) = Some k'"
  note body = this
  show "frame S k k' \<and> k_pool k' = k_pool k"
  proof (cases "va < va_end")
    case False
    then show ?thesis using body by simp
  next
    case True
    then obtain pa x w x' st where "file_write (k_fs k) (k_mem k) x (to_vir pa) page_size off True = Some (w, x', st)"
      and r: "wb (k\<lparr>k_fs := set_file st f (Some x')\<rparr>) i f (va + page_size) va_end (off + 4096) = Some k'"
      using body unfolding if_P [OF True] by (elim bind_eq_SomeE) (auto split: prod.splits)
    show ?thesis using IH [OF r] by (auto intro: frame_trans [OF frame_fs])
  qed
qed

lemma frame_drop_vma:
  assumes "drop_vma k i j = Some k'" and i: "i \<in> S"
  shows "frame S k k'"
proof -
  have u: "frame S q (upd q i (\<lambda>p. p\<lparr>pr_vm := g p\<rparr>))" for q g using i by (intro frame_upd) (auto simp: same_slot_def)
  let ?k = "upd k i (\<lambda>p. p\<lparr>pr_vm := (pr_vm p)(j := (pr_vm p j)\<lparr>vma_used := False\<rparr>)\<rparr>)"
  let ?a = "pr_vm (k_pool ?k i) j"
  let ?len = "word_of_int (vma_length ?a) :: u64"
  obtain k1 k2 k3 where s: "(case vma_file ?a of
               Some f \<Rightarrow> if vma_flags ?a = MAP_SHARED \<and> vma_prot ?a AND PROT_WRITE \<noteq> 0
                          then write_back ?k i f (vma_address ?a) (vma_address ?a + ?len) 0 else Some ?k
             | None \<Rightarrow> Some ?k) = Some k1"
      "k_unmap k1 i (page_round_up (vma_address ?a)) (?len div page_size) True = Some k2"
      "(case vma_file ?a of Some f \<Rightarrow> free_kfile (upd k2 i (\<lambda>p. p\<lparr>pr_vm := (pr_vm p)(j := (pr_vm p j)\<lparr>vma_address := 0\<rparr>)\<rparr>)) f
        | None \<Rightarrow> Some (upd k2 i (\<lambda>p. p\<lparr>pr_vm := (pr_vm p)(j := (pr_vm p j)\<lparr>vma_address := 0\<rparr>)\<rparr>))) = Some k3"
      "k' = upd k3 i (\<lambda>p. p\<lparr>pr_vm := (pr_vm p)(j := (pr_vm p j)\<lparr>vma_file := None\<rparr>)\<rparr>)"
    using assms(1) by (auto simp: drop_vma_def bind_eq_Some_conv Let_def)
  have a: "frame S ?k k1" using s(1) write_back_frame by (auto split: option.splits if_splits)
  have b: "frame S k1 k2" using s(2) mm_only_unmap frame_mm_only by blast
  have c: "frame S (upd k2 i (\<lambda>p. p\<lparr>pr_vm := (pr_vm p)(j := (pr_vm p j)\<lparr>vma_address := 0\<rparr>)\<rparr>)) k3"
    using s(3) frame_free_kfile by (auto split: option.splits)
  show ?thesis unfolding s(4)
    by (rule frame_trans [OF u frame_trans [OF a frame_trans [OF b frame_trans [OF u frame_trans [OF c u]]]]])
qed

lemma frame_drop_vmas: "drop_vmas k i js = Some k' \<Longrightarrow> i \<in> S \<Longrightarrow> frame S k k'"
proof (induction k i js arbitrary: k' rule: drop_vmas.induct)
  case (2 k i j js)
  obtain k1 where k1: "(if vma_address (pr_vm (k_pool k i) j) \<noteq> 0 then drop_vma k i j else Some k) = Some k1"
    and r: "drop_vmas k1 i js = Some k'" using 2(2) by (auto simp: bind_eq_Some_conv)
  have "frame S k k1" using k1 frame_drop_vma 2(3) by (auto split: if_splits)
  then show ?case using 2(1) [OF k1 r 2(3)] by (rule frame_trans)
qed auto

lemma reparent_one_pool:
  "k_pool (reparent_one p j k) i =
     (if i = j \<and> pr_parent (k_pool k i) = Some p then (k_pool k i)\<lparr>pr_parent := k_init k\<rparr> else k_pool k i)"
  by (auto simp: reparent_one_def)

lemma reparent_one_fields [simp]:
  "k_init (reparent_one p j k) = k_init k" "k_cur_pid (reparent_one p j k) = k_cur_pid k"
  "k_last_gid (reparent_one p j k) = k_last_gid k" "k_fs (reparent_one p j k) = k_fs k"
  by (simp_all add: reparent_one_def)

lemma fold_reparent:
  assumes "k_init k \<noteq> Some p"
  shows "k_pool (fold (reparent_one p) is k) i =
      (if i \<in> set is \<and> pr_parent (k_pool k i) = Some p then (k_pool k i)\<lparr>pr_parent := k_init k\<rparr> else k_pool k i)"
  using assms by (induction "is" arbitrary: k) (auto simp: reparent_one_pool)

lemma fold_reparent_fields:
  "k_init (fold (reparent_one p) is k) = k_init k \<and> k_cur_pid (fold (reparent_one p) is k) = k_cur_pid k \<and>
   k_last_gid (fold (reparent_one p) is k) = k_last_gid k \<and> k_fs (fold (reparent_one p) is k) = k_fs k"
  by (induction "is" arbitrary: k) simp_all

lemma pool_order_all: "k_last_gid k < pool_size \<Longrightarrow> set (pool_order k) = {..<pool_size}"
proof -
  assume l: "k_last_gid k < pool_size"
  have "\<exists>j < pool_size. (k_last_gid k + j) mod pool_size = i" if "i < pool_size" for i
  proof (cases "k_last_gid k \<le> i")
    case True
    then show ?thesis using that by (intro exI [of _ "i - k_last_gid k"]) simp
  next
    case False
    then show ?thesis using that l by (intro exI [of _ "i + pool_size - k_last_gid k"]) simp
  qed
  then show ?thesis by (force simp: pool_order_def pool_size_def)
qed

lemma reparent_pool:
  assumes "k_init k \<noteq> Some p" and "k_last_gid k < pool_size"
  shows "k_pool (reparent k p) i =
      (if i < pool_size \<and> pr_parent (k_pool k i) = Some p then (k_pool k i)\<lparr>pr_parent := k_init k\<rparr> else k_pool k i)"
  using fold_reparent [OF assms(1), of "pool_order k" i] pool_order_all [OF assms(2)] by (simp add: reparent_def)

lemma frame_fold_reparent: "frame UNIV k (fold (reparent_one p) is k)"
proof (induction "is" arbitrary: k)
  case (Cons j js)
  have "same_slot (k_pool k i) (k_pool (reparent_one p j k) i)" for i unfolding reparent_one_pool by (simp add: same_slot_def)
  then have "frame UNIV k (reparent_one p j k)" by (simp add: frame_def)
  then show ?case using Cons by (auto intro: frame_trans)
qed simp

lemma frame_reparent: "frame UNIV k (reparent k p)" by (simp add: reparent_def frame_fold_reparent)

lemma exit_proc_steps:
  assumes "exit_proc k i status = Some k'"
  obtains k1 k2 where "k_init k \<noteq> Some i" "close_files k i [0..<max_open_files] = Some k1" "drop_vmas k1 i [0..<max_vma_num] = Some k2"
    "k' = clear_tid (upd (case pr_parent (k_pool (reparent k2 i) i) of Some q \<Rightarrow> wakeup (reparent k2 i) (Chan_proc q) | None \<Rightarrow> reparent k2 i) i
       (\<lambda>p. p\<lparr>pr_xstate := signed_take_bit 31 (push_bit 8 status), pr_state := Zombie\<rparr>)) i"
  using assms by (auto simp: exit_proc_def bind_eq_Some_conv Let_def split: if_splits)

lemma frame_clear_tid: "frame UNIV k (clear_tid k i)"
  by (auto simp: clear_tid_def Let_def frame_def same_slot_def)

lemma frame_exit_proc:
  assumes "exit_proc k i status = Some k'" and u: "pr_state (k_pool k i) \<noteq> Unused"
  shows "frame UNIV k k'"
proof -
  obtain k1 k2 where s: "close_files k i [0..<max_open_files] = Some k1" "drop_vmas k1 i [0..<max_vma_num] = Some k2"
    "k' = clear_tid (upd (case pr_parent (k_pool (reparent k2 i) i) of Some q \<Rightarrow> wakeup (reparent k2 i) (Chan_proc q) | None \<Rightarrow> reparent k2 i) i
       (\<lambda>p. p\<lparr>pr_xstate := signed_take_bit 31 (push_bit 8 status), pr_state := Zombie\<rparr>)) i"
    using assms(1) by (rule exit_proc_steps)
  let ?k = "case pr_parent (k_pool (reparent k2 i) i) of Some q \<Rightarrow> wakeup (reparent k2 i) (Chan_proc q) | None \<Rightarrow> reparent k2 i"
  have "frame UNIV (reparent k2 i) ?k" by (auto split: option.splits intro: frame_wakeup)
  then have f: "frame UNIV k ?k"
    using frame_trans [OF frame_close_files [OF s(1) UNIV_I] frame_trans [OF frame_drop_vmas [OF s(2) UNIV_I] frame_trans [OF frame_reparent]]]
    by blast
  then have "pr_state (k_pool ?k i) \<noteq> Unused" using u frame_slot [OF f, of i] by (simp add: same_slot_def)
  then have "frame UNIV ?k (upd ?k i (\<lambda>p. p\<lparr>pr_xstate := signed_take_bit 31 (push_bit 8 status), pr_state := Zombie\<rparr>))"
    by (intro frame_upd) (auto simp: same_slot_def)
  then show ?thesis unfolding s(3) using f frame_clear_tid by (blast intro: frame_trans)
qed

section \<open>Parents\<close>

definition same_parents :: "kern \<Rightarrow> kern \<Rightarrow> bool" where
  "same_parents k k' \<longleftrightarrow> (\<forall>i. pr_parent (k_pool k' i) = pr_parent (k_pool k i))"

lemma same_parents_refl [simp]: "same_parents k k" by (simp add: same_parents_def)

lemma same_parents_trans: "same_parents k k' \<Longrightarrow> same_parents k' k'' \<Longrightarrow> same_parents k k''"
  by (simp add: same_parents_def)

lemma woken_parent: "woken p q \<Longrightarrow> pr_parent q = pr_parent p" by (auto simp: woken_def)

lemma same_parents_frame: "frame {} k k' \<Longrightarrow> same_parents k k'"
  unfolding frame_def same_parents_def by (simp add: woken_parent)

lemma same_parents_upd: "(\<And>p. pr_parent (g p) = pr_parent p) \<Longrightarrow> same_parents k (upd k i g)"
  by (simp add: same_parents_def)

lemma same_parents_close_files: "close_files k i fds = Some k' \<Longrightarrow> same_parents k k'"
proof (induction k i fds arbitrary: k' rule: close_files.induct)
  case (2 k i fd fds)
  show ?case
  proof (cases "pr_ofile (k_pool k i) fd")
    case None
    then show ?thesis using 2 by simp
  next
    case (Some f)
    then obtain x where x: "fs_files (k_fs k) f = Some x" using 2(4) by (auto simp: bind_eq_Some_conv)
    show ?thesis
    proof (cases "f_refcnt x > 0")
      case True
      then obtain k1 where k1: "free_kfile k f = Some k1"
        and r: "close_files (upd k1 i (\<lambda>p. p\<lparr>pr_ofile := (pr_ofile p)(fd := None)\<rparr>)) i fds = Some k'"
        using 2(4) Some x by (auto simp: bind_eq_Some_conv)
      show ?thesis
        using same_parents_trans [OF same_parents_frame [OF frame_free_kfile [OF k1]]
            same_parents_trans [OF same_parents_upd 2(2) [OF Some x True k1 r]]] by simp
    next
      case False
      then show ?thesis using 2 Some x by auto
    qed
  qed
qed auto

lemma same_parents_drop_vma:
  assumes "drop_vma k i j = Some k'"
  shows "same_parents k k'"
proof -
  have u: "same_parents q (upd q i (\<lambda>p. p\<lparr>pr_vm := g p\<rparr>))" for q g by (rule same_parents_upd) simp
  let ?k = "upd k i (\<lambda>p. p\<lparr>pr_vm := (pr_vm p)(j := (pr_vm p j)\<lparr>vma_used := False\<rparr>)\<rparr>)"
  let ?a = "pr_vm (k_pool ?k i) j"
  let ?len = "word_of_int (vma_length ?a) :: u64"
  obtain k1 k2 k3 where s: "(case vma_file ?a of
               Some f \<Rightarrow> if vma_flags ?a = MAP_SHARED \<and> vma_prot ?a AND PROT_WRITE \<noteq> 0
                          then write_back ?k i f (vma_address ?a) (vma_address ?a + ?len) 0 else Some ?k
             | None \<Rightarrow> Some ?k) = Some k1"
      "k_unmap k1 i (page_round_up (vma_address ?a)) (?len div page_size) True = Some k2"
      "(case vma_file ?a of Some f \<Rightarrow> free_kfile (upd k2 i (\<lambda>p. p\<lparr>pr_vm := (pr_vm p)(j := (pr_vm p j)\<lparr>vma_address := 0\<rparr>)\<rparr>)) f
        | None \<Rightarrow> Some (upd k2 i (\<lambda>p. p\<lparr>pr_vm := (pr_vm p)(j := (pr_vm p j)\<lparr>vma_address := 0\<rparr>)\<rparr>))) = Some k3"
      "k' = upd k3 i (\<lambda>p. p\<lparr>pr_vm := (pr_vm p)(j := (pr_vm p j)\<lparr>vma_file := None\<rparr>)\<rparr>)"
    using assms by (auto simp: drop_vma_def bind_eq_Some_conv Let_def)
  have a: "same_parents ?k k1" using s(1) write_back_frame [where S = "{}"]
    by (auto split: option.splits if_splits intro: same_parents_frame)
  have b: "same_parents k1 k2" using s(2) mm_only_unmap frame_mm_only same_parents_frame by blast
  have c: "same_parents (upd k2 i (\<lambda>p. p\<lparr>pr_vm := (pr_vm p)(j := (pr_vm p j)\<lparr>vma_address := 0\<rparr>)\<rparr>)) k3"
    using s(3) frame_free_kfile by (auto split: option.splits intro: same_parents_frame)
  show ?thesis unfolding s(4)
    by (rule same_parents_trans [OF u same_parents_trans [OF a same_parents_trans [OF b same_parents_trans [OF u same_parents_trans [OF c u]]]]])
qed

lemma same_parents_drop_vmas: "drop_vmas k i js = Some k' \<Longrightarrow> same_parents k k'"
proof (induction k i js arbitrary: k' rule: drop_vmas.induct)
  case (2 k i j js)
  obtain k1 where k1: "(if vma_address (pr_vm (k_pool k i) j) \<noteq> 0 then drop_vma k i j else Some k) = Some k1"
    and r: "drop_vmas k1 i js = Some k'" using 2(2) by (auto simp: bind_eq_Some_conv)
  have "same_parents k k1" using k1 same_parents_drop_vma by (auto split: if_splits)
  then show ?case using 2(1) [OF k1 r] by (rule same_parents_trans)
qed auto

section \<open>The scheduler\<close>

lemma fold_highest:
  fixes k :: kern
  defines "step \<equiv> (\<lambda>i prio. if pr_priority (k_pool k i) < prio \<and> pr_state (k_pool k i) = Runnable then pr_priority (k_pool k i) else prio)"
  shows "fold step is p0 \<le> p0 \<and> (\<forall>i \<in> set is. pr_state (k_pool k i) = Runnable \<longrightarrow> fold step is p0 \<le> pr_priority (k_pool k i))"
proof (induction "is" arbitrary: p0)
  case (Cons j js)
  have "step j p0 \<le> p0" "pr_state (k_pool k j) = Runnable \<Longrightarrow> step j p0 \<le> pr_priority (k_pool k j)" by (auto simp: step_def)
  then show ?case using Cons [of "step j p0"] by (auto intro: order_trans)
qed simp

lemma highest_le:
  "get_highest_proirity k \<le> 19 \<and> (\<forall>i < pool_size. pr_state (k_pool k i) = Runnable \<longrightarrow> get_highest_proirity k \<le> pr_priority (k_pool k i))"
  using fold_highest [of k "[0..<pool_size]" lowest_proc_prio] by (auto simp: get_highest_proirity_def lowest_proc_prio_def)

lemma fold_highest_attained:
  fixes k :: kern
  defines "step \<equiv> (\<lambda>i prio. if pr_priority (k_pool k i) < prio \<and> pr_state (k_pool k i) = Runnable then pr_priority (k_pool k i) else prio)"
  shows "fold step is p0 = p0 \<or> (\<exists>i \<in> set is. pr_state (k_pool k i) = Runnable \<and> pr_priority (k_pool k i) = fold step is p0)"
proof (induction "is" arbitrary: p0)
  case (Cons j js)
  have "step j p0 = p0 \<or> pr_state (k_pool k j) = Runnable \<and> pr_priority (k_pool k j) = step j p0" by (auto simp: step_def)
  then show ?case using Cons [of "step j p0"] by auto
qed simp

lemma sched_scan_fixed:
  assumes "i \<le> pool_size"
  shows "(\<forall>j k'. sched_scan k i False prio = Some (j, k') \<longrightarrow>
       i \<le> j \<and> j < pool_size \<and> pr_state (k_pool k j) = Runnable \<and> pr_priority (k_pool k j) \<le> prio \<and>
       k' = upd k j (\<lambda>p. p\<lparr>pr_state := Running\<rparr>) \<and>
       (\<forall>l. i \<le> l \<and> l < j \<and> pr_state (k_pool k l) = Runnable \<longrightarrow> prio < pr_priority (k_pool k l))) \<and>
     (sched_scan k i False prio = None \<longleftrightarrow> (\<forall>l. i \<le> l \<and> l < pool_size \<and> pr_state (k_pool k l) = Runnable \<longrightarrow> prio < pr_priority (k_pool k l)))"
  using assms
proof (induction "pool_size - i" arbitrary: i)
  case 0
  then show ?case by (subst (1 2) sched_scan.simps) simp
next
  case (Suc n)
  then have i: "i < pool_size" by simp
  show ?case
  proof (cases "pr_state (k_pool k i) \<noteq> Runnable \<or> pr_priority (k_pool k i) > prio")
    case True
    have r: "sched_scan k i False prio = sched_scan k (Suc i) False prio"
      using i True by (subst sched_scan.simps) simp
    have l: "i \<le> l \<longleftrightarrow> l = i \<or> Suc i \<le> l" for l by auto
    show ?thesis unfolding r using Suc.hyps(1) [of "Suc i"] Suc.hyps(2) i True by (auto simp: l)
  next
    case False
    have r: "sched_scan k i False prio = Some (i, upd k i (\<lambda>p. p\<lparr>pr_state := Running\<rparr>))"
      using i False by (subst sched_scan.simps) simp
    show ?thesis unfolding r using i False by auto
  qed
qed

lemma sched_scan_needed: "sched_scan k i True prio = sched_scan k i False (get_highest_proirity k)"
  by (subst (1 2) sched_scan.simps) simp


section \<open>Reachable states\<close>

text \<open>
  The steps of the kernel, in any order. The running process \<open>cur\<close> makes a call; the scheduler
  runs when no process does. A group exit is followed from the point where the group has been released,
  provided the caller is still in the table.
\<close>

inductive kern_step :: "kern \<Rightarrow> kern \<Rightarrow> bool" where
  schedule: "(\<forall>i < pool_size. pr_state (k_pool k i) \<noteq> Running) \<Longrightarrow> sched_scan k i needed prio = Some (j, k') \<Longrightarrow> kern_step k k'"
| forks: "pr_state (k_pool k cur) = Running \<Longrightarrow> fork k cur usp = Some (r, k') \<Longrightarrow> kern_step k k'"
| clones: "pr_state (k_pool k cur) = Running \<Longrightarrow> clone k cur flags stk ptid tls loc = Some (r, k') \<Longrightarrow> kern_step k k'"
| waits: "pr_state (k_pool k cur) = Running \<Longrightarrow> wait_run k cur cp addr loc = Some (r, k') \<Longrightarrow> kern_step k k'"
| exits: "pr_state (k_pool k cur) = Running \<Longrightarrow> exit_proc k cur status = Some k' \<Longrightarrow> kern_step k k'"
| exits_group: "exit_group_loop k cur {} [0..<pool_size] = Some k1 \<Longrightarrow> pr_state (k_pool k1 cur) \<noteq> Unused \<Longrightarrow>
    exit_proc k1 cur status = Some k' \<Longrightarrow> kern_step k k'"
| kills: "kill k pid sig = Some (r, k') \<Longrightarrow> kern_step k k'"
| wakes: "kern_step k (wakeup k ch)"
| sleeps: "pr_state (k_pool k cur) = Running \<Longrightarrow> kern_step k (sleep_on k cur ch)"
| resumes: "kern_step k (sleep_resume k cur)"
| yields: "pr_state (k_pool k cur) = Running \<Longrightarrow> kern_step k (yield_proc k cur)"
| slices: "pr_state (k_pool k cur) = Running \<Longrightarrow> kern_step k (snd (sche_proc k cur))"
| creates: "alloc_proc k = Some (r, k') \<Longrightarrow> kern_step k k'"

inductive kern_reach :: "kern \<Rightarrow> bool" where
  boots: "(\<forall>i < pool_size. pr_pid (k_pool k i) = 0) \<Longrightarrow> pm_init k = Some k' \<Longrightarrow> kern_reach k'"
| steps: "kern_reach k \<Longrightarrow> kern_step k k' \<Longrightarrow> kern_reach k'"

lemma Pcb_init_fields: "Pcb_init p i = Some q \<Longrightarrow> pr_state q = Unused \<and> pr_gid q = i \<and> pr_pid q = pr_pid p"
  by (auto simp: Pcb_init_def bind_eq_Some_conv)

lemma init_pool_slots:
  "init_pool k is = Some k' \<Longrightarrow>
     (\<forall>i. if i \<in> set is then pr_state (k_pool k' i) = Unused \<and> pr_gid (k_pool k' i) = i \<and> pr_pid (k_pool k' i) = pr_pid (k_pool k i)
          else k_pool k' i = k_pool k i)"
proof (induction k "is" arbitrary: k' rule: init_pool.induct)
  case (2 k j js)
  obtain p where p: "Pcb_init (k_pool k j) j = Some p" and r: "init_pool (upd k j (\<lambda>_. p)) js = Some k'"
    using 2(2) by (auto simp: bind_eq_Some_conv)
  show ?case
  proof
    fix i
    show "if i \<in> set (j # js) then pr_state (k_pool k' i) = Unused \<and> pr_gid (k_pool k' i) = i \<and> pr_pid (k_pool k' i) = pr_pid (k_pool k i)
          else k_pool k' i = k_pool k i"
      using 2(1) [OF p r] Pcb_init_fields [OF p] by (cases "i = j"; cases "i \<in> set js") (auto dest: spec [of _ i])
  qed
qed simp

lemma pool_ok_init:
  assumes "\<forall>i < pool_size. pr_pid (k_pool k i) = 0" and "pm_init k = Some k'"
  shows "pool_ok k'"
proof -
  obtain k1 where k1: "init_pool k [0..<pool_size] = Some k1" and k': "k' = k1\<lparr>k_cur_pid := 1, k_last_gid := pool_size - 1\<rparr>"
    using assms(2) by (auto simp: pm_init_def bind_eq_Some_conv)
  have "pr_state (k_pool k1 i) = Unused \<and> pr_gid (k_pool k1 i) = i \<and> pr_pid (k_pool k1 i) = 0" if "i < pool_size" for i
    using spec [OF init_pool_slots [OF k1], of i] assms(1) that by auto
  then show ?thesis unfolding k' pool_ok_def by (simp add: pool_size_def)
qed

lemma pool_ok_schedule:
  assumes ok: "pool_ok k" and n: "\<forall>i < pool_size. pr_state (k_pool k i) \<noteq> Running" and s: "sched_scan k i needed prio = Some (j, k')"
  shows "pool_ok k'"
proof -
  have "\<exists>q. sched_scan k i False q = Some (j, k')" using s sched_scan_needed by (cases needed) auto
  then obtain q where q: "sched_scan k i False q = Some (j, k')" ..
  then have "i < pool_size" by (subst (asm) sched_scan.simps) (auto split: if_splits)
  then have j: "j < pool_size" "pr_state (k_pool k j) = Runnable" "k' = upd k j (\<lambda>p. p\<lparr>pr_state := Running\<rparr>)"
    using sched_scan_fixed [of i k q] q by auto
  show ?thesis using ok n j(1,2) unfolding j(3) pool_ok_def by (auto split: if_splits)
qed

lemma pool_ok_exit_group_loop: "exit_group_loop k cp v is = Some k' \<Longrightarrow> pool_ok k \<Longrightarrow> pool_ok k'"
proof (induction k cp v "is" arbitrary: k' rule: exit_group_loop.induct)
  case (2 k cp v i "is")
  show ?case
  proof (cases "pr_state (k_pool k i) = Unused \<or> i \<in> v")
    case True
    then show ?thesis using 2 by simp
  next
    case False
    then obtain need stk k1 where s: "ancestors k cp i [i] = Some (need, stk)" "(if need then freeprocs k stk else Some k) = Some k1"
      "exit_group_loop k1 cp (v \<union> insert i ((\<lambda>q. pr_gid (k_pool k q)) ` set (butlast stk))) is = Some k'"
      using 2(3) by (auto simp: bind_eq_Some_conv Let_def)
    have "pool_ok k1" using s(2) 2(4) pool_ok_freeprocs by (auto split: if_splits)
    then show ?thesis using 2(2) [OF False s(1) refl refl s(2,3)] by simp
  qed
qed auto

lemma pool_ok_step: "kern_step k k' \<Longrightarrow> pool_ok k \<Longrightarrow> pool_ok k'"
proof (induction rule: kern_step.induct)
  case (schedule k i needed prio j k')
  then show ?case using pool_ok_schedule by blast
next
  case (forks k cur usp r k')
  then show ?case using pool_ok_fork by blast
next
  case (clones k cur flags stk ptid tls loc r k')
  then show ?case using pool_ok_clone by blast
next
  case (waits k cur cp addr loc r k')
  then show ?case using pool_ok_wait [of k cur cp addr loc r k'] by simp
next
  case (exits k cur status k')
  then show ?case using pool_ok_frame [OF _ frame_exit_proc [of k cur status k']] by simp
next
  case (exits_group k cur k1 status k')
  then show ?case using pool_ok_frame [OF _ frame_exit_proc [of k1 cur status k']] pool_ok_exit_group_loop by blast
next
  case (kills k pid sig r k')
  have "frame UNIV k k'" using kills(1) by (auto simp: kill_def same_slot_def split: if_splits intro!: frame_upd)
  then show ?case using kills(2) by (blast intro: pool_ok_frame)
next
  case (wakes k ch)
  then show ?case using frame_wakeup by (blast intro: pool_ok_frame)
next
  case (sleeps k cur ch)
  then show ?case using pool_ok_frame [OF _ frame_sleep_on [of k cur ch]] by simp
next
  case (resumes k cur)
  have "frame UNIV k (sleep_resume k cur)" unfolding sleep_resume_def by (intro frame_upd) (auto simp: same_slot_def)
  then show ?case using resumes by (blast intro: pool_ok_frame)
next
  case (yields k cur)
  then have "frame UNIV k (yield_proc k cur)" unfolding yield_proc_def by (intro frame_upd) (auto simp: same_slot_def)
  then show ?case using yields by (blast intro: pool_ok_frame)
next
  case (slices k cur)
  then have "frame UNIV k (snd (sche_proc k cur))" by (auto simp: sche_proc_def Let_def frame_def same_slot_def)
  then show ?case using slices by (blast intro: pool_ok_frame)
next
  case (creates k r k')
  then show ?case using pool_ok_alloc_proc by blast
qed

lemma pool_ok_reach: "kern_reach k \<Longrightarrow> pool_ok k"
  by (induction rule: kern_reach.induct) (auto intro: pool_ok_init pool_ok_step)

section \<open>Single calls\<close>

lemma wait_scan_spec:
  assumes "addr = 0"
  shows "wait_scan k cur cp addr loc is h =
    (case find (\<lambda>i. (cp \<le> 0 \<or> pr_pid (k_pool k i) = cp) \<and> pr_parent (k_pool k i) = Some cur \<and> pr_state (k_pool k i) = Zombie) is of
       Some z \<Rightarrow> map_option (\<lambda>k'. (Some (pr_pid (k_pool k z)), True, k')) (freeproc k z)
     | None \<Rightarrow> Some (None, h \<or> (\<exists>i \<in> set is. (cp \<le> 0 \<or> pr_pid (k_pool k i) = cp) \<and> pr_parent (k_pool k i) = Some cur), k))"
  using assms
proof (induction k cur cp addr loc "is" h rule: wait_scan.induct)
  case (2 k cur cp addr loc np nps h)
  let ?sel = "cp \<le> 0 \<or> pr_pid (k_pool k np) = cp"
  consider (skip) "\<not> ?sel" | (other) "?sel" "pr_parent (k_pool k np) \<noteq> Some cur"
    | (zombie) "?sel" "pr_parent (k_pool k np) = Some cur" "pr_state (k_pool k np) = Zombie"
    | (alive) "?sel" "pr_parent (k_pool k np) = Some cur" "pr_state (k_pool k np) \<noteq> Zombie" by blast
  then show ?case
  proof cases
    case skip
    then show ?thesis using 2(1,4) by (auto split: option.splits)
  next
    case other
    then show ?thesis using 2(3) [OF _ other(2) 2(4)] by (auto split: option.splits)
  next
    case zombie
    then show ?thesis using 2(4) by (auto simp: Let_def map_option_case split: option.splits)
  next
    case alive
    then show ?thesis using 2(2) [OF _ alive(2,3) 2(4)] by (auto split: option.splits)
  qed
qed simp

lemma dup_files_pool:
  assumes "dup_files k i np fds = Some k'" and "i \<noteq> np" and "distinct fds"
  shows "(\<forall>j. j \<noteq> np \<longrightarrow> k_pool k' j = k_pool k j) \<and> (\<exists>g. k_pool k' np = (k_pool k np)\<lparr>pr_ofile := g\<rparr>) \<and>
    (\<forall>fd. pr_ofile (k_pool k' np) fd =
       (if fd \<in> set fds \<and> pr_ofile (k_pool k i) fd \<noteq> None then pr_ofile (k_pool k i) fd else pr_ofile (k_pool k np) fd)) \<and>
    k_mem k' = k_mem k \<and> k_ticks k' = k_ticks k"
  using assms
proof (induction k i np fds arbitrary: k' rule: dup_files.induct)
  case (1 k i np)
  then have "k' = k" by simp
  moreover have "\<exists>g. k_pool k np = (k_pool k np)\<lparr>pr_ofile := g\<rparr>"
    by (rule exI [of _ "pr_ofile (k_pool k np)"]) simp
  ultimately show ?case by simp
next
  case (2 k i np fd fds)
  show ?case
  proof (cases "pr_ofile (k_pool k i) fd")
    case None
    then show ?thesis using 2(1) [OF None _ 2(4)] 2(3,5) by auto
  next
    case (Some f)
    then obtain k1 where k1: "dup_kfile k f = Some k1"
      and r: "dup_files (upd k1 np (\<lambda>p. p\<lparr>pr_ofile := (pr_ofile p)(fd := Some f)\<rparr>)) i np fds = Some k'"
      using 2(3) by (auto simp: bind_eq_Some_conv)
    have p: "k_pool k1 = k_pool k" "k_mem k1 = k_mem k" "k_ticks k1 = k_ticks k"
      using k1 by (auto simp: dup_kfile_def bind_eq_Some_conv)
    show ?thesis using 2(2) [OF Some k1 r 2(4)] 2(4,5) Some by (auto simp: p)
  qed
qed

lemma close_files_none: "(\<forall>fd. pr_ofile (k_pool k i) fd = None) \<Longrightarrow> close_files k i fds = Some k"
  by (induction fds) auto

lemma dup_files_none: "(\<forall>fd. pr_ofile (k_pool k i) fd = None) \<Longrightarrow> dup_files k i np fds = Some k"
  by (induction fds) auto

lemma drop_vmas_none: "(\<forall>j. vma_address (pr_vm (k_pool k i) j) = 0) \<Longrightarrow> drop_vmas k i js = Some k"
  by (induction js) auto

lemma init_pool_returns: "\<forall>i \<in> set is. i < pool_size \<Longrightarrow> \<exists>k'. init_pool k is = Some k'"
proof (induction "is" arbitrary: k)
  case (Cons j js)
  have "(of_nat j :: u32) < 32" using Cons(2) by (simp add: pool_size_def word_less_nat_alt unat_of_nat)
  then have "\<exists>p. Pcb_init (k_pool k j) j = Some p"
    by (simp add: Pcb_init_def kstack_vm_from_gid_def num_process_def not_le)
  then show ?case using Cons by auto
qed simp

lemma pm_init_returns: "\<exists>k'. pm_init k = Some k'"
  using init_pool_returns [of "[0..<pool_size]" k] by (auto simp: pm_init_def)

text \<open>Leaving the processor for good: the parent sleeping in \<^verbatim>\<open>wait\<close> is woken, the exit status is kept.\<close>

lemma exit_proc_outcome:
  assumes e: "exit_proc k i status = Some k'" and ok: "pool_ok k" and i: "i < pool_size"
    and q: "pr_parent (k_pool k i) = Some q" "q < pool_size" "q \<noteq> i"
    and s: "pr_state (k_pool k q) = Sleeping" "pr_chan (k_pool k q) = Some (Chan_proc q)"
  shows "pr_state (k_pool k' q) = Runnable \<and> pr_state (k_pool k' i) = Zombie \<and>
    pr_xstate (k_pool k' i) = signed_take_bit 31 (push_bit 8 status) \<and> pr_parent (k_pool k' i) = Some q"
proof -
  obtain k1 k2 where st: "k_init k \<noteq> Some i" "close_files k i [0..<max_open_files] = Some k1" "drop_vmas k1 i [0..<max_vma_num] = Some k2"
    "k' = clear_tid (upd (case pr_parent (k_pool (reparent k2 i) i) of Some q \<Rightarrow> wakeup (reparent k2 i) (Chan_proc q) | None \<Rightarrow> reparent k2 i) i
       (\<lambda>p. p\<lparr>pr_xstate := signed_take_bit 31 (push_bit 8 status), pr_state := Zombie\<rparr>)) i"
    using e by (rule exit_proc_steps)
  have f: "frame {i} k k2" using frame_close_files [OF st(2)] frame_drop_vmas [OF st(3)] by (auto intro: frame_trans)
  then have w: "woken (k_pool k q) (k_pool k2 q)" using q(3) frame_outside by blast
  have par: "pr_parent (k_pool k2 i) = Some q"
    using q(1) same_parents_close_files [OF st(2)] same_parents_drop_vmas [OF st(3)] by (simp add: same_parents_def)
  have l: "k_last_gid k2 < pool_size" "k_init k2 \<noteq> Some i" using f ok st(1) by (auto simp: frame_def pool_ok_def)
  note rp = reparent_pool [OF l(2,1)]
  have pi: "pr_parent (k_pool (reparent k2 i) i) = Some q" using par q(3) by (simp add: rp)
  have sq: "pr_state (k_pool (reparent k2 i) q) = Sleeping \<and> pr_chan (k_pool (reparent k2 i) q) = Some (Chan_proc q) \<or>
      pr_state (k_pool (reparent k2 i) q) = Runnable"
    using w s by (auto simp: rp woken_def)
  show ?thesis unfolding st(4) pi
    using sq q pi by (auto simp: clear_tid_def Let_def wakeup_pool)
qed

end
