(* ===== verification/Process_Properties.thy ===== *)
theory Process_Properties
  imports Process_Correct
begin

text \<open>
  The properties of the process table, the scheduler and the process calls, with the lemmas on
  register frames they need and the concrete states on which they are applied.
\<close>

section \<open>Register frames\<close>

lemma ld64_shift: "(\<And>j. j < 8 \<Longrightarrow> m (a + j) = m' (b + j)) \<Longrightarrow> ld64 m a = ld64 m' b"
proof -
  assume eq: "\<And>j. j < 8 \<Longrightarrow> m (a + j) = m' (b + j)"
  have "m a = m' b" "m (a + 1) = m' (b + 1)" "m (a + 2) = m' (b + 2)" "m (a + 3) = m' (b + 3)"
    "m (a + 4) = m' (b + 4)" "m (a + 5) = m' (b + 5)" "m (a + 6) = m' (b + 6)" "m (a + 7) = m' (b + 7)"
    using eq [of 0] eq [of 1] eq [of 2] eq [of 3] eq [of 4] eq [of 5] eq [of 6] eq [of 7] by simp_all
  then show ?thesis by (simp add: ld64_def)
qed

lemma copy_trap_frame_reg:
  assumes "n + 8 \<le> 288"
  shows "ld64 (copy_trap_frame m src dst) (dst + of_nat n) = ld64 m (src + of_nat n)"
proof (rule ld64_shift)
  fix j :: u64 assume j: "j < 8"
  then have l: "n + unat j < 288" using assms by (simp add: word_less_nat_alt)
  have e: "x + of_nat n + j = x + of_nat (n + unat j)" for x :: u64 by (simp add: add.assoc)
  have "unat (dst + of_nat (n + unat j) - dst) = n + unat j" using l by (simp add: unat_of_nat del: of_nat_add)
  then show "copy_trap_frame m src dst (dst + of_nat n + j) = m (src + of_nat n + j)"
    unfolding e copy_trap_frame_def store_bytes_def using l by (simp add: load_bytes_def del: of_nat_add)
qed

lemma inherit_regs_mem:
  assumes al: "unat (pr_trapframe (k_pool k np)) mod 8 = 0" and n: "n mod 8 = 0" "n < 288"
  shows "ld64 (k_mem (inherit_regs k cur np usp)) (pr_trapframe (k_pool k np) + of_nat n) =
    (if n = 112 then 0 else if n = 48 \<and> usp \<noteq> 0 then usp
     else ld64 (k_mem k) (pr_trapframe (k_pool k cur) + of_nat n))"
proof -
  let ?tf = "pr_trapframe (k_pool k np)"
  have a8: "unat (?tf + of_nat l) mod 8 = 0" if "l mod 8 = 0" "l < 288" for l
    using al that by (intro unat_add_mod8) (simp_all add: unat_of_nat)
  have ne: "?tf + of_nat l = ?tf + of_nat n \<longleftrightarrow> l = n" if "l < 288" for l
  proof -
    have "unat (of_nat l :: u64) = l" "unat (of_nat n :: u64) = n" using that n(2) by (simp_all add: unat_of_nat)
    then have "(of_nat l :: u64) = of_nat n \<longleftrightarrow> l = n" by metis
    then show ?thesis by simp
  qed
  have s: "ld64 (st64 m (?tf + of_nat l) v) (?tf + of_nat n) = (if l = n then v else ld64 m (?tf + of_nat n))"
    if "l mod 8 = 0" "l < 288" for m l v
    using ld64_st64 [OF a8 [OF that] a8 [OF n]] ne [OF that(2)] by simp
  have n8: "n + 8 \<le> 288" using n by presburger
  have "inherit_regs k cur np usp = k\<lparr>k_mem := (let m = st64 (copy_trap_frame (k_mem k) (pr_trapframe (k_pool k cur)) ?tf) (?tf + of_nat 112) 0
      in if usp \<noteq> 0 then st64 m (?tf + of_nat 48) usp else m)\<rparr>"
    by (simp add: inherit_regs_def Let_def set_trap_frame_return_value_def set_trap_frame_user_sp_def)
  then show ?thesis using s [of 112] s [of 48] copy_trap_frame_reg [OF n8] by (auto simp: Let_def)
qed

section \<open>Properties\<close>

text \<open>
  process numbers. In every state the kernel reaches from boot by any sequence of forks, clones, waits,
  exits, group exits, kills, wake-ups, sleeps, yields, time slices and scheduling decisions, two
  slots in use never share a process number, exactly the slots in use have a positive one, and at most
  one process is running.
\<close>

theorem process_table_consistent:
  assumes "kern_reach k" and "i < pool_size" and "j < pool_size"
  shows "(pr_state (k_pool k i) \<noteq> Unused \<longleftrightarrow> 0 < pr_pid (k_pool k i)) \<and>
    (pr_state (k_pool k i) \<noteq> Unused \<and> pr_pid (k_pool k i) = pr_pid (k_pool k j) \<longrightarrow> i = j) \<and>
    (pr_state (k_pool k i) = Running \<and> pr_state (k_pool k j) = Running \<longrightarrow> i = j)"
  using pool_ok_reach [OF assms(1)] assms(2,3) unfolding pool_ok_def by (auto split: if_splits)

definition idle_pcb :: pcb where
  "idle_pcb = \<lparr>pr_gid = 0, pr_secs = \<lambda>_. (0, 0), pr_sec_cnt = 0, pr_cwd = Some 0, pr_cwd_name = ''/'', pr_state = Unused,
     pr_chan = None, pr_killed = False, pr_xstate = 0, pr_pid = 0, pr_parent = None, pr_kstack = 0, pr_sz = 0, pr_pt = PageTable,
     pr_trapframe = 0, pr_context = \<lparr>ctx_ra = 0, ctx_sp = 0, ctx_saved = []\<rparr>, pr_ofile = \<lambda>_. None, pr_name = [], pr_slot = 0,
     pr_priority = 0, pr_shm = 0, pr_shmva = \<lambda>_. 0, pr_shmkeymask = 0, pr_mqmask = 0, pr_start_tick = 0, pr_user_ticks = 0,
     pr_heap_start = 0, pr_heap_ptr = 0,
     pr_vm = \<lambda>_. \<lparr>vma_used = False, vma_address = 0, vma_length = 0, vma_prot = 0, vma_flags = 0, vma_file = None\<rparr>,
     pr_clear_child_tid = 0, pr_robust_list = 0, pr_rlim = \<lambda>_. (0, 0), pr_sigmask = 0, pr_uid = 0, pr_ggid = 0, pr_tid = 0, pr_tgid = 0\<rparr>"

definition demo_buddy :: buddy where
  "demo_buddy = \<lparr>b_lock = False, b_mem_addr = 0, b_mem_size = 0, buddy_nodes = 0, buddy_max_order = 0, area_desc = [],
     alloc_infos = 0, infos_size = 0, alloc_size = 0\<rparr>"

definition demo_kern :: "(nat \<Rightarrow> pcb) \<Rightarrow> kern" where
  "demo_kern pool = \<lparr>k_pool = pool, k_cur_pid = 3, k_last_gid = 1, k_init = Some 0, k_buddy = demo_buddy, k_mem = \<lambda>_. 0,
     k_fs = demo_fstate, k_ticks = 5, k_tramp = 0, k_fork_ret = 0\<rparr>"

theorem process_table_consistent_witness:
  "\<exists>k. kern_reach k \<and> (pr_state (k_pool k 0) \<noteq> Unused \<longleftrightarrow> 0 < pr_pid (k_pool k 0)) \<and> pool_size = 32"
proof -
  obtain k where k: "pm_init (demo_kern (\<lambda>_. idle_pcb)) = Some k" using pm_init_returns by blast
  have "kern_reach k" by (rule boots [OF _ k]) (simp add: demo_kern_def idle_pcb_def)
  with process_table_consistent [OF this, of 0 0] show ?thesis by (auto simp: pool_size_def)
qed




text \<open>
  waking. \<^verbatim>\<open>wakeup\<close> makes exactly the processes runnable that sleep on the given channel; every
  other process, and everything outside the process table, stays as it is.
\<close>

theorem wakeup_exactly_sleepers:
  "k_pool (wakeup k ch) i =
     (if i < 32 \<and> pr_state (k_pool k i) = Sleeping \<and> pr_chan (k_pool k i) = Some ch
      then (k_pool k i)\<lparr>pr_state := Runnable\<rparr> else k_pool k i) \<and>
   k_fs (wakeup k ch) = k_fs k \<and> k_mem (wakeup k ch) = k_mem k \<and> k_cur_pid (wakeup k ch) = k_cur_pid k"
  by (simp add: wakeup_pool pool_size_def)

text \<open>
  C27: waiting. A wait without status address, seen over one pass of the loop: with a dead child (of the
  given number, if one is given) it releases the first such slot and returns its number; otherwise it
  returns \<^verbatim>\<open>-ECHILD\<close> if there is no such child at all or the caller is killed, and goes to
  sleep on itself if there is one.
\<close>

theorem wait_outcomes:
  "wait_run k cur cp 0 loc =
     (let kid = (\<lambda>i. (cp \<le> 0 \<or> pr_pid (k_pool k i) = cp) \<and> pr_parent (k_pool k i) = Some cur)
      in case find (\<lambda>i. kid i \<and> pr_state (k_pool k i) = Zombie) [0..<32] of
           Some z \<Rightarrow> map_option (\<lambda>k'. (Some (pr_pid (k_pool k z)), k')) (freeproc k z)
         | None \<Rightarrow> if (\<exists>i \<in> {0..<32}. kid i) \<and> \<not> pr_killed (k_pool k cur)
                    then Some (None, sleep_on k cur (Chan_proc cur)) else Some (Some (- 10), k))"
  unfolding wait_run_def wait_scan_spec [OF refl]
  by (auto simp: pool_size_def ECHILD_def Let_def map_option_case split: option.splits)

theorem wait_outcomes_witness:
  "wait_run (demo_kern (\<lambda>_. idle_pcb)) 1 0 0 0 = Some (Some (- 10), demo_kern (\<lambda>_. idle_pcb))"
proof -
  have "find (\<lambda>i. False) xs = None" for xs :: "nat list" by (induction xs) simp_all
  then show ?thesis using wait_outcomes [of "demo_kern (\<lambda>_. idle_pcb)" 1 0 0] by (simp add: demo_kern_def idle_pcb_def)
qed

text \<open>
  C10: no lost wake-up between \<^verbatim>\<open>exit\<close> and \<^verbatim>\<open>wait\<close>. When a process of a consistent table exits while its
  parent sleeps in \<^verbatim>\<open>wait\<close>, the parent becomes runnable, the child stays as a zombie of the same
  parent with its status shifted into the exit code, and the parent's next pass for that child
  releases it and returns its number.
\<close>

theorem exit_then_wait:
  assumes "exit_proc k i status = Some k'" and "pool_ok k" and "i < pool_size" and "pr_state (k_pool k i) \<noteq> Unused"
    and "pr_parent (k_pool k i) = Some q" and "q < pool_size" and "q \<noteq> i"
    and "pr_state (k_pool k q) = Sleeping" and "pr_chan (k_pool k q) = Some (Chan_proc q)"
  shows "pr_state (k_pool k' q) = Runnable \<and> pr_state (k_pool k' i) = Zombie \<and>
    pr_xstate (k_pool k' i) = signed_take_bit 31 (push_bit 8 status) \<and>
    wait_run k' q (pr_pid (k_pool k i)) 0 loc = map_option (\<lambda>k2. (Some (pr_pid (k_pool k i)), k2)) (freeproc k' i)"
proof -
  note o = exit_proc_outcome [OF assms(1-3,5-9)]
  have f: "frame UNIV k k'" using frame_exit_proc [OF assms(1,4)] .
  then have ok: "pool_ok k'" using assms(2) pool_ok_frame by blast
  have pid: "pr_pid (k_pool k' i) = pr_pid (k_pool k i)" using frame_slot [OF f, of i] by (simp add: same_slot_def)
  have pos: "0 < pr_pid (k_pool k i)" using assms(2-4) by (auto simp: pool_ok_def)
  have uniq: "pr_pid (k_pool k' l) = pr_pid (k_pool k i) \<Longrightarrow> l < pool_size \<Longrightarrow> l = i" for l
    using ok o assms(3) pid unfolding pool_ok_def by (metis proc_state.distinct(9))
  have first: "j < i \<Longrightarrow> pr_pid (k_pool k' j) \<noteq> pr_pid (k_pool k i)" for j using uniq [of j] assms(3) by auto
  have "find (\<lambda>l. (pr_pid (k_pool k i) \<le> 0 \<or> pr_pid (k_pool k' l) = pr_pid (k_pool k i)) \<and>
      pr_parent (k_pool k' l) = Some q \<and> pr_state (k_pool k' l) = Zombie) [0..<pool_size] = Some i"
    unfolding find_Some_iff using assms(3) o pid pos first by (intro exI [of _ i]) auto
  then show ?thesis using o pid unfolding wait_run_def wait_scan_spec [OF refl]
    by (cases "freeproc k' i") simp_all
qed

definition demo_family :: "nat \<Rightarrow> pcb" where
  "demo_family i =
     (if i = 1 then idle_pcb\<lparr>pr_gid := 1, pr_state := Sleeping, pr_pid := 1, pr_chan := Some (Chan_proc 1)\<rparr>
      else if i = 2 then idle_pcb\<lparr>pr_gid := 2, pr_state := Running, pr_pid := 2, pr_parent := Some 1\<rparr>
      else idle_pcb\<lparr>pr_gid := i\<rparr>)"

theorem exit_then_wait_witness:
  "\<exists>k'. exit_proc (demo_kern demo_family) 2 3 = Some k' \<and> pr_state (k_pool k' 1) = Runnable \<and>
    pr_state (k_pool k' 2) = Zombie \<and> pr_xstate (k_pool k' 2) = 768"
proof -
  let ?k = "demo_kern demo_family"
  have "close_files ?k 2 fds = Some ?k" "drop_vmas ?k 2 js = Some ?k" for fds js
    by (rule close_files_none drop_vmas_none, simp add: demo_kern_def demo_family_def idle_pcb_def)+
  then obtain k' where k': "exit_proc ?k 2 3 = Some k'" by (simp add: exit_proc_def demo_kern_def Let_def)
  have "pool_ok ?k" unfolding pool_ok_def by (simp add: demo_kern_def demo_family_def idle_pcb_def pool_size_def)
  then have "pr_state (k_pool k' 1) = Runnable \<and> pr_state (k_pool k' 2) = Zombie \<and>
    pr_xstate (k_pool k' 2) = signed_take_bit 31 (push_bit 8 3) \<and>
    wait_run k' 1 (pr_pid (k_pool ?k 2)) 0 0 = map_option (\<lambda>k2. (Some (pr_pid (k_pool ?k 2)), k2)) (freeproc k' 2)"
    by (intro exit_then_wait [OF k']) (simp_all add: demo_kern_def demo_family_def idle_pcb_def pool_size_def)
  moreover have "signed_take_bit 31 (push_bit 8 3) = (768 :: int)" by (simp add: push_bit_eq_mult signed_take_bit_int_eq_self)
  ultimately show ?thesis using k' by auto
qed

text \<open>
  children of an exiting process. \<^verbatim>\<open>reparent\<close> hands every child of the given process to the init process
  and touches no other slot.
\<close>

theorem reparent_hands_over:
  assumes "k_init k \<noteq> Some p" and "k_last_gid k < pool_size"
  shows "k_pool (reparent k p) i =
    (if i < pool_size \<and> pr_parent (k_pool k i) = Some p then (k_pool k i)\<lparr>pr_parent := k_init k\<rparr> else k_pool k i)"
  using assms by (rule reparent_pool)

theorem reparent_hands_over_witness:
  "pr_parent (k_pool (reparent (demo_kern demo_family) 1) 2) = Some 0"
  using reparent_hands_over [of "demo_kern demo_family" 1 2] by (simp add: demo_kern_def demo_family_def pool_size_def)

text \<open>
  C26: what a child inherits from \<^verbatim>\<open>fork\<close> or \<^verbatim>\<open>clone\<close>. The call returns the child's number; the child is
  runnable, has the caller as parent and shares its open files and working directory; its saved
  registers are the caller's, except that the result register is 0 and the stack pointer is the
  given one, if any; the caller's slot is unchanged.
\<close>

theorem child_inherits:
  assumes i: "inherit k cur np usp = Some (r, k')" and ne: "cur \<noteq> np" and al: "unat (pr_trapframe (k_pool k np)) mod 8 = 0"
  shows "r = pr_pid (k_pool k np) \<and> pr_state (k_pool k' np) = Runnable \<and> pr_parent (k_pool k' np) = Some cur \<and>
    pr_cwd (k_pool k' np) = pr_cwd (k_pool k cur) \<and> k_pool k' cur = k_pool k cur \<and>
    (\<forall>fd f. fd < 1024 \<and> pr_ofile (k_pool k cur) fd = Some f \<longrightarrow> pr_ofile (k_pool k' np) fd = Some f) \<and>
    (\<forall>n < 288. n mod 8 = 0 \<longrightarrow> ld64 (k_mem k') (pr_trapframe (k_pool k np) + of_nat n) =
       (if n = 112 then 0 else if n = 48 \<and> usp \<noteq> 0 then usp else ld64 (k_mem k) (pr_trapframe (k_pool k cur) + of_nat n)))"
proof -
  obtain k1 k2 where s: "dup_files (inherit_regs k cur np usp) cur np [0..<max_open_files] = Some k1"
    "inherit_cwd k1 cur np = Some k2" "r = pr_pid (k_pool k2 np)" "k' = start_child k2 cur np"
    using i by (rule inherit_steps)
  note d = dup_files_pool [OF s(1) ne distinct_upt]
  obtain dd where c: "pr_cwd (k_pool k1 cur) = Some dd"
    "k_pool k2 = (k_pool k1)(np := (k_pool k1 np)\<lparr>pr_cwd := Some dd, pr_cwd_name := pr_cwd_name (k_pool k1 cur), pr_name := pr_name (k_pool k1 cur)\<rparr>)"
    using s(2) by (rule inherit_cwd_pool)
  obtain g where g: "k_pool k1 np = (k_pool k np)\<lparr>pr_ofile := g\<rparr>" using d by auto
  have cur: "k_pool k1 cur = k_pool k cur" using d ne by simp
  have m: "k_mem k' = k_mem (inherit_regs k cur np usp)"
    using s(2,4) d by (auto simp: start_child_def inherit_cwd_def bind_eq_Some_conv Let_def)
  have 1: "r = pr_pid (k_pool k np)" "pr_state (k_pool k' np) = Runnable" "pr_parent (k_pool k' np) = Some cur"
    using s(3,4) c g by (simp_all add: start_child_def)
  have 2: "pr_cwd (k_pool k' np) = pr_cwd (k_pool k cur)" "k_pool k' cur = k_pool k cur"
    using s(4) c cur ne by (simp_all add: start_child_def)
  have 3: "pr_ofile (k_pool k' np) fd = Some f" if "fd < 1024" "pr_ofile (k_pool k cur) fd = Some f" for fd f
    using s(4) c d that by (simp add: start_child_def max_open_files_def)
  have 4: "\<forall>n < 288. n mod 8 = 0 \<longrightarrow> ld64 (k_mem k') (pr_trapframe (k_pool k np) + of_nat n) =
       (if n = 112 then 0 else if n = 48 \<and> usp \<noteq> 0 then usp else ld64 (k_mem k) (pr_trapframe (k_pool k cur) + of_nat n))"
    unfolding m using inherit_regs_mem [OF al] by simp
  show ?thesis by (intro conjI 1 2 4 allI impI) (elim conjE, rule 3)
qed

theorem child_inherits_witness:
  "\<exists>k'. inherit (demo_kern demo_family) 2 1 0x5000 = Some (1, k') \<and> pr_parent (k_pool k' 1) = Some 2 \<and>
    ld64 (k_mem k') 48 = 0x5000 \<and> ld64 (k_mem k') 112 = 0"
proof -
  let ?k = "demo_kern demo_family"
  have "dup_files (inherit_regs ?k 2 1 0x5000) 2 1 fds = Some (inherit_regs ?k 2 1 0x5000)" for fds
    by (rule dup_files_none) (simp add: demo_kern_def demo_family_def idle_pcb_def)
  then obtain r k' where k': "inherit ?k 2 1 0x5000 = Some (r, k')"
    by (simp add: inherit_def inherit_cwd_def demo_kern_def demo_family_def idle_pcb_def Let_def)
  have tf: "pr_trapframe (k_pool ?k 1) = 0" "pr_pid (k_pool ?k 1) = 1" by (simp_all add: demo_kern_def demo_family_def idle_pcb_def)
  have al: "unat (pr_trapframe (k_pool ?k 1)) mod 8 = 0" unfolding tf by simp
  note c = child_inherits [OF k' _ al, simplified tf, simplified]
  have reg: "\<forall>n < 288. n mod 8 = 0 \<longrightarrow> ld64 (k_mem k') (of_nat n) = (if n = 112 then 0 else if n = 48 then 0x5000
      else ld64 (k_mem ?k) (pr_trapframe (k_pool ?k 2) + of_nat n))" using c by simp
  have "ld64 (k_mem k') 48 = 0x5000" using spec [OF reg, of 48] by simp
  moreover have "ld64 (k_mem k') 112 = 0" using spec [OF reg, of 112] by simp
  ultimately show ?thesis using c k' by auto
qed

text \<open>
  C40: \<^verbatim>\<open>kill\<close> takes a process number for a slot number: it marks the process in the slot of that number,
  whatever its process number is, and with a number outside the pool it leaves the table.
\<close>

theorem kill_uses_slot_number:
  "kill k pid 15 =
     (if 0 \<le> pid \<and> pid < 32 then Some (0, upd k (nat pid) (\<lambda>p. p\<lparr>pr_killed := True\<rparr>)) else None)"
  by (simp add: kill_def pool_size_def)

text \<open>
  a thread without shared memory is refused only after its slot has been taken. \<^verbatim>\<open>clone\<close> with
  \<^verbatim>\<open>CLONE_THREAD\<close> but not \<^verbatim>\<open>CLONE_VM\<close> returns -1 and leaves the slot it allocated in the state
  \<^verbatim>\<open>used\<close>, with a process number and a trap frame page, for good.
\<close>

theorem clone_without_vm_leaks:
  assumes "alloc_thread k cur = Some (Some np, k1)" and "flags AND CLONE_THREAD \<noteq> 0" and "flags AND CLONE_VM = 0"
  shows "clone k cur flags stk ptid tls loc = Some (- 1, k1) \<and> pr_state (k_pool k np) = Unused \<and>
    pr_state (k_pool k1 np) = Used \<and> pr_pid (k_pool k1 np) = k_cur_pid k \<and> pr_trapframe (k_pool k1 np) \<noteq> 0"
  using alloc_thread_cases [OF assms(1)] assms by (auto simp: clone_def fresh_slot_def Let_def)

theorem clone_without_vm_leaks_witness:
  "\<exists>k k1 np. clone k 2 0x10000 0 0 0 0 = Some (- 1, k1) \<and> pr_state (k_pool k np) = Unused \<and> pr_state (k_pool k1 np) = Used"
proof -
  obtain b m where b: "buddy_inv b m (init_free 0x80300000 63 64)" "\<not> b_lock b"
    using BuddyAllocator_case [of "0x80300000" "0x40000" "0x80200000" "\<lambda>_. 0"] by auto
  let ?F = "init_free 0x80300000 63 64"
  have o: "order_of 1 = Some 0" unfolding order_of_def by (subst order_loop.simps, simp add: word_le_nat_alt)+
  have F0: "?F 0 = [0x80300000]" by (simp add: init_free_def)
  have "[0..<Suc (nat (buddy_max_order b))] = 0 # [1..<Suc (nat (buddy_max_order b))]" by (simp add: upt_rec)
  then have "alloc_spec ?F (nat (buddy_max_order b)) 0 \<noteq> None" using F0 by (simp add: alloc_spec_def del: upt_Suc)
  then obtain pg F' where "alloc_spec ?F (nat (buddy_max_order b)) 0 = Some (pg, F')" by auto
  then obtain b' m' where a: "alloc_pages b m 1 = Some (pg, b', m')" "pg \<noteq> 0" using alloc_pages_case [OF b _ o] by auto
  let ?k = "(demo_kern demo_family)\<lparr>k_buddy := b, k_mem := m\<rparr>"
  have "pr_state (k_pool ?k 3) = Unused" "3 \<in> set (pool_order ?k)"
    using pool_order_all [of ?k] by (simp_all add: demo_kern_def demo_family_def idle_pcb_def pool_size_def)
  then obtain np where np: "find (\<lambda>i. pr_state (k_pool ?k i) = Unused) (pool_order ?k) = Some np"
    by (cases "find (\<lambda>i. pr_state (k_pool ?k i) = Unused) (pool_order ?k)") (auto simp: find_None_iff)
  have "\<exists>k1. alloc_thread ?k 2 = Some (Some np, k1)"
    using np a unfolding alloc_thread_def
    by (simp add: alloc_trapframe_def k_alloc_page_def pmm_alloc_page_def alloc_pid_def Let_def)
  then obtain k1 where k1: "alloc_thread ?k 2 = Some (Some np, k1)" by blast
  have "(0x10000 :: u32) AND CLONE_THREAD \<noteq> 0" "(0x10000 :: u32) AND CLONE_VM = 0"
    by (simp_all add: CLONE_THREAD_def CLONE_VM_def)
  from clone_without_vm_leaks [OF k1 this, of 0 0 0 0] show ?thesis by blast
qed

text \<open>
  C25: the result of \<^verbatim>\<open>fork\<close>. If the call returns, it either reports a negative number, and every process
  of the table is still there with its number and no process more; or it returns the next process
  number, and exactly one slot that was unused holds a runnable child of the caller with it,
  while every other slot is as before up to sleepers that were woken.
\<close>

theorem fork_outcomes:
  assumes f: "fork k cur usp = Some (r, k')" and ok: "pool_ok k"
  shows "(r < 0 \<and> (\<forall>i < 32. pr_pid (k_pool k' i) = pr_pid (k_pool k i))) \<or>
    (r = k_cur_pid k \<and> (\<exists>np < 32. pr_state (k_pool k np) = Unused \<and> pr_pid (k_pool k' np) = r \<and>
       pr_state (k_pool k' np) = Runnable \<and> pr_parent (k_pool k' np) = Some cur \<and>
       (\<forall>i. i \<noteq> np \<longrightarrow> woken (k_pool k i) (k_pool k' i))))"
  using f
proof (cases rule: fork_cases)
  case full
  have u: "pr_pid (k_pool k i) = 0" if "i < 32" "pr_state (k_pool k i) = Unused" for i
    using ok that by (auto simp: pool_ok_def pool_size_def)
  from alloc_proc_cases [OF full(1)] have "pr_pid (k_pool k' i) = pr_pid (k_pool k i)" if "i < 32" for i
  proof (elim disjE exE conjE)
    fix j assume j: "pr_state (k_pool k j) = Unused" "frame {j} (take_back k j) k'"
    then show ?thesis using frame_slot [OF j(2), of i] u [OF that] by (auto simp: take_back_def same_slot_def vacate_def)
  qed simp_all
  then show ?thesis using full(2) by simp
next
  case (failed np k1 k2)
  have np: "np < 32" "pr_state (k_pool k np) = Unused" "fresh_slot k np (k_cur_pid k) k1"
    using alloc_proc_cases [OF failed(1)] by (auto simp: pool_size_def)
  then have z: "pr_pid (k_pool k np) = 0" using ok by (auto simp: pool_ok_def pool_size_def)
  have "pr_pid (k_pool k' i) = pr_pid (k_pool k i)" for i
    using frame_slot [OF freeproc_frame [OF failed(3)], of i] frame_slot [OF failed(2), of i] np(3) z
    by (cases "i = np") (auto simp: same_slot_def vacate_def fresh_slot_def)
  then show ?thesis using failed(4) by simp
next
  case (child np k1 k2)
  have np: "np < 32" "pr_state (k_pool k np) = Unused" "fresh_slot k np (k_cur_pid k) k1"
    using alloc_proc_cases [OF child(1)] by (auto simp: pool_size_def)
  note fc = fork_copied_frame [OF child(2)]
  have s1: "pr_state (k_pool k1 np) = Used" "pr_pid (k_pool k1 np) = k_cur_pid k" using np(3) by (auto simp: fresh_slot_def Let_def)
  then have s2: "pr_state (k_pool k2 np) \<noteq> Unused" "pr_pid (k_pool k2 np) = k_cur_pid k"
    using frame_slot [OF fc, of np] by (auto simp: same_slot_def)
  note i = frame_inherit [OF child(3) s2(1)]
  have "pr_pid (k_pool k' np) = k_cur_pid k" using i s2 frame_slot [of "{np}" k2 k' np] by (simp add: same_slot_def)
  moreover have "woken (k_pool k j) (k_pool k' j)" if "j \<noteq> np" for j
    using woken_trans [OF frame_outside [OF fc] frame_outside [of "{np}" k2 k' j]] i that np(3) by (simp add: fresh_slot_def)
  ultimately show ?thesis using i s2 np by auto
qed

theorem fork_outcomes_witness:
  "\<exists>k. fork k 0 0 = Some (- 1, k) \<and> pool_ok k \<and> pr_pid (k_pool k 7) = 8"
proof -
  let ?k = "(demo_kern (\<lambda>i. idle_pcb\<lparr>pr_gid := i, pr_state := Runnable, pr_pid := int i + 1\<rparr>))\<lparr>k_cur_pid := 33\<rparr>"
  have "find (\<lambda>i. False) xs = None" for xs :: "nat list" by (induction xs) simp_all
  then have f: "fork ?k 0 0 = Some (- 1, ?k)" by (simp add: fork_def alloc_proc_def demo_kern_def)
  have ok: "pool_ok ?k" by (auto simp: pool_ok_def demo_kern_def pool_size_def)
  have "(- 1 :: int) = 33 \<longrightarrow> False" by simp
  with fork_outcomes [OF f ok] f ok show ?thesis by (intro exI [of _ ?k]) (auto simp: demo_kern_def)
qed

end
