(* ===== verification/Proc_Calls.thy ===== *)
theory Proc_Calls
  imports Process_Properties
begin

text \<open>
  The calls of \<^verbatim>\<open>kernel/pm/process_manager.cc\<close> that act on the running process: descriptors,
  pipes, opening and creating files, the heap and memory mappings, the working directory, user and
  group numbers, resource limits and times. \<open>i\<close> is the slot of the running process. The list of
  unlinked names of \<^verbatim>\<open>fs::k_file_table\<close> is passed along where it is used.
\<close>

section \<open>Descriptors\<close>

definition set_fd :: "kern \<Rightarrow> nat \<Rightarrow> nat \<Rightarrow> nat option \<Rightarrow> kern" where
  "set_fd k i fd f = upd k i (\<lambda>p. p\<lparr>pr_ofile := (pr_ofile p)(fd := f)\<rparr>)"

definition alloc_fd :: "kern \<Rightarrow> nat \<Rightarrow> nat \<Rightarrow> int \<times> kern" where
  "alloc_fd k i f =
     (case find (\<lambda>fd. pr_ofile (k_pool k i) fd = None) [0..<max_open_files] of
        Some fd \<Rightarrow> (int fd, set_fd k i fd (Some f))
      | None \<Rightarrow> (- 1, k))"

definition alloc_fd_at :: "kern \<Rightarrow> nat \<Rightarrow> nat option \<Rightarrow> int \<Rightarrow> int \<times> kern" where
  "alloc_fd_at k i f fd =
     (if fd < 0 \<or> fd \<ge> int max_open_files \<or> f = None then (- 1, k)
      else if pr_ofile (k_pool k i) (nat fd) \<noteq> None then (- 1, k)
      else (fd, set_fd k i (nat fd) f))"

definition get_open_file :: "kern \<Rightarrow> nat \<Rightarrow> int \<Rightarrow> nat option" where
  "get_open_file k i fd =
     (if fd < 0 \<or> fd \<ge> int max_open_files then None else pr_ofile (k_pool k i) (nat fd))"

definition close_fd :: "kern \<Rightarrow> nat \<Rightarrow> int \<Rightarrow> (int \<times> kern) option" where
  "close_fd k i fd =
     (if fd < 0 \<or> fd \<ge> int max_open_files then Some (- 1, k)
      else case pr_ofile (k_pool k i) (nat fd) of
        None \<Rightarrow> Some (0, k)
      | Some f \<Rightarrow> do { k \<leftarrow> free_kfile k f; Some (0, set_fd k i (nat fd) None) })"

section \<open>Pipes\<close>

definition PipeBuffer :: pipe_buffer where
  "PipeBuffer = \<lparr>pb_buf = replicate PIPE_BUF_SIZE 0, pb_head = 0, pb_tail = 0, pb_size = 0\<rparr>"

text \<open>\<^verbatim>\<open>new Pipe()\<close> and \<^verbatim>\<open>Pipe::alloc\<close>: a pipe with a file object for either end.\<close>

definition new_pipe_files :: "fstate \<Rightarrow> (nat \<times> nat \<times> fstate) option" where
  "new_pipe_files st =
     do {
       let p = fs_next st;
       let st = st\<lparr>fs_pipes := (fs_pipes st)(p := Some (pipe_alloc (Pipe PipeBuffer))), fs_next := Suc p\<rparr>;
       (rf, st) \<leftarrow> new_file st (PipeFile p False) \<lparr>filetype = FT_PIPE, fa_value = 0x1f9\<rparr> 0;
       (wf, st) \<leftarrow> new_file st (PipeFile p True) \<lparr>filetype = FT_PIPE, fa_value = 0x1fa\<rparr> 0;
       Some (rf, wf, st)
     }"

text \<open>The two descriptors, or the value \<open>- 1\<close>.\<close>

definition pipe_call :: "kern \<Rightarrow> nat \<Rightarrow> ((nat \<times> nat) option \<times> kern) option" where
  "pipe_call k i =
     do {
       (rf, wf, st) \<leftarrow> new_pipe_files (k_fs k);
       let k = k\<lparr>k_fs := st\<rparr>;
       let (fd0, k) = alloc_fd k i rf;
       let (fd1, k) = (if fd0 < 0 then (- 1, k) else alloc_fd k i wf);
       if fd0 < 0 \<or> fd1 < 0 then do {
         let k = (if fd0 \<ge> 0 then set_fd k i (nat fd0) None else k);
         k \<leftarrow> free_kfile k rf;
         k \<leftarrow> free_kfile k wf;
         Some (None, k)
       }
       else Some (Some (nat fd0, nat fd1), set_fd (set_fd k i (nat fd0) (Some rf)) i (nat fd1) (Some wf))
     }"

section \<open>Heap and mappings\<close>

definition k_vm_alloc :: "kern \<Rightarrow> nat \<Rightarrow> u64 \<Rightarrow> u64 \<Rightarrow> (u64 \<times> kern) option" where
  "k_vm_alloc k i old_sz new_sz =
     do {
       (r, bm) \<leftarrow> vm_alloc (k_buddy k) (k_mem k) (pr_pt (k_pool k i)) old_sz new_sz False False True;
       Some (r, set_mm k bm)
     }"

definition k_vm_dealloc :: "kern \<Rightarrow> nat \<Rightarrow> u64 \<Rightarrow> u64 \<Rightarrow> (u64 \<times> kern) option" where
  "k_vm_dealloc k i old_sz new_sz =
     do {
       (r, bm) \<leftarrow> vm_dealloc (k_buddy k) (k_mem k) (pr_pt (k_pool k i)) old_sz new_sz;
       Some (r, set_mm k bm)
     }"

text \<open>
  \<open>n\<close> and the result are \<^verbatim>\<open>long\<close>. The result of \<^verbatim>\<open>vm_dealloc\<close> is unsigned, so the test for a
  negative one never succeeds.
\<close>

definition resize_heap :: "kern \<Rightarrow> nat \<Rightarrow> u64 \<Rightarrow> u64 \<Rightarrow> (bool \<times> kern) option" where
  "resize_heap k i oldhp newhp =
     (let differ = sint newhp - sint oldhp
      in if differ < 0 then do { (_, k) \<leftarrow> k_vm_dealloc k i oldhp newhp; Some (True, k) }
         else if differ > 0 then do { (r, k) \<leftarrow> k_vm_alloc k i oldhp newhp; Some (r \<noteq> 0, k) }
         else Some (True, k))"

definition brk :: "kern \<Rightarrow> nat \<Rightarrow> int \<Rightarrow> (int \<times> kern) option" where
  "brk k i n =
     (if n \<le> 0 then Some (sint (pr_heap_ptr (k_pool k i)), k)
      else do {
        let newhp = word_of_int n;
        (ok, k) \<leftarrow> resize_heap k i (pr_heap_ptr (k_pool k i)) newhp;
        if \<not> ok then Some (- 1, k)
        else Some (sint newhp, upd k i (\<lambda>p. p\<lparr>pr_heap_ptr := newhp\<rparr>))
      })"

definition set_vma :: "kern \<Rightarrow> nat \<Rightarrow> nat \<Rightarrow> (vma \<Rightarrow> vma) \<Rightarrow> kern" where
  "set_vma k i j g = upd k i (\<lambda>p. p\<lparr>pr_vm := (pr_vm p)(j := g (pr_vm p j))\<rparr>)"

definition munmap :: "kern \<Rightarrow> nat \<Rightarrow> u64 \<Rightarrow> u64 \<Rightarrow> (int \<times> kern) option" where
  "munmap k i va0 len0 =
     (let va = page_round_down va0; len = page_round_up len0; npages = len div page_size
      in case find (\<lambda>j. va = vma_address (pr_vm (k_pool k i) j)) [0..<max_vma_num] of
           None \<Rightarrow> Some (- 1, k)
         | Some j \<Rightarrow> do {
             let k = set_vma k i j (\<lambda>a. a\<lparr>vma_used := False\<rparr>);
             let a = pr_vm (k_pool k i) j;
             k \<leftarrow> (case vma_file a of
                     Some f \<Rightarrow> if vma_flags a = MAP_SHARED \<and> vma_prot a AND PROT_WRITE \<noteq> 0
                                then write_back k i f va (va + len) 0 else Some k
                   | None \<Rightarrow> Some k);
             k \<leftarrow> (case vma_file a of Some f \<Rightarrow> free_kfile k f | None \<Rightarrow> Some k);
             let k = set_vma k i j (\<lambda>a. a\<lparr>vma_address := 0\<rparr>);
             k \<leftarrow> k_unmap k i va npages True;
             Some (0, k)
           })"

text \<open>
  The first \<open>fsz\<close> bytes of a file, read into a kernel buffer at \<open>buf\<close> and copied out to \<open>fst\<close>.
\<close>

definition fill_mapping :: "kern \<Rightarrow> nat \<Rightarrow> nat \<Rightarrow> u64 \<Rightarrow> u64 \<Rightarrow> u64 \<Rightarrow> (int \<times> kern) option" where
  "fill_mapping k i n start fsz buf =
     do {
       (_, m) \<leftarrow> Normal_nodeRead (fs_data (k_fs k) n) (k_mem k) buf 0 fsz;
       (r, m) \<leftarrow> copyout (k_buddy k) m (pr_pt (k_pool k i)) start buf fsz;
       let k = k\<lparr>k_mem := m\<rparr>;
       Some (if r < 0 then - 1 else signed_take_bit 31 (uint start), k)
     }"

text \<open>The result is an \<^verbatim>\<open>int\<close>: an address of more than 31 bits is cut.\<close>

definition mmap_anonymous :: "kern \<Rightarrow> nat \<Rightarrow> int \<Rightarrow> (int \<times> kern) option" where
  "mmap_anonymous k i map_size =
     do {
       let start = pr_sz (k_pool k i);
       let fsz = word_of_int map_size;
       (newsz, k) \<leftarrow> k_vm_alloc k i start (start + fsz);
       if newsz = 0 then Some (- 1, k)
       else case find (\<lambda>j. \<not> vma_used (pr_vm (k_pool k i) j)) [0..<max_vma_num] of
         None \<Rightarrow> Some (- 1, k)
       | Some j \<Rightarrow> do {
           let k = set_vma k i j (\<lambda>a. a\<lparr>vma_used := True, vma_address := start, vma_length := map_size, vma_file := None\<rparr>);
           let k = upd k i (\<lambda>p. p\<lparr>pr_sz := newsz\<rparr>);
           Some (signed_take_bit 31 (uint start), k)
         }
     }"

definition mmap_file :: "kern \<Rightarrow> nat \<Rightarrow> nat \<Rightarrow> u32 \<Rightarrow> u32 \<Rightarrow> int \<Rightarrow> u64 \<Rightarrow> (int \<times> kern) option" where
  "mmap_file k i f prot flags map_size buf =
     do {
       x \<leftarrow> fs_files (k_fs k) f;
       if filetype (f_attrs x) \<noteq> FT_NORMAL then Some (- 1, k)
       else case f_kind x of
         NormalFile None \<Rightarrow> Some (- 1, k)
       | NormalFile (Some d) \<Rightarrow> do {
           let start = pr_sz (k_pool k i);
           let fsz = word_of_int map_size;
           case find (\<lambda>j. \<not> vma_used (pr_vm (k_pool k i) j)) [0..<max_vma_num] of
             None \<Rightarrow> Some (- 1, k)
           | Some j \<Rightarrow> do {
               (newsz, k) \<leftarrow> k_vm_alloc k i start (start + fsz);
               if newsz = 0 then Some (- 1, k)
               else do {
                 let k = set_vma k i j (\<lambda>a. a\<lparr>vma_used := True, vma_address := start, vma_length := map_size,
                   vma_flags := flags, vma_prot := prot, vma_file := Some f\<rparr>);
                 k \<leftarrow> dup_kfile k f;
                 let k = upd k i (\<lambda>p. p\<lparr>pr_sz := newsz\<rparr>);
                 n \<leftarrow> d_node (d_pool (fs_vfs (k_fs k)) d);
                 fill_mapping k i n start fsz buf
               }
             }
         }
       | _ \<Rightarrow> None
     }"

definition mmap :: "kern \<Rightarrow> nat \<Rightarrow> int \<Rightarrow> u32 \<Rightarrow> u32 \<Rightarrow> int \<Rightarrow> u64 \<Rightarrow> (int \<times> kern) option" where
  "mmap k i fd prot flags map_size buf =
     (if fd = - 1 then mmap_anonymous k i map_size
      else if fd \<le> 2 \<or> fd \<ge> int max_open_files \<or> map_size < 0 then Some (- 1, k)
      else do { f \<leftarrow> pr_ofile (k_pool k i) (nat fd); mmap_file k i f prot flags map_size buf })"

text \<open>
  Moving a mapping to the end of the address space. Writing back goes through the file
  pointer of the area, which is null for an anonymous one.
\<close>

definition mremap :: "kern \<Rightarrow> nat \<Rightarrow> u64 \<Rightarrow> u64 \<Rightarrow> u64 \<Rightarrow> u64 \<Rightarrow> (int \<times> kern) option" where
  "mremap k i oldaddr oldsize newsize buf =
     (let start = pr_sz (k_pool k i)
      in case find (\<lambda>j. vma_address (pr_vm (k_pool k i) j) = oldaddr) [0..<max_vma_num] of
           None \<Rightarrow> Some (0, k)
         | Some j \<Rightarrow> do {
             k \<leftarrow> (case vma_file (pr_vm (k_pool k i) j) of
                     Some f \<Rightarrow> write_back k i f oldaddr (oldaddr + oldsize) 0
                   | None \<Rightarrow> if oldaddr < oldaddr + oldsize then None else Some k);
             let k = set_vma k i j (\<lambda>a. a\<lparr>vma_address := start, vma_length := signed_take_bit 31 (uint newsize)\<rparr>);
             let k = upd k i (\<lambda>p. p\<lparr>pr_sz := pr_sz p + newsize\<rparr>);
             (newsz, k) \<leftarrow> k_vm_alloc k i start (start + newsize);
             if newsz = 0 then Some (- 1, k)
             else do {
               f \<leftarrow> vma_file (pr_vm (k_pool k i) j);
               x \<leftarrow> fs_files (k_fs k) f;
               if filetype (f_attrs x) \<noteq> FT_NORMAL then Some (- 1, k)
               else do {
                 n \<leftarrow> entry_node (k_fs k) x;
                 n \<leftarrow> n;
                 fill_mapping k i n start newsize buf
               }
             }
           })"

section \<open>Names\<close>

text \<open>The list of unlinked names: files are not removed, only their names are remembered.\<close>

definition has_unlinked :: "string list \<Rightarrow> string \<Rightarrow> bool" where
  "has_unlinked ul path \<longleftrightarrow> path \<in> set ul"
definition table_unlink :: "string list \<Rightarrow> string \<Rightarrow> int \<times> string list" where
  "table_unlink ul path = (0, ul @ [path])"
definition table_remove :: "string list \<Rightarrow> string \<Rightarrow> string list" where
  "table_remove ul path = remove1 path ul"

definition strip_dot :: "string \<Rightarrow> string" where
  "strip_dot path = (if take 2 path = ''./'' then drop 2 path else path)"

definition unlink :: "string list \<Rightarrow> int \<Rightarrow> string \<Rightarrow> int \<times> string list" where
  "unlink ul fd path =
     (if fd = - 100 then
        if path = [] then (- 1, ul)
        else let path = strip_dot path
             in if path = ''/proc/interrupts'' then (- 1, ul) else table_unlink ul path
      else (- 1, ul))"

definition AT_FDCWD :: int where "AT_FDCWD = - 100"

text \<open>
  \<^verbatim>\<open>Path( path, file )\<close>: the base is the entry of the file, which is taken to be a normal one.
  A process that makes calls has a working directory.
\<close>

definition path_from :: "kern \<Rightarrow> nat \<Rightarrow> string \<Rightarrow> nat option \<Rightarrow> path option" where
  "path_from k i name f =
     do {
       cwd \<leftarrow> pr_cwd (k_pool k i);
       base \<leftarrow> (case f of
                 None \<Rightarrow> Some None
               | Some f \<Rightarrow> do { x \<leftarrow> fs_files (k_fs k) f; case f_kind x of NormalFile d \<Rightarrow> Some d | _ \<Rightarrow> None });
       mk_path (fs_vfs (k_fs k)) cwd name base
     }"

definition set_vfs :: "kern \<Rightarrow> vfs \<Rightarrow> kern" where "set_vfs k v = k\<lparr>k_fs := (k_fs k)\<lparr>fs_vfs := v\<rparr>\<rparr>"

definition k_pathSearch :: "inode_ops \<Rightarrow> kern \<Rightarrow> path \<Rightarrow> bool \<Rightarrow> (nat option \<times> kern) option" where
  "k_pathSearch ops k p parent =
     do { (d, v) \<leftarrow> pathSearch ops (fs_vfs (k_fs k)) p parent; Some (d, set_vfs k v) }"

definition rFileName :: "path \<Rightarrow> string option" where
  "rFileName p = (if p_dirs p = [] then None else Some (last (p_dirs p)))"

text \<open>Creating the entry a search did not find: the entry, or \<open>None\<close> when the call returns \<open>- 1\<close>.\<close>

definition create_entry :: "inode_ops \<Rightarrow> kern \<Rightarrow> path \<Rightarrow> file_attrs \<Rightarrow> (nat option \<times> kern) option" where
  "create_entry ops k p attrs =
     do {
       (par, k) \<leftarrow> k_pathSearch ops k p True;
       case par of
         None \<Rightarrow> Some (None, k)
       | Some par \<Rightarrow> do {
           name \<leftarrow> rFileName p;
           (d, v) \<leftarrow> EntryCreate ops (fs_vfs (k_fs k)) par name attrs [];
           Some (d, set_vfs k v)
         }
     }"

definition dir_file :: "kern \<Rightarrow> nat \<Rightarrow> int \<Rightarrow> nat option" where
  "dir_file k i dir_fd = (if dir_fd \<noteq> AT_FDCWD then get_open_file k i dir_fd else None)"

definition mkdir :: "inode_ops \<Rightarrow> kern \<Rightarrow> nat \<Rightarrow> int \<Rightarrow> string \<Rightarrow> (int \<times> kern) option" where
  "mkdir ops k i dir_fd path =
     do {
       p \<leftarrow> path_from k i path (dir_file k i dir_fd);
       (d, k) \<leftarrow> k_pathSearch ops k p False;
       (d, k) \<leftarrow> (case d of Some e \<Rightarrow> Some (Some e, k)
                          | None \<Rightarrow> create_entry ops k p \<lparr>filetype = FT_DIRECT, fa_value = 0x1ff\<rparr>);
       Some (if d = None then - 1 else 0, k)
     }"

text \<open>Device number, mode and size that an inode's virtual functions report.\<close>

record node_info =
  ni_dev :: "nat \<Rightarrow> int"
  ni_mode :: "nat \<Rightarrow> file_attrs"
  ni_size :: "nat \<Rightarrow> u64"

definition O_CREAT :: u32 where "O_CREAT = 0x40"
definition O_APPEND :: u32 where "O_APPEND = 0x400"
definition S_IFMT :: u32 where "S_IFMT = 0xF000"
definition S_IFDIR :: u32 where "S_IFDIR = 0x4000"

text \<open>The file object for an entry, and its descriptor.\<close>

definition open_entry :: "node_info \<Rightarrow> kern \<Rightarrow> nat \<Rightarrow> nat \<Rightarrow> u32 \<Rightarrow> (int \<times> kern) option" where
  "open_entry info k i d flags =
     do {
       n \<leftarrow> d_node (d_pool (fs_vfs (k_fs k)) d);
       let dev = ni_dev info n;
       let attrs = ni_mode info n;
       if dev \<ge> 0 \<and> dev < 1024 then do {
         (f, st) \<leftarrow> new_file (k_fs k) (DeviceFile (Some d)) attrs 0;
         Some (alloc_fd (k\<lparr>k_fs := st\<rparr>) i f)
       }
       else do {
         (f, st) \<leftarrow> new_file (k_fs k) (NormalFile (Some d)) attrs (ni_size info n);
         x \<leftarrow> fs_files st f;
         let st = (if flags AND O_APPEND \<noteq> 0 then set_file st f (Some (setAppend x)) else st);
         Some (alloc_fd (k\<lparr>k_fs := st\<rparr>) i f)
       }
     }"

definition open_file ::
  "inode_ops \<Rightarrow> node_info \<Rightarrow> kern \<Rightarrow> string list \<Rightarrow> nat \<Rightarrow> int \<Rightarrow> string \<Rightarrow> u32 \<Rightarrow> (int \<times> kern \<times> string list) option" where
  "open_file ops info k ul i dir_fd path flags =
     do {
       p \<leftarrow> path_from k i path (dir_file k i dir_fd);
       (d, k) \<leftarrow> k_pathSearch ops k p False;
       if path = [] then Some (- 1, k, ul)
       else do {
         let path = strip_dot path;
         let hidden = (d \<noteq> None \<and> has_unlinked ul path);
         if hidden \<and> flags AND O_CREAT = 0 then Some (- 1, k, ul)
         else do {
           let ul = (if hidden then table_remove ul path else ul);
           let attrs = \<lparr>filetype = if flags AND S_IFMT = S_IFDIR then FT_DIRECT else FT_NORMAL, fa_value = 0x1ff\<rparr>;
           (d, k) \<leftarrow> (if d = None \<and> flags AND O_CREAT \<noteq> 0 then create_entry ops k p attrs else Some (d, k));
           case d of
             None \<Rightarrow> Some (- 1, k, ul)
           | Some d \<Rightarrow> do { (r, k) \<leftarrow> open_entry info k i d flags; Some (r, k, ul) }
         }
       }
     }"

definition chdir :: "inode_ops \<Rightarrow> kern \<Rightarrow> nat \<Rightarrow> string \<Rightarrow> (int \<times> kern) option" where
  "chdir ops k i path =
     do {
       p \<leftarrow> path_from k i path None;
       (d, k) \<leftarrow> k_pathSearch ops k p False;
       case d of
         None \<Rightarrow> Some (- 1, k)
       | Some d \<Rightarrow> do {
           old \<leftarrow> pr_cwd (k_pool k i);
           v \<leftarrow> release_dentry (dup_dentry (fs_vfs (k_fs k)) d) old;
           name \<leftarrow> AbsolutePath v p;
           let name = (if last name \<noteq> CHR ''/'' then name @ ''/'' else name);
           Some (0, upd (set_vfs k v) i (\<lambda>q. q\<lparr>pr_cwd := Some d, pr_cwd_name := name\<rparr>))
         }
     }"

definition getcwd :: "kern \<Rightarrow> nat \<Rightarrow> u64 \<Rightarrow> int \<times> kern" where
  "getcwd k i out_buf =
     (let cwd = pr_cwd_name (k_pool k i)
      in (int (length cwd) + 1, k\<lparr>k_mem := store_bytes (k_mem k) out_buf (map of_char cwd @ [0])\<rparr>))"

section \<open>Numbers, limits and times\<close>

definition ROOT_UID :: int where "ROOT_UID = 0"

definition set_tid_address :: "kern \<Rightarrow> nat \<Rightarrow> u64 \<Rightarrow> int \<times> kern" where
  "set_tid_address k i tidptr =
     (pr_pid (k_pool k i), upd k i (\<lambda>p. p\<lparr>pr_clear_child_tid := tidptr\<rparr>))"

definition set_robust_list :: "kern \<Rightarrow> nat \<Rightarrow> u64 \<Rightarrow> u64 \<Rightarrow> int \<times> kern" where
  "set_robust_list k i hd_addr len =
     (if len \<noteq> 24 then (- 22, k) else (0, upd k i (\<lambda>p. p\<lparr>pr_robust_list := hd_addr\<rparr>)))"

definition set_gid :: "kern \<Rightarrow> nat \<Rightarrow> int \<Rightarrow> int \<times> kern" where
  "set_gid k i gid =
     (if pr_uid (k_pool k i) \<noteq> ROOT_UID \<and> gid \<noteq> pr_ggid (k_pool k i) then (- 1, k)
      else (0, upd k i (\<lambda>p. p\<lparr>pr_ggid := gid\<rparr>)))"

definition set_uid :: "kern \<Rightarrow> nat \<Rightarrow> int \<Rightarrow> int \<times> kern" where
  "set_uid k i uid =
     (if pr_uid (k_pool k i) \<noteq> ROOT_UID \<and> uid \<noteq> pr_uid (k_pool k i) then (- 1, k)
      else (0, upd k i (\<lambda>p. p\<lparr>pr_uid := uid\<rparr>)))"

text \<open>\<open>new\<close> and the second result are the limits behind the two pointers, which may be null.\<close>

definition prlimit64 ::
  "kern \<Rightarrow> nat \<Rightarrow> int \<Rightarrow> u32 \<Rightarrow> (u64 \<times> u64) option \<Rightarrow> int \<times> (u64 \<times> u64) option \<times> kern" where
  "prlimit64 k i pid resource new =
     (case (if pid = 0 then Some i else find (\<lambda>j. pr_pid (k_pool k j) = pid) [0..<pool_size]) of
        None \<Rightarrow> (- 10, None, k)
      | Some j \<Rightarrow>
          if resource \<ge> of_nat RLIM_NLIMITS then (- 11, None, k)
          else (0, Some (pr_rlim (k_pool k j) (unat resource)),
                case new of None \<Rightarrow> k
                | Some l \<Rightarrow> upd k j (\<lambda>p. p\<lparr>pr_rlim := (pr_rlim p)(unat resource := l)\<rparr>)))"

record tms =
  tms_utime :: u64
  tms_stime :: u64
  tms_cutime :: u64
  tms_cstime :: u64

definition add_child_time :: "kern \<Rightarrow> nat \<Rightarrow> nat \<Rightarrow> tms \<Rightarrow> tms" where
  "add_child_time k i j t =
     (let q = k_pool k j
      in if pr_state q = Unused \<or> pr_parent q \<noteq> Some i then t
         else t\<lparr>tms_cutime := tms_cutime t + pr_user_ticks q,
                tms_cstime := tms_cstime t + (k_ticks k - pr_start_tick q - pr_user_ticks q)\<rparr>)"

definition get_cur_proc_tms :: "kern \<Rightarrow> nat \<Rightarrow> tms" where
  "get_cur_proc_tms k i =
     (let p = k_pool k i
      in fold (add_child_time k i) [0..<pool_size]
           \<lparr>tms_utime = pr_user_ticks p, tms_stime = k_ticks k - pr_start_tick p - pr_user_ticks p,
            tms_cutime = 0, tms_cstime = 0\<rparr>)"

section \<open>What a call leaves alone\<close>

lemma find_upt_Some:
  "find P [0..<n] = Some j \<longleftrightarrow> j < n \<and> P j \<and> (\<forall>l < j. \<not> P l)"
  by (auto simp: find_Some_iff)

lemma find_upt_None: "find P [0..<n] = None \<longleftrightarrow> (\<forall>j < n. \<not> P j)"
  by (auto simp: find_None_iff)

lemma frame_set_fd [view_intros]: "frame {i} k (set_fd k i fd f)"
  unfolding set_fd_def by (rule frame_upd) (auto simp: same_slot_def)

lemma frame_set_vma [view_intros]: "frame {i} k (set_vma k i j g)"
  unfolding set_vma_def by (rule frame_upd) (auto simp: same_slot_def)

lemma frame_set_vfs [view_intros]: "frame S k (set_vfs k v)"
  unfolding set_vfs_def by (rule frame_fs)

lemma frame_vm_alloc: "k_vm_alloc k i a b = Some (r, k') \<Longrightarrow> frame S k k' \<and> k_pool k' = k_pool k"
  by (auto simp: k_vm_alloc_def bind_eq_Some_conv frame_set_mm)

lemma frame_vm_dealloc: "k_vm_dealloc k i a b = Some (r, k') \<Longrightarrow> frame S k k' \<and> k_pool k' = k_pool k"
  by (auto simp: k_vm_dealloc_def bind_eq_Some_conv frame_set_mm)

lemma frame_unmap: "k_unmap k i va n d = Some k' \<Longrightarrow> frame S k k' \<and> k_pool k' = k_pool k"
  using mm_only_unmap frame_mm_only mm_only_pool by blast

lemma frame_alloc_fd: "alloc_fd k i f = (r, k') \<Longrightarrow> frame {i} k k'"
  by (auto simp: alloc_fd_def frame_set_fd split: option.splits)

lemma frame_alloc_fd_at: "alloc_fd_at k i f fd = (r, k') \<Longrightarrow> frame {i} k k'"
  by (auto simp: alloc_fd_at_def frame_set_fd split: if_splits)

lemma frame_close_fd: "close_fd k i fd = Some (r, k') \<Longrightarrow> frame {i} k k'"
  by (auto simp: close_fd_def bind_eq_Some_conv split: if_splits option.splits
      intro: frame_trans [OF frame_free_kfile frame_set_fd])

lemma frame_pipe_call:
  assumes "pipe_call k i = Some (r, k')"
  shows "frame {i} k k'"
proof -
  obtain rf wf st where s: "new_pipe_files (k_fs k) = Some (rf, wf, st)"
    using assms by (auto simp: pipe_call_def bind_eq_Some_conv)
  obtain fd0 k1 where s1: "alloc_fd (k\<lparr>k_fs := st\<rparr>) i rf = (fd0, k1)" by fastforce
  obtain fd1 k2 where s2: "(if fd0 < 0 then (- 1, k1) else alloc_fd k1 i wf) = (fd1, k2)" by fastforce
  have "frame {i} k (k\<lparr>k_fs := st\<rparr>)" by (rule frame_fs)
  moreover have "frame {i} (k\<lparr>k_fs := st\<rparr>) k1" using s1 by (rule frame_alloc_fd)
  moreover have "frame {i} k1 k2" using s2 by (auto split: if_splits intro: frame_alloc_fd)
  ultimately have 2: "frame {i} k k2" by (blast intro: frame_trans)
  let ?k3 = "if fd0 \<ge> 0 then set_fd k2 i (nat fd0) None else k2"
  have f: "frame {i} k ?k3" using 2 frame_trans [OF 2 frame_set_fd] by simp
  have "frame {i} k k'" if "free_kfile ?k3 rf = Some k4" "free_kfile k4 wf = Some k'" for k4
    using f frame_free_kfile [OF that(1)] frame_free_kfile [OF that(2)] frame_trans by blast
  moreover have "frame {i} k (set_fd (set_fd k2 i (nat fd0) (Some rf)) i (nat fd1) (Some wf))"
    using 2 frame_set_fd frame_trans by blast
  ultimately show ?thesis using assms
    by (auto simp: pipe_call_def s s1 s2 Let_def bind_eq_Some_conv split: if_split_asm)
qed

lemma frame_resize_heap: "resize_heap k i a b = Some (ok, k') \<Longrightarrow> frame S k k' \<and> k_pool k' = k_pool k"
  by (auto simp: resize_heap_def Let_def bind_eq_Some_conv split: if_split_asm
      dest: frame_vm_alloc [where S = S] frame_vm_dealloc [where S = S])

lemma frame_brk: "brk k i n = Some (r, k') \<Longrightarrow> frame {i} k k'"
  by (auto simp: brk_def Let_def bind_eq_Some_conv same_slot_def split: if_split_asm
      dest!: frame_resize_heap [where S = "{i}"] intro!: frame_upd elim!: frame_trans)

lemma munmap_steps:
  assumes "munmap k i va0 len0 = Some (r, k')"
  obtains (missing) "r = - 1" "k' = k" "\<forall>j < max_vma_num. page_round_down va0 \<noteq> vma_address (pr_vm (k_pool k i) j)"
  | (found) j k1 where "r = 0" "j < max_vma_num" "vma_address (pr_vm (k_pool k i) j) = page_round_down va0"
      "frame {} (set_vma k i j (\<lambda>a. a\<lparr>vma_used := False\<rparr>)) k1"
      "frame {} (set_vma k1 i j (\<lambda>a. a\<lparr>vma_address := 0\<rparr>)) k'"
proof (cases "find (\<lambda>j. page_round_down va0 = vma_address (pr_vm (k_pool k i) j)) [0..<max_vma_num]")
  case None
  then have "r = - 1" "k' = k" using assms by (simp_all add: munmap_def Let_def)
  then show ?thesis using missing None by (simp add: find_upt_None)
next
  case (Some j)
  let ?k = "set_vma k i j (\<lambda>a. a\<lparr>vma_used := False\<rparr>)"
  let ?a = "pr_vm (k_pool ?k i) j"
  obtain k1 k2 where s: "(case vma_file ?a of
        Some f \<Rightarrow> if vma_flags ?a = MAP_SHARED \<and> vma_prot ?a AND PROT_WRITE \<noteq> 0
          then write_back ?k i f (page_round_down va0) (page_round_down va0 + page_round_up len0) 0 else Some ?k
      | None \<Rightarrow> Some ?k) = Some k1"
    "(case vma_file ?a of Some f \<Rightarrow> free_kfile k1 f | None \<Rightarrow> Some k1) = Some k2"
    "k_unmap (set_vma k2 i j (\<lambda>a. a\<lparr>vma_address := 0\<rparr>)) i (page_round_down va0) (page_round_up len0 div page_size) True = Some k'"
    "r = 0"
    using assms Some by (auto simp: munmap_def Let_def bind_eq_Some_conv)
  have "frame {} ?k k1" using s(1) write_back_frame by (auto split: option.splits if_splits)
  moreover have "frame {} k1 k2" using s(2) by (auto split: option.splits intro: frame_free_kfile)
  ultimately have "frame {} ?k k2" by (rule frame_trans)
  then show ?thesis using Some s(3,4) found [of j k2] frame_unmap by (auto simp: find_upt_Some)
qed

lemma frame_munmap: "munmap k i va len = Some (r, k') \<Longrightarrow> frame {i} k k'"
  by (erule munmap_steps) (auto intro: frame_trans [OF frame_trans [OF frame_set_vma frame_mono]
      frame_trans [OF frame_set_vma frame_mono]])

lemma frame_fill_mapping: "fill_mapping k i n a l b = Some (r, k') \<Longrightarrow> frame S k k'"
  by (auto simp: fill_mapping_def bind_eq_Some_conv Let_def frame_mem)

lemma frame_upd_sz: "frame {i} k (upd k i (\<lambda>p. p\<lparr>pr_sz := g p\<rparr>))"
  by (rule frame_upd) (auto simp: same_slot_def)

lemma frame_mmap_anonymous:
  assumes "mmap_anonymous k i sz = Some (r, k')"
  shows "frame {i} k k'"
proof -
  obtain newsz k1 where s: "k_vm_alloc k i (pr_sz (k_pool k i)) (pr_sz (k_pool k i) + word_of_int sz) = Some (newsz, k1)"
    using assms by (auto simp: mmap_anonymous_def Let_def bind_eq_Some_conv)
  then have 1: "frame {i} k k1" using frame_vm_alloc by blast
  have "frame {i} k (upd (set_vma k1 i j g) i (\<lambda>p. p\<lparr>pr_sz := newsz\<rparr>))" for j g
    by (rule frame_trans [OF 1 frame_trans [OF frame_set_vma frame_upd_sz]])
  with 1 show ?thesis using assms
    by (auto simp: mmap_anonymous_def Let_def s split: if_split_asm option.split_asm)
qed

lemma frame_mmap_file:
  assumes "mmap_file k i f prot flags sz buf = Some (r, k')"
  shows "frame {i} k k'"
proof -
  let ?P = "\<lambda>j. \<not> vma_used (pr_vm (k_pool k i) j)"
  have "frame {i} k k'"
    if "k_vm_alloc k i a b = Some (newsz, k1)" "dup_kfile (set_vma k1 i j g) f = Some k2"
      "fill_mapping (upd k2 i (\<lambda>p. p\<lparr>pr_sz := newsz\<rparr>)) i n c l buf = Some (r, k')" for a b newsz k1 j g k2 n c l
  proof -
    have "frame {i} k k1" using frame_vm_alloc [OF that(1)] by blast
    moreover have "frame {i} (set_vma k1 i j g) k2" using frame_dup_kfile [OF that(2)] by blast
    moreover note frame_set_vma [of i k1 j g] frame_upd_sz [of i k2 "\<lambda>_. newsz"] frame_fill_mapping [OF that(3), of "{i}"]
    ultimately show ?thesis by (blast intro: frame_trans)
  qed
  moreover have "frame {i} k k1" if "k_vm_alloc k i a b = Some (w, k1)" for a b w k1
    using frame_vm_alloc [OF that] by blast
  ultimately show ?thesis using assms
    by (auto simp: mmap_file_def Let_def bind_eq_Some_conv split: if_split_asm option.split_asm file_kind.split_asm)
qed

lemma frame_mmap: "mmap k i fd prot flags sz buf = Some (r, k') \<Longrightarrow> frame {i} k k'"
  by (auto simp: mmap_def bind_eq_Some_conv split: if_split_asm dest: frame_mmap_anonymous frame_mmap_file)

lemma frame_mremap:
  assumes "mremap k i oa os ns buf = Some (r, k')"
  shows "frame {i} k k'"
proof (cases "find (\<lambda>j. vma_address (pr_vm (k_pool k i) j) = oa) [0..<max_vma_num]")
  case None
  then show ?thesis using assms by (simp add: mremap_def)
next
  case (Some j)
  obtain k1 where s: "(case vma_file (pr_vm (k_pool k i) j) of Some f \<Rightarrow> write_back k i f oa (oa + os) 0
      | None \<Rightarrow> if oa < oa + os then None else Some k) = Some k1"
    using assms Some by (auto simp: mremap_def Let_def bind_eq_Some_conv)
  let ?k2 = "set_vma k1 i j (\<lambda>a. a\<lparr>vma_address := pr_sz (k_pool k i), vma_length := signed_take_bit 31 (uint ns)\<rparr>)"
  let ?k3 = "upd ?k2 i (\<lambda>p. p\<lparr>pr_sz := pr_sz p + ns\<rparr>)"
  obtain w k4 where a: "k_vm_alloc ?k3 i (pr_sz (k_pool k i)) (pr_sz (k_pool k i) + ns) = Some (w, k4)"
    using assms Some s by (auto simp: mremap_def Let_def bind_eq_Some_conv)
  have "frame {i} k k1" using s by (auto split: option.splits if_splits dest: write_back_frame [where S = "{i}"])
  moreover have "frame {i} ?k3 k4" using frame_vm_alloc [OF a] by blast
  moreover have "frame {i} k1 ?k3" by (rule frame_trans [OF frame_set_vma frame_upd_sz])
  ultimately have "frame {i} k k4" by (blast intro: frame_trans)
  then show ?thesis using assms Some s a
    by (auto simp: mremap_def Let_def bind_eq_Some_conv split: if_split_asm intro: frame_trans frame_fill_mapping)
qed

lemma frame_pathSearch: "k_pathSearch ops k p b = Some (d, k') \<Longrightarrow> frame S k k' \<and> k_pool k' = k_pool k"
  by (auto simp: k_pathSearch_def bind_eq_Some_conv frame_set_vfs) (simp add: set_vfs_def)

lemma frame_create_entry: "create_entry ops k p a = Some (d, k') \<Longrightarrow> frame S k k'"
  by (auto simp: create_entry_def bind_eq_Some_conv split: option.split_asm
      dest!: frame_pathSearch [where S = S] intro: frame_trans [OF _ frame_set_vfs])

lemma frame_mkdir: "mkdir ops k i fd path = Some (r, k') \<Longrightarrow> frame S k k'"
  by (auto simp: mkdir_def bind_eq_Some_conv split: option.split_asm
      dest!: frame_pathSearch [where S = S] frame_create_entry [where S = S] intro: frame_trans)

lemma frame_open_entry: "open_entry info k i d flags = Some (r, k') \<Longrightarrow> frame {i} k k'"
  by (auto simp: open_entry_def Let_def bind_eq_Some_conv split: if_split_asm
      intro: frame_trans [OF frame_fs frame_alloc_fd])

lemma frame_open_file:
  assumes "open_file ops info k ul i fd path flags = Some (r, k', ul')"
  shows "frame {i} k k'"
proof -
  obtain p d k1 where "path_from k i path (dir_file k i fd) = Some p" and s: "k_pathSearch ops k p False = Some (d, k1)"
    using assms by (auto simp: open_file_def bind_eq_Some_conv)
  note p = this(1)
  have 1: "frame {i} k k1" using frame_pathSearch [OF s] by blast
  have "frame {i} k k2" if "create_entry ops k1 p a = Some (d', k2)" for a d' k2
    using 1 frame_create_entry [OF that] by (rule frame_trans)
  moreover have "frame {i} k k'" if "frame {i} k k2" "open_entry info k2 i y flags = Some (r, k')" for k2 y
    using that(1) frame_open_entry [OF that(2)] by (rule frame_trans)
  ultimately show ?thesis using assms 1
    by (simp add: open_file_def p s Let_def bind_eq_Some_conv split: if_split_asm option.split_asm) blast+
qed

lemma frame_chdir: "chdir ops k i path = Some (r, k') \<Longrightarrow> frame {i} k k'"
proof -
  have "frame {i} k (upd (set_vfs k1 v) i (\<lambda>q. q\<lparr>pr_cwd := a, pr_cwd_name := b\<rparr>))" if "frame {i} k k1" for k1 v a b
    by (rule frame_trans [OF that frame_trans [OF frame_set_vfs frame_upd]]) (auto simp: same_slot_def)
  then show "chdir ops k i path = Some (r, k') \<Longrightarrow> frame {i} k k'"
    by (auto simp: chdir_def Let_def bind_eq_Some_conv split: option.split_asm
        dest!: frame_pathSearch [where S = "{i}"])
qed

lemma frame_getcwd: "getcwd k i a = (r, k') \<Longrightarrow> frame S k k'"
  by (auto simp: getcwd_def Let_def frame_mem)

lemma frame_numbers:
  "set_tid_address k i t = (r, k') \<Longrightarrow> frame {i} k k'" "set_robust_list k i h l = (r, k') \<Longrightarrow> frame {i} k k'"
  "set_gid k i g = (r, k') \<Longrightarrow> frame {i} k k'" "set_uid k i u = (r, k') \<Longrightarrow> frame {i} k k'"
  by (auto simp: set_tid_address_def set_robust_list_def set_gid_def set_uid_def same_slot_def
      split: if_split_asm intro!: frame_upd)

text \<open>The calls a process makes on itself, and the states the kernel reaches by these and its other steps.\<close>

inductive proc_call :: "nat \<Rightarrow> kern \<Rightarrow> kern \<Rightarrow> bool" where
  calls_dup: "alloc_fd k i f = (r, k') \<Longrightarrow> proc_call i k k'"
| calls_dup_to: "alloc_fd_at k i fo fd = (r, k') \<Longrightarrow> proc_call i k k'"
| calls_close: "close_fd k i fd = Some (r, k') \<Longrightarrow> proc_call i k k'"
| calls_pipe: "pipe_call k i = Some (fds, k') \<Longrightarrow> proc_call i k k'"
| calls_open: "open_file ops info k ul i fd path flags = Some (r, k', ul') \<Longrightarrow> proc_call i k k'"
| calls_mkdir: "mkdir ops k i fd path = Some (r, k') \<Longrightarrow> proc_call i k k'"
| calls_chdir: "chdir ops k i path = Some (r, k') \<Longrightarrow> proc_call i k k'"
| calls_getcwd: "getcwd k i a = (r, k') \<Longrightarrow> proc_call i k k'"
| calls_brk: "brk k i n = Some (r, k') \<Longrightarrow> proc_call i k k'"
| calls_mmap: "mmap k i fd prot flags sz buf = Some (r, k') \<Longrightarrow> proc_call i k k'"
| calls_munmap: "munmap k i va len = Some (r, k') \<Longrightarrow> proc_call i k k'"
| calls_mremap: "mremap k i oa os ns buf = Some (r, k') \<Longrightarrow> proc_call i k k'"
| calls_set_tid: "set_tid_address k i t = (r, k') \<Longrightarrow> proc_call i k k'"
| calls_set_robust: "set_robust_list k i h l = (r, k') \<Longrightarrow> proc_call i k k'"
| calls_set_gid: "set_gid k i g = (r, k') \<Longrightarrow> proc_call i k k'"
| calls_set_uid: "set_uid k i u = (r, k') \<Longrightarrow> proc_call i k k'"

lemmas frame_calls = frame_alloc_fd frame_alloc_fd_at frame_close_fd frame_pipe_call frame_open_file frame_mkdir
  frame_chdir frame_getcwd frame_brk frame_mmap frame_munmap frame_mremap frame_numbers

lemma proc_call_frame: "proc_call i k k' \<Longrightarrow> frame {i} k k'"
  by (induction rule: proc_call.induct) (auto intro: frame_calls)

inductive sys_reach :: "kern \<Rightarrow> bool" where
  sys_boot: "(\<forall>i < pool_size. pr_pid (k_pool k i) = 0) \<Longrightarrow> pm_init k = Some k' \<Longrightarrow> sys_reach k'"
| sys_kern: "sys_reach k \<Longrightarrow> kern_step k k' \<Longrightarrow> sys_reach k'"
| sys_call: "sys_reach k \<Longrightarrow> proc_call i k k' \<Longrightarrow> sys_reach k'"

lemma pool_ok_sys: "sys_reach k \<Longrightarrow> pool_ok k"
  by (induction rule: sys_reach.induct) (auto intro: pool_ok_init pool_ok_step pool_ok_frame proc_call_frame)

section \<open>Single calls\<close>

lemma set_fd_pool [simp]:
  "k_pool (set_fd k i fd f) = (k_pool k)(i := (k_pool k i)\<lparr>pr_ofile := (pr_ofile (k_pool k i))(fd := f)\<rparr>)"
  "k_fs (set_fd k i fd f) = k_fs k"
  by (simp_all add: set_fd_def)

lemma set_fd_again: "a \<noteq> b \<Longrightarrow> set_fd (set_fd (set_fd (set_fd k i a x) i b y) i a x) i b y = set_fd (set_fd k i a x) i b y"
  by (simp add: set_fd_def upd_def fun_upd_twist)

lemma set_vma_pool [simp]:
  "k_pool (set_vma k i j g) = (k_pool k)(i := (k_pool k i)\<lparr>pr_vm := (pr_vm (k_pool k i))(j := g (pr_vm (k_pool k i) j))\<rparr>)"
  by (simp add: set_vma_def)

lemma alloc_fd_eq:
  "alloc_fd k i f =
     (if \<exists>fd < max_open_files. pr_ofile (k_pool k i) fd = None
      then let fd = (LEAST fd. pr_ofile (k_pool k i) fd = None) in (int fd, set_fd k i fd (Some f))
      else (- 1, k))"
proof (cases "find (\<lambda>fd. pr_ofile (k_pool k i) fd = None) [0..<max_open_files]")
  case None
  then have "\<not> (\<exists>fd < max_open_files. pr_ofile (k_pool k i) fd = None)" by (simp add: find_upt_None)
  then show ?thesis using None by (simp only: alloc_fd_def if_not_P if_False option.case)
next
  case (Some fd)
  then have "(LEAST fd. pr_ofile (k_pool k i) fd = None) = fd"
    unfolding find_upt_Some by (intro Least_equality) (auto simp: not_less [symmetric])
  moreover have "alloc_fd k i f = (int fd, set_fd k i fd (Some f))" by (simp only: alloc_fd_def Some option.case)
  moreover have "\<exists>fd < max_open_files. pr_ofile (k_pool k i) fd = None" using Some unfolding find_upt_Some by blast
  ultimately show ?thesis by (simp only: if_P Let_def if_True)
qed

lemma new_pipe_files_eq:
  "new_pipe_files st = Some (Suc (fs_next st), Suc (Suc (fs_next st)),
     st\<lparr>fs_pipes := (fs_pipes st)(fs_next st := Some (pipe_alloc (Pipe PipeBuffer))),
        fs_files := (fs_files st)(
          Suc (fs_next st) := Some \<lparr>f_kind = PipeFile (fs_next st) False, f_attrs = \<lparr>filetype = FT_PIPE, fa_value = 0x1f9\<rparr>,
            f_refcnt = 1, f_size = 0, f_cloexec = False, f_ptr = 0, f_always_on = False\<rparr>,
          Suc (Suc (fs_next st)) := Some \<lparr>f_kind = PipeFile (fs_next st) True, f_attrs = \<lparr>filetype = FT_PIPE, fa_value = 0x1fa\<rparr>,
            f_refcnt = 1, f_size = 0, f_cloexec = False, f_ptr = 0, f_always_on = False\<rparr>),
        fs_next := Suc (Suc (Suc (fs_next st)))\<rparr>)"
  by (simp add: new_pipe_files_def new_file_def dup_file_def set_file_def Let_def)

lemma free_kfile_fs:
  assumes "free_file (k_fs k) f = Some (st, ws)"
  obtains k' where "free_kfile k f = Some k'" "k_fs k' = st" "frame {} k k'"
proof -
  have "k_fs (fold (\<lambda>(p, c) k. wakeup k (Chan_pipe p c)) ws k) = k_fs k" for k
    by (induction ws arbitrary: k) auto
  then obtain k' where "free_kfile k f = Some k'" "k_fs k' = st" using assms by (simp add: free_kfile_def)
  then show ?thesis using that frame_free_kfile by blast
qed

lemma free_pipe_files:
  assumes fresh: "\<forall>n \<ge> fs_next st0. fs_files st0 n = None \<and> fs_pipes st0 n = None"
    and new: "new_pipe_files st0 = Some (rf, ef, st)"
  shows "\<exists>st1 st2 w1 w2. free_file st rf = Some (st1, w1) \<and> free_file st1 ef = Some (st2, w2) \<and>
    fs_files st2 = fs_files st0 \<and> fs_pipes st2 = fs_pipes st0"
proof -
  have "fs_files st0 (Suc (fs_next st0)) = None" "fs_files st0 (Suc (Suc (fs_next st0))) = None"
    "fs_pipes st0 (fs_next st0) = None"
    using fresh by simp_all
  then show ?thesis using new unfolding new_pipe_files_eq
    by (auto simp: free_file_def delete_file_def set_file_def pipe_close_def pipe_alloc_def Pipe_def Let_def fun_eq_iff)
qed

lemma woken_ofile: "woken p q \<Longrightarrow> pr_ofile q = pr_ofile p" by (auto simp: woken_def)

text \<open>The failing end of \<^verbatim>\<open>pipe\<close>: everything it made is gone again.\<close>

lemma pipe_call_gives_up:
  assumes fresh: "\<forall>n \<ge> fs_next (k_fs k). fs_files (k_fs k) n = None \<and> fs_pipes (k_fs k) n = None"
    and new: "new_pipe_files (k_fs k) = Some (rf, ef, st)" and q: "k_fs q = st" "pr_ofile (k_pool q i) = pr_ofile (k_pool k i)"
  shows "\<exists>k'. Option.bind (free_kfile q rf) (\<lambda>k. Option.bind (free_kfile k ef) (\<lambda>k. Some (None, k))) = Some (None, k') \<and>
    fs_files (k_fs k') = fs_files (k_fs k) \<and> fs_pipes (k_fs k') = fs_pipes (k_fs k) \<and>
    pr_ofile (k_pool k' i) = pr_ofile (k_pool k i)"
proof -
  obtain st1 st2 w1 w2 where f: "free_file st rf = Some (st1, w1)" "free_file st1 ef = Some (st2, w2)"
    "fs_files st2 = fs_files (k_fs k)" "fs_pipes st2 = fs_pipes (k_fs k)"
    using free_pipe_files [OF fresh new] by blast
  obtain k1 where 1: "free_kfile q rf = Some k1" "k_fs k1 = st1" "frame {} q k1"
    using f(1) q(1) by (auto intro: free_kfile_fs)
  obtain k2 where 2: "free_kfile k1 ef = Some k2" "k_fs k2 = st2" "frame {} k1 k2"
    using f(2) 1(2) by (auto intro: free_kfile_fs)
  have "pr_ofile (k_pool k2 i) = pr_ofile (k_pool q i)"
    using frame_outside [OF 1(3), of i] frame_outside [OF 2(3), of i] by (simp add: woken_ofile)
  then show ?thesis using 1 2 f q by simp
qed

definition unused_fd :: "kern \<Rightarrow> nat \<Rightarrow> nat \<Rightarrow> bool" where
  "unused_fd k i fd \<longleftrightarrow> fd < max_open_files \<and> pr_ofile (k_pool k i) fd = None"

text \<open>
  A new pipe with its two ends at descriptors \<open>a\<close> and \<open>b\<close>, all else as in \<open>k\<close>; and no trace of one.
\<close>

definition pipe_made :: "kern \<Rightarrow> nat \<Rightarrow> nat \<Rightarrow> nat \<Rightarrow> kern \<Rightarrow> bool" where
  "pipe_made k i a b k' \<longleftrightarrow>
     (\<exists>p rf ef x y. k_pool k' = k_pool (set_fd (set_fd k i a (Some rf)) i b (Some ef)) \<and>
        fs_files (k_fs k') = (fs_files (k_fs k))(rf := Some x, ef := Some y) \<and>
        f_kind x = PipeFile p False \<and> f_kind y = PipeFile p True \<and> f_refcnt x = 1 \<and> f_refcnt y = 1 \<and> rf \<noteq> ef \<and>
        fs_files (k_fs k) rf = None \<and> fs_files (k_fs k) ef = None \<and> fs_pipes (k_fs k) p = None \<and>
        fs_pipes (k_fs k') = (fs_pipes (k_fs k))(p := Some (pipe_alloc (Pipe PipeBuffer))))"

definition pipe_unmade :: "kern \<Rightarrow> nat \<Rightarrow> kern \<Rightarrow> bool" where
  "pipe_unmade k i k' \<longleftrightarrow>
     fs_files (k_fs k') = fs_files (k_fs k) \<and> fs_pipes (k_fs k') = fs_pipes (k_fs k) \<and>
     pr_ofile (k_pool k' i) = pr_ofile (k_pool k i)"

section \<open>Properties\<close>

text \<open>
  C15: isolation. Whatever call a process makes on itself (descriptors, pipes, opening, creating and changing
  directories, the heap, mappings, user and group numbers), every other control block is unchanged,
  except that a sleeper may have become runnable, and its own slot stays in use under the same number.
\<close>

theorem calls_isolated:
  assumes "proc_call i k k'"
  shows "(\<forall>j. j \<noteq> i \<longrightarrow> k_pool k' j = k_pool k j \<or>
      pr_state (k_pool k j) = Sleeping \<and> k_pool k' j = (k_pool k j)\<lparr>pr_state := Runnable\<rparr>) \<and>
    pr_pid (k_pool k' i) = pr_pid (k_pool k i) \<and>
    (pr_state (k_pool k' i) = Unused \<longleftrightarrow> pr_state (k_pool k i) = Unused) \<and>
    k_cur_pid k' = k_cur_pid k \<and> k_init k' = k_init k"
  using proc_call_frame [OF assms] unfolding frame_def woken_def same_slot_def by blast

theorem calls_isolated_witness:
  "\<exists>k'. proc_call 3 (demo_kern (\<lambda>_. idle_pcb)) k' \<and> k_pool k' 4 = idle_pcb \<and> pr_uid (k_pool k' 3) = 7"
proof -
  let ?k = "demo_kern (\<lambda>_. idle_pcb)"
  have c: "proc_call 3 ?k (snd (set_uid ?k 3 7))" by (rule calls_set_uid [where u = 7 and r = "fst (set_uid ?k 3 7)"]) simp
  then show ?thesis using calls_isolated [OF c]
    by (intro exI [of _ "snd (set_uid ?k 3 7)"]) (auto simp: set_uid_def demo_kern_def idle_pcb_def ROOT_UID_def)
qed




text \<open>
  C18: the pipe call. It always returns. On success the process has got its two lowest free descriptors, for the
  read and the write end of one new pipe that is open and empty, and no other file, pipe or
  descriptor has changed. It fails exactly when fewer than two descriptors are free, and then the
  file objects, the pipe and the descriptors it had made are gone.
\<close>

theorem pipe_call_outcomes:
  assumes fresh: "\<forall>n \<ge> fs_next (k_fs k). fs_files (k_fs k) n = None \<and> fs_pipes (k_fs k) n = None"
  shows "\<exists>r k'. pipe_call k i = Some (r, k') \<and>
    (case r of
       Some (a, b) \<Rightarrow> a < b \<and> unused_fd k i a \<and> unused_fd k i b \<and> (\<forall>fd < b. unused_fd k i fd \<longrightarrow> fd = a) \<and> pipe_made k i a b k'
     | None \<Rightarrow> (\<forall>a b. unused_fd k i a \<longrightarrow> unused_fd k i b \<longrightarrow> a = b) \<and> pipe_unmade k i k')"
proof -
  let ?n = "fs_next (k_fs k)"
  obtain st where new: "new_pipe_files (k_fs k) = Some (Suc ?n, Suc (Suc ?n), st)" using new_pipe_files_eq by blast
  let ?q = "k\<lparr>k_fs := st\<rparr>"
  let ?free = "\<lambda>k. find (\<lambda>fd. pr_ofile (k_pool k i) fd = None) [0..<max_open_files]"
  note up = pipe_call_gives_up [OF fresh new, where i = i]
  consider (none) "?free ?q = None"
    | (one) a where "?free ?q = Some a" "?free (set_fd ?q i a (Some (Suc ?n))) = None"
    | (two) a b where "?free ?q = Some a" "?free (set_fd ?q i a (Some (Suc ?n))) = Some b"
    by (metis not_None_eq)
  then show ?thesis
  proof cases
    case none
    have "\<not> unused_fd k i fd" for fd using none by (simp add: find_upt_None unused_fd_def)
    moreover have a: "alloc_fd ?q i (Suc ?n) = (- 1, ?q)" by (simp only: alloc_fd_def none option.case)
    moreover obtain k' where "pipe_call k i = Some (None, k')" "pipe_unmade k i k'"
      using up [of ?q] by (auto simp: pipe_call_def pipe_unmade_def new a)
    ultimately show ?thesis by (intro exI [of _ None] exI [of _ k']) simp
  next
    case one
    have "unused_fd k i fd \<longrightarrow> fd = a" for fd
      using one by (auto simp: find_upt_None find_upt_Some unused_fd_def split: if_split_asm)
    moreover have u: "(pr_ofile (k_pool k i))(a := None) = pr_ofile (k_pool k i)"
      using one(1) by (auto simp: find_upt_Some fun_eq_iff)
    have a: "alloc_fd ?q i (Suc ?n) = (int a, set_fd ?q i a (Some (Suc ?n)))"
      "alloc_fd (set_fd ?q i a (Some (Suc ?n))) i (Suc (Suc ?n)) = (- 1, set_fd ?q i a (Some (Suc ?n)))"
      by (simp_all only: alloc_fd_def one option.case)
    moreover obtain k' where "pipe_call k i = Some (None, k')" "pipe_unmade k i k'"
      using up [of "set_fd (set_fd ?q i a (Some (Suc ?n))) i a None"] u by (auto simp: pipe_call_def pipe_unmade_def new a)
    ultimately show ?thesis by (intro exI [of _ None] exI [of _ k']) (simp, blast)
  next
    case two
    have "a < b \<and> unused_fd k i a \<and> unused_fd k i b \<and> (\<forall>fd < b. unused_fd k i fd \<longrightarrow> fd = a)"
    proof -
      have a: "unused_fd k i a" "\<forall>l < a. \<not> unused_fd k i l" and b: "unused_fd k i b" "b \<noteq> a" "\<forall>l < b. unused_fd k i l \<longrightarrow> l = a"
        using two by (auto simp: find_upt_Some unused_fd_def split: if_split_asm)
      then have "a < b" by (metis nat_neq_iff)
      with a b show ?thesis by blast
    qed
    moreover have "fs_files (k_fs k) (Suc ?n) = None" "fs_files (k_fs k) (Suc (Suc ?n)) = None" "fs_pipes (k_fs k) ?n = None"
      using fresh by simp_all
    moreover have ne: "a \<noteq> b" using two by (auto simp: find_upt_Some)
    moreover have "pipe_call k i = Some (Some (a, b), set_fd (set_fd ?q i a (Some (Suc ?n))) i b (Some (Suc (Suc ?n))))"
    proof -
      have "alloc_fd ?q i (Suc ?n) = (int a, set_fd ?q i a (Some (Suc ?n)))"
        "alloc_fd (set_fd ?q i a (Some (Suc ?n))) i (Suc (Suc ?n)) =
          (int b, set_fd (set_fd ?q i a (Some (Suc ?n))) i b (Some (Suc (Suc ?n))))"
        by (simp_all only: alloc_fd_def two option.case)
      then show ?thesis by (simp add: pipe_call_def new set_fd_again [OF ne])
    qed
    moreover have "pipe_made k i a b (set_fd (set_fd ?q i a (Some (Suc ?n))) i b (Some (Suc (Suc ?n))))"
    proof -
      obtain x y where xy: "fs_files st = (fs_files (k_fs k))(Suc ?n \<mapsto> x, Suc (Suc ?n) \<mapsto> y)"
        "f_kind x = PipeFile ?n False" "f_kind y = PipeFile ?n True" "f_refcnt x = 1" "f_refcnt y = 1"
        "fs_pipes st = (fs_pipes (k_fs k))(?n \<mapsto> pipe_alloc (Pipe PipeBuffer))"
        using new unfolding new_pipe_files_eq by auto
      show ?thesis unfolding pipe_made_def
        by (intro exI [of _ ?n] exI [of _ "Suc ?n"] exI [of _ "Suc (Suc ?n)"] exI [of _ x] exI [of _ y])
           (use fresh in \<open>simp add: xy\<close>)
    qed
    ultimately show ?thesis by (intro exI [of _ "Some (a, b)"] exI) simp
  qed
qed

theorem pipe_call_outcomes_witness:
  "\<exists>k'. pipe_call (demo_kern (\<lambda>_. idle_pcb)) 3 = Some (Some (0, 1), k')"
proof -
  let ?k = "demo_kern (\<lambda>_. idle_pcb)"
  have fresh: "\<forall>n \<ge> fs_next (k_fs ?k). fs_files (k_fs ?k) n = None \<and> fs_pipes (k_fs ?k) n = None"
    by (simp add: demo_kern_def demo_fstate_def)
  have u: "unused_fd ?k 3 fd \<longleftrightarrow> fd < 1024" for fd
    by (simp add: unused_fd_def demo_kern_def idle_pcb_def max_open_files_def)
  obtain r k' where p: "pipe_call ?k 3 = Some (r, k')" and c: "case r of
       Some (a, b) \<Rightarrow> a < b \<and> a < 1024 \<and> b < 1024 \<and> (\<forall>fd < b. fd < 1024 \<longrightarrow> fd = a) \<and> pipe_made ?k 3 a b k'
     | None \<Rightarrow> (\<forall>a b. a < 1024 \<longrightarrow> b < 1024 \<longrightarrow> a = (b::nat)) \<and> pipe_unmade ?k 3 k'"
    using pipe_call_outcomes [OF fresh, of 3] unfolding u by blast
  show ?thesis
  proof (cases r)
    case None
    then have "\<forall>a b. a < 1024 \<longrightarrow> b < 1024 \<longrightarrow> a = (b::nat)" using c by simp
    from this [rule_format, of 0 1] show ?thesis by simp
  next
    case (Some ab)
    obtain a b where r: "ab = (a, b)" by (cases ab)
    then have ab: "r = Some (a, b)" "a < b" "b < 1024" and l: "\<And>fd. fd < b \<Longrightarrow> fd = a"
      using c Some by simp_all
    have "a = 0" "b = 1" using l [of 0] l [of 1] ab by linarith+
    then show ?thesis using p ab by simp
  qed
qed

text \<open>
  privileges. A process whose user number is not 0 keeps its user and group number through any sequence of
  calls that set them; each call that asks for another number is refused.
\<close>

definition set_number :: "nat \<Rightarrow> bool \<times> int \<Rightarrow> kern \<Rightarrow> kern" where
  "set_number i c k = snd (if fst c then set_uid k i (snd c) else set_gid k i (snd c))"

theorem unprivileged_stays:
  assumes "pr_uid (k_pool k i) \<noteq> ROOT_UID"
  shows "pr_uid (k_pool (fold (set_number i) cs k) i) = pr_uid (k_pool k i) \<and>
    pr_ggid (k_pool (fold (set_number i) cs k) i) = pr_ggid (k_pool k i) \<and>
    (n \<noteq> pr_uid (k_pool k i) \<longrightarrow> set_uid (fold (set_number i) cs k) i n = (- 1, fold (set_number i) cs k))"
proof -
  have step: "pr_uid (k_pool (set_number i c q) i) = pr_uid (k_pool q i) \<and> pr_ggid (k_pool (set_number i c q) i) = pr_ggid (k_pool q i)"
    if "pr_uid (k_pool q i) \<noteq> ROOT_UID" for c q
    using that by (auto simp: set_number_def set_uid_def set_gid_def)
  have "pr_uid (k_pool (fold (set_number i) cs k) i) = pr_uid (k_pool k i) \<and>
    pr_ggid (k_pool (fold (set_number i) cs k) i) = pr_ggid (k_pool k i)"
    using assms by (induction cs arbitrary: k) (simp_all add: step)
  then show ?thesis using assms by (simp add: set_uid_def)
qed

theorem unprivileged_stays_witness:
  "pr_uid (k_pool (fold (set_number 3) [(True, 0), (False, 0), (True, 5)] (demo_kern (\<lambda>_. idle_pcb\<lparr>pr_uid := 7\<rparr>))) 3) = 7"
  using unprivileged_stays [of "demo_kern (\<lambda>_. idle_pcb\<lparr>pr_uid := 7\<rparr>)" 3 "[(True, 0), (False, 0), (True, 5)]" 0]
  by (simp add: demo_kern_def ROOT_UID_def)

text \<open>
  C38: resource limits. A limit that was set is the one read back, no other limit of any process changes, and
  unknown processes and resources are refused with their error without effect.
\<close>

theorem prlimit_roundtrip:
  assumes "prlimit64 k i pid resource (Some l) = (r, old, k')"
  shows "(r = 0 \<longrightarrow> fst (snd (prlimit64 k' i pid resource new)) = Some l \<and>
      (\<forall>j s. pr_rlim (k_pool k' j) s \<noteq> pr_rlim (k_pool k j) s \<longrightarrow> s = unat resource \<and> (pid = 0 \<longrightarrow> j = i) \<and>
        (pid \<noteq> 0 \<longrightarrow> pr_pid (k_pool k j) = pid))) \<and>
    (r \<noteq> 0 \<longrightarrow> k' = k \<and> (r = - 11 \<and> resource \<ge> 16 \<or>
       r = - 10 \<and> pid \<noteq> 0 \<and> (\<forall>j < pool_size. pr_pid (k_pool k j) \<noteq> pid)))"
proof (cases "if pid = 0 then Some i else find (\<lambda>j. pr_pid (k_pool k j) = pid) [0..<pool_size]")
  case None
  then show ?thesis using assms by (auto simp: prlimit64_def find_upt_None split: if_split_asm)
next
  case (Some j)
  have j: "pid = 0 \<and> j = i \<or> pid \<noteq> 0 \<and> pr_pid (k_pool k j) = pid"
    using Some by (auto simp: find_upt_Some split: if_split_asm)
  show ?thesis
  proof (cases "resource \<ge> 16")
    case True
    then show ?thesis using assms Some by (simp add: prlimit64_def RLIM_NLIMITS_def)
  next
    case False
    then have k': "k' = upd k j (\<lambda>p. p\<lparr>pr_rlim := (pr_rlim p)(unat resource := l)\<rparr>)" and r: "r = 0"
      using assms Some by (simp_all add: prlimit64_def RLIM_NLIMITS_def)
    have "pr_pid (k_pool k' m) = pr_pid (k_pool k m)" for m by (simp add: k')
    then have "(if pid = 0 then Some i else find (\<lambda>m. pr_pid (k_pool k' m) = pid) [0..<pool_size]) = Some j"
      using Some by (simp only:)
    then have "fst (snd (prlimit64 k' i pid resource new)) = Some l"
      using False unfolding prlimit64_def by (simp only: option.case) (simp add: RLIM_NLIMITS_def k')
    then show ?thesis using j r by (auto simp: k' split: if_split_asm)
  qed
qed

theorem prlimit_roundtrip_witness:
  "\<exists>k'. prlimit64 (demo_kern (\<lambda>_. idle_pcb)) 3 0 7 (Some (10, 20)) = (0, Some (0, 0), k') \<and>
     fst (snd (prlimit64 k' 3 0 7 None)) = Some (10, 20)"
proof -
  obtain k' where "prlimit64 (demo_kern (\<lambda>_. idle_pcb)) 3 0 7 (Some (10, 20)) = (0, Some (0, 0), k')"
    by (simp add: prlimit64_def demo_kern_def idle_pcb_def RLIM_NLIMITS_def)
  with prlimit_roundtrip [OF this, of None] show ?thesis by blast
qed

text \<open>
  the heap call. A request of 0 or less reports the heap pointer and changes nothing. Any other request
  that returns either sets the heap pointer to the value asked for and returns it, or returns \<open>- 1\<close> with
  the pointer unchanged; growing fails exactly when the page allocator does, and shrinking never does.
\<close>

theorem brk_outcomes:
  assumes "brk k i n = Some (r, k')" and "n < 2 ^ 63"
  shows "(n \<le> 0 \<longrightarrow> r = sint (pr_heap_ptr (k_pool k i)) \<and> k' = k) \<and>
    (n > 0 \<longrightarrow> (r = n \<and> pr_heap_ptr (k_pool k' i) = word_of_int n \<or>
       r = - 1 \<and> pr_heap_ptr (k_pool k' i) = pr_heap_ptr (k_pool k i) \<and> n > sint (pr_heap_ptr (k_pool k i)) \<and>
       (\<exists>bm. vm_alloc (k_buddy k) (k_mem k) (pr_pt (k_pool k i)) (pr_heap_ptr (k_pool k i)) (word_of_int n) False False True =
          Some (0, bm))))"
proof (cases "n > 0")
  case True
  then have n: "sint (word_of_int n :: u64) = n"
    using assms(2) by (simp add: sint_sbintrunc' signed_take_bit_int_eq_self)
  let ?h = "pr_heap_ptr (k_pool k i)"
  obtain ok k1 where s: "resize_heap k i ?h (word_of_int n) = Some (ok, k1)"
    and r: "(r, k') = (if ok then (n, upd k1 i (\<lambda>p. p\<lparr>pr_heap_ptr := word_of_int n\<rparr>)) else (- 1, k1))"
    using assms(1) True n by (auto simp: brk_def Let_def bind_eq_Some_conv split: if_split_asm)
  have "\<not> ok \<Longrightarrow> n > sint ?h \<and> (\<exists>bm. vm_alloc (k_buddy k) (k_mem k) (pr_pt (k_pool k i)) ?h (word_of_int n) False False True =
      Some (0, bm))"
    using s by (auto simp: resize_heap_def n Let_def bind_eq_Some_conv k_vm_alloc_def split: if_split_asm)
  then show ?thesis using r True frame_resize_heap [OF s] by (auto split: if_split_asm)
next
  case False
  then show ?thesis using assms(1) by (auto simp: brk_def)
qed

theorem brk_outcomes_witness:
  "brk (demo_kern (\<lambda>_. idle_pcb\<lparr>pr_heap_ptr := 4096\<rparr>)) 3 0 = Some (4096, demo_kern (\<lambda>_. idle_pcb\<lparr>pr_heap_ptr := 4096\<rparr>))"
proof -
  obtain r k' where "brk (demo_kern (\<lambda>_. idle_pcb\<lparr>pr_heap_ptr := 4096\<rparr>)) 3 0 = Some (r, k')" by (simp add: brk_def)
  with brk_outcomes [OF this] show ?thesis by (simp add: demo_kern_def)
qed

text \<open>
  a mapping that does not start at a page boundary can never be unmapped: \<^verbatim>\<open>munmap\<close> rounds the
  address it is given and compares it with the recorded one. Such mappings arise as soon as the length of an
  earlier one was not a multiple of the page size, since the next one starts where that one ended.
\<close>

theorem munmap_misses_unaligned:
  assumes "munmap k i va len = Some (r, k')" and "vma_address (pr_vm (k_pool k i) j) AND 0xfff \<noteq> 0"
  shows "pr_vm (k_pool k' i) j = pr_vm (k_pool k i) j"
  using assms(1)
proof (cases rule: munmap_steps)
  case (found l k1)
  have "page_round_down va AND 0xfff = 0" unfolding page_round_down_def by (simp add: and.assoc)
  then have "l \<noteq> j" using found(3) assms(2) by auto
  moreover have "pr_vm (k_pool k' i) = pr_vm (k_pool (set_vma k1 i l (\<lambda>a. a\<lparr>vma_address := 0\<rparr>)) i)"
    "pr_vm (k_pool k1 i) = pr_vm (k_pool (set_vma k i l (\<lambda>a. a\<lparr>vma_used := False\<rparr>)) i)"
    using frame_outside [OF found(4), of i] frame_outside [OF found(5), of i] by (auto simp: woken_def)
  ultimately show ?thesis by simp
qed simp

theorem munmap_misses_unaligned_witness:
  "\<exists>k. vma_used (pr_vm (k_pool k 3) 0) \<and> vma_address (pr_vm (k_pool k 3) 0) = 0x1064 \<and>
     (\<forall>va len r k'. munmap k 3 va len = Some (r, k') \<longrightarrow> vma_used (pr_vm (k_pool k' 3) 0))"
proof -
  let ?a = "\<lparr>vma_used = True, vma_address = 0x1064, vma_length = 100, vma_prot = 0, vma_flags = 0, vma_file = None\<rparr>"
  let ?k = "demo_kern (\<lambda>_. idle_pcb\<lparr>pr_vm := \<lambda>_. ?a\<rparr>)"
  have "pr_vm (k_pool ?k 3) 0 = ?a" by (simp add: demo_kern_def)
  then show ?thesis using munmap_misses_unaligned [where k = ?k and i = 3 and j = 0]
    by (intro exI [of _ ?k]) auto
qed

text \<open>
  the address returned by an anonymous mapping is cut to 32 bits: from 2 GiB on it is not the address at which
  the area was recorded.
\<close>

theorem mmap_address_cut:
  assumes "mmap_anonymous k i sz = Some (r, k')" and "2 ^ 31 \<le> unat (pr_sz (k_pool k i))" and "r \<noteq> - 1"
  shows "r \<noteq> int (unat (pr_sz (k_pool k i))) \<and>
    (\<exists>j < max_vma_num. vma_used (pr_vm (k_pool k' i) j) \<and> vma_address (pr_vm (k_pool k' i) j) = pr_sz (k_pool k i))"
proof -
  have "r < 2 ^ 31"
    using assms(1,3) signed_take_bit_int_less_exp [of 31 "uint (pr_sz (k_pool k i))"]
    by (auto simp: mmap_anonymous_def Let_def bind_eq_Some_conv split: if_split_asm option.split_asm)
  moreover obtain newsz k1 j where "find (\<lambda>j. \<not> vma_used (pr_vm (k_pool k1 i) j)) [0..<max_vma_num] = Some j"
    "k' = upd (set_vma k1 i j (\<lambda>a. a\<lparr>vma_used := True, vma_address := pr_sz (k_pool k i), vma_length := sz, vma_file := None\<rparr>)) i
       (\<lambda>p. p\<lparr>pr_sz := newsz\<rparr>)"
    using assms(1,3) by (auto simp: mmap_anonymous_def Let_def bind_eq_Some_conv split: if_split_asm option.split_asm)
  moreover have "int (2 ^ 31) \<le> int (unat (pr_sz (k_pool k i)))" using assms(2) by (simp only: of_nat_le_iff)
  ultimately show ?thesis by (auto simp: find_upt_Some)
qed

theorem mmap_address_cut_witness:
  "\<exists>k'. mmap_anonymous (demo_kern (\<lambda>_. idle_pcb\<lparr>pr_sz := 0x80001000\<rparr>)) 3 0 = Some (- 0x7ffff000, k') \<and>
     - 0x7ffff000 \<noteq> int (unat (0x80001000 :: u64))"
proof -
  let ?k = "demo_kern (\<lambda>_. idle_pcb\<lparr>pr_sz := 0x80001000\<rparr>)"
  have a: "k_vm_alloc ?k 3 0x80001000 0x80001000 = Some (0x80001000, set_mm ?k (k_buddy ?k, k_mem ?k))"
    by (simp add: k_vm_alloc_def vm_alloc_def Let_def vm_alloc_loop.simps)
  have f: "find (\<lambda>j. \<not> vma_used (pr_vm idle_pcb j)) [0..<max_vma_num] = Some 0"
    by (simp add: find_upt_Some max_vma_num_def idle_pcb_def)
  obtain k' where "mmap_anonymous ?k 3 0 = Some (- 0x7ffff000, k')"
    using a f by (simp add: mmap_anonymous_def demo_kern_def)
  with mmap_address_cut [OF this] show ?thesis by (simp add: demo_kern_def)
qed

text \<open>
  times. The call reports the ticks of the process itself and the sums over its children, wrapping at
  \<open>2 ^ 64\<close>: the children are the slots in use whose parent it is.
\<close>

theorem child_times_sum:
  "get_cur_proc_tms k i =
     (let C = {j. j < pool_size \<and> pr_state (k_pool k j) \<noteq> Unused \<and> pr_parent (k_pool k j) = Some i}
      in \<lparr>tms_utime = pr_user_ticks (k_pool k i),
          tms_stime = k_ticks k - pr_start_tick (k_pool k i) - pr_user_ticks (k_pool k i),
          tms_cutime = (\<Sum>j\<in>C. pr_user_ticks (k_pool k j)),
          tms_cstime = (\<Sum>j\<in>C. k_ticks k - pr_start_tick (k_pool k j) - pr_user_ticks (k_pool k j))\<rparr>)"
proof -
  let ?c = "\<lambda>j. pr_state (k_pool k j) \<noteq> Unused \<and> pr_parent (k_pool k j) = Some i"
  have f: "fold (add_child_time k i) [0..<n] t =
    t\<lparr>tms_cutime := tms_cutime t + (\<Sum>j | j < n \<and> ?c j. pr_user_ticks (k_pool k j)),
      tms_cstime := tms_cstime t + (\<Sum>j | j < n \<and> ?c j. k_ticks k - pr_start_tick (k_pool k j) - pr_user_ticks (k_pool k j))\<rparr>" for n t
  proof (induction n)
    case (Suc n)
    have "{j. j < Suc n \<and> ?c j} = (if ?c n then insert n {j. j < n \<and> ?c j} else {j. j < n \<and> ?c j})"
      by (auto simp: less_Suc_eq)
    then show ?case using Suc by (simp add: add_child_time_def Let_def algebra_simps)
  qed simp
  show ?thesis unfolding get_cur_proc_tms_def f Let_def by simp
qed

text \<open>
  an unlinked name. Once a name has been unlinked, opening it without \<^verbatim>\<open>O_CREAT\<close> fails, wherever the entry is
  searched and whatever the search finds, and the list of unlinked names stays.
\<close>

theorem unlinked_name_refused:
  assumes "unlink ul AT_FDCWD path = (0, ul')" and "flags AND O_CREAT = 0"
    and "open_file ops info k ul' i fd path flags = Some (r, k', ul'')"
  shows "r = - 1 \<and> ul'' = ul' \<and> pr_ofile (k_pool k' i) = pr_ofile (k_pool k i)"
proof -
  have h: "has_unlinked ul' (strip_dot path)" and ne: "path \<noteq> []"
    using assms(1) by (auto simp: unlink_def AT_FDCWD_def table_unlink_def has_unlinked_def Let_def split: if_split_asm)
  obtain p d k1 where p: "path_from k i path (dir_file k i fd) = Some p" "k_pathSearch ops k p False = Some (d, k1)"
    using assms(3) by (auto simp: open_file_def bind_eq_Some_conv)
  have "k_pool k1 = k_pool k" using frame_pathSearch [OF p(2)] by simp
  then show ?thesis using assms(2,3) h ne by (cases d) (auto simp: open_file_def p Let_def)
qed

theorem unlinked_name_refused_witness:
  "\<exists>ul k'. unlink [] AT_FDCWD ''./a'' = (0, ul) \<and>
     open_file \<lparr>io_lookup = \<lambda>_ _. None, io_mknode = \<lambda>_ _ _ _. None, io_attr = \<lambda>_. \<lparr>filetype = FT_NORMAL, fa_value = 0x1ff\<rparr>\<rparr>
       \<lparr>ni_dev = \<lambda>_. - 1, ni_mode = \<lambda>_. \<lparr>filetype = FT_NORMAL, fa_value = 0x1ff\<rparr>, ni_size = \<lambda>_. 0\<rparr>
       (demo_kern (\<lambda>_. idle_pcb)) ul 3 AT_FDCWD ''./a'' 0 = Some (- 1, k', ul)"
proof -
  have u: "unlink [] AT_FDCWD ''./a'' = (0, [''a''])"
    by (simp add: unlink_def AT_FDCWD_def table_unlink_def strip_dot_def)
  let ?o = "\<lparr>io_lookup = \<lambda>_ _. None, io_mknode = \<lambda>_ _ _ _. None, io_attr = \<lambda>_. \<lparr>filetype = FT_NORMAL, fa_value = 0x1ff\<rparr>\<rparr> :: inode_ops"
  let ?n = "\<lparr>ni_dev = \<lambda>_. - 1, ni_mode = \<lambda>_. \<lparr>filetype = FT_NORMAL, fa_value = 0x1ff\<rparr>, ni_size = \<lambda>_. 0\<rparr> :: node_info"
  have d: "dir_names ''./a'' = [''.'', ''a'']" by code_simp
  obtain r k' ul'' where o: "open_file ?o ?n (demo_kern (\<lambda>_. idle_pcb)) [''a''] 3 AT_FDCWD ''./a'' 0 = Some (r, k', ul'')"
    by (simp add: open_file_def path_from_def dir_file_def demo_kern_def idle_pcb_def mk_path_def pathbuild_def d
        k_pathSearch_def pathSearch_def isMntPoint_def EntrySearch_def demo_fstate_def mk_dentry_def O_CREAT_def strip_dot_def Let_def)
  show ?thesis using unlinked_name_refused [OF u _ o] u o by (intro exI [of _ "[''a'']"] exI [of _ k']) simp
qed

text \<open>
  the list holds names, not files: unlinking a file under one name leaves every other name of it usable. In
  particular the name of the same file with a leading slash is not hidden by its relative name.
\<close>

theorem unlink_other_name:
  assumes "unlink ul AT_FDCWD path = (0, ul')" and "strip_dot path' \<noteq> strip_dot path"
  shows "has_unlinked ul' (strip_dot path') \<longleftrightarrow> has_unlinked ul (strip_dot path')"
  using assms by (auto simp: unlink_def AT_FDCWD_def table_unlink_def has_unlinked_def Let_def split: if_split_asm)

theorem unlink_other_name_witness:
  "unlink [] AT_FDCWD ''./a'' = (0, [''a'']) \<and> \<not> has_unlinked [''a''] (strip_dot ''/a'')"
proof -
  have u: "unlink [] AT_FDCWD ''./a'' = (0, [''a''])"
    by (simp add: unlink_def AT_FDCWD_def table_unlink_def strip_dot_def)
  then show ?thesis using unlink_other_name [OF u, of "''/a''"] by (simp add: strip_dot_def has_unlinked_def)
qed

end
