(* ===== verification/Virt_Mem_Correct.thy ===== *)
theory Virt_Mem_Correct
  imports Virt_Mem
begin

text \<open>
  Correctness of the page table walk and of the user copies: the walk as a function of memory,
  mapping followed by translation, reading user memory across pages, and the kernel stacks.
\<close>

section \<open>The walk as a function of memory\<close>

definition pud_slot :: "u64 \<Rightarrow> u64 \<Rightarrow> u64" where "pud_slot base va = base + 8 * pud_num va"
definition pmd_slot :: "mem \<Rightarrow> u64 \<Rightarrow> u64 \<Rightarrow> u64" where
  "pmd_slot m base va = pte_to_pa m (pud_slot base va) + 8 * pmd_num va"
definition leaf_slot :: "mem \<Rightarrow> u64 \<Rightarrow> u64 \<Rightarrow> u64" where
  "leaf_slot m base va = pte_to_pa m (pmd_slot m base va) + 8 * pt_num va"

definition path_valid :: "mem \<Rightarrow> u64 \<Rightarrow> u64 \<Rightarrow> bool" where
  "path_valid m base va \<longleftrightarrow> pte_is_valid m (pud_slot base va) \<and> pte_is_valid m (pmd_slot m base va)"

lemma walk_False:
  "walk b m pt va False =
     (if \<not> pt_global pt then Some (0, b, m)
      else if path_valid m (pt_base pt) va then Some (leaf_slot m (pt_base pt) va, b, m) else None)"
  by (auto simp: walk_def walk_to_next_level_def Let_def path_valid_def pud_slot_def pmd_slot_def
      leaf_slot_def get_pte_def set_base_def)

lemma walk_True_path:
  "pt_global pt \<Longrightarrow> path_valid m (pt_base pt) va \<Longrightarrow>
     walk b m pt va True = Some (leaf_slot m (pt_base pt) va, b, m)"
  by (auto simp: walk_def walk_to_next_level_def Let_def path_valid_def pud_slot_def pmd_slot_def
      leaf_slot_def get_pte_def set_base_def)

definition user_leaf :: "mem \<Rightarrow> u64 \<Rightarrow> bool" where
  "user_leaf m p \<longleftrightarrow> p \<noteq> 0 \<and> pte_is_valid m p \<and> \<not> pte_is_super_plv m p"

lemma walk_addr_eq:
  "pt_global pt \<Longrightarrow> walk_addr b m pt va =
     (if path_valid m (pt_base pt) va then
        Some (if user_leaf m (leaf_slot m (pt_base pt) va)
              then pte_to_pa m (leaf_slot m (pt_base pt) va) OR (va AND 4095) else 0)
      else None)"
  by (simp add: walk_addr_def walk_False user_leaf_def pte_is_null_def)

lemma pte_to_pa_mod: "unat (pte_to_pa m p) mod 4096 = 0"
proof -
  have "pte_to_pa m p = push_bit 12 (drop_bit 10 (ld64 m p))" by (simp add: pte_to_pa_def)
  then have "unat (pte_to_pa m p) = take_bit 64 (push_bit 12 (unat (drop_bit 10 (ld64 m p))))"
    by (simp add: unsigned_push_bit_eq)
  also have "\<dots> mod 4096 = push_bit 12 (unat (drop_bit 10 (ld64 m p))) mod 4096"
    unfolding take_bit_eq_mod by (rule mod_mod_cancel) simp
  also have "\<dots> = 0" by (simp add: push_bit_eq_mult)
  finally show ?thesis .
qed

lemma slot_aligned:
  "unat base mod 8 = 0 \<Longrightarrow> unat (pud_slot base va) mod 8 = 0" "unat (pmd_slot m base va) mod 8 = 0"
  "unat (leaf_slot m base va) mod 8 = 0"
proof -
  have e: "unat (8 * x :: u64) mod 8 = 0" for x
    unfolding unat_word_ariths by (simp add: mod_mod_cancel)
  show "unat base mod 8 = 0 \<Longrightarrow> unat (pud_slot base va) mod 8 = 0" "unat (pmd_slot m base va) mod 8 = 0"
    "unat (leaf_slot m base va) mod 8 = 0"
    unfolding pud_slot_def pmd_slot_def leaf_slot_def
    by (simp_all add: unat_add_mod8 e page_aligned_mod8 pte_to_pa_mod)
qed

text \<open>The slots of a walk depend on the address of its page only.\<close>

lemma bit_page_round_down: "bit (page_round_down va) n \<longleftrightarrow> 12 \<le> n \<and> bit va n"
proof -
  have "page_size - 1 = (mask 12 :: u64)" by (simp add: mask_eq_exp_minus_1)
  then show ?thesis unfolding page_round_down_def
    by (auto simp: bit_and_iff bit_not_iff bit_mask_iff dest: bit_imp_possible_bit simp del: page_size_def)
qed

lemma slots_page:
  "pud_num (page_round_down va) = pud_num va" "pmd_num (page_round_down va) = pmd_num va"
  "pt_num (page_round_down va) = pt_num va"
  by (rule bit_word_eqI, simp add: bit_pud_num bit_pmd_num bit_pt_num bit_page_round_down)+

lemma slots_round_down:
  "pud_slot base (page_round_down va) = pud_slot base va"
  "pmd_slot m base (page_round_down va) = pmd_slot m base va"
  "leaf_slot m base (page_round_down va) = leaf_slot m base va"
  "path_valid m base (page_round_down va) = path_valid m base va"
  by (simp_all add: pud_slot_def pmd_slot_def leaf_slot_def path_valid_def slots_page)

section \<open>Mapping one page\<close>

lemma pte_cong:
  assumes "ld64 m' q = ld64 m q"
  shows "pte_is_valid m' q = pte_is_valid m q" "pte_to_pa m' q = pte_to_pa m q"
    "pte_is_super_plv m' q = pte_is_super_plv m q" "user_leaf m' q = user_leaf m q"
  using assms by (simp_all add: pte_is_valid_def pte_to_pa_def pte_is_super_plv_def user_leaf_def)

lemma walk_cong:
  assumes "ld64 m' (pud_slot base va) = ld64 m (pud_slot base va)"
    and "ld64 m' (pmd_slot m base va) = ld64 m (pmd_slot m base va)"
  shows "path_valid m' base va = path_valid m base va" "leaf_slot m' base va = leaf_slot m base va"
proof -
  have p: "pmd_slot m' base va = pmd_slot m base va"
    by (simp add: pmd_slot_def pte_cong [OF assms(1)])
  show "path_valid m' base va = path_valid m base va" "leaf_slot m' base va = leaf_slot m base va"
    by (simp_all add: path_valid_def leaf_slot_def p pte_cong [OF assms(1)] pte_cong [OF assms(2)])
qed

lemma walk_addr_cong:
  assumes "pt_global pt" "ld64 m' (pud_slot (pt_base pt) va) = ld64 m (pud_slot (pt_base pt) va)"
    and "ld64 m' (pmd_slot m (pt_base pt) va) = ld64 m (pmd_slot m (pt_base pt) va)"
    and "ld64 m' (leaf_slot m (pt_base pt) va) = ld64 m (leaf_slot m (pt_base pt) va)"
  shows "walk_addr b m' pt va = walk_addr b m pt va"
  by (simp add: walk_addr_eq [OF assms(1)] walk_cong [OF assms(2,3)] pte_cong [OF assms(4)])

lemma st64_slot_other:
  "unat p mod 8 = 0 \<Longrightarrow> unat q mod 8 = 0 \<Longrightarrow> p \<noteq> q \<Longrightarrow> ld64 (pte_set_data m p v) q = ld64 m q"
  by (simp add: pte_set_data_def Let_def ld64_st64_other)

lemma round_down_in_page:
  assumes "is_page_align va" "(off::u64) < 4096"
  shows "page_round_down (va + off) = va" "(va + off) AND 4095 = off" "va OR off = va + off"
proof -
  have v: "unat va mod 4096 = 0" using assms(1) by (simp add: is_page_align_iff)
  have o: "unat off < 4096" using assms(2) by (simp add: word_less_nat_alt)
  have "unat va + unat off < 2 ^ 64" using page_room [OF v] o by linarith
  then have u: "unat (va + off) = unat va + unat off" by (simp add: unat_word_ariths)
  have md: "(unat va + unat off) mod 4096 = unat off" using v o by (simp add: mod_add_eq [symmetric])
  show "page_round_down (va + off) = va"
    by (simp add: word_unat_eq_iff unat_page_round_down u md)
  show "(va + off) AND 4095 = off" by (simp add: word_unat_eq_iff unat_and_4095 u md)
  have "va AND off = 0"
  proof (rule bit_word_eqI)
    fix n assume "n < LENGTH(64)"
    have "off = take_bit 12 off"
      using o by (simp add: word_unat_eq_iff unsigned_take_bit_eq take_bit_nat_eq_self)
    then have "bit off n \<Longrightarrow> n < 12" by (metis bit_take_bit_iff)
    then show "bit (va AND off) n = bit 0 n" using aligned_bits [OF assms(1), of n] by (auto simp: bit_and_iff)
  qed
  then show "va OR off = va + off" by (simp add: disjunctive_add_eq_or)
qed

lemma map_one_page:
  assumes g: "pt_global pt" and pv: "path_valid m (pt_base pt) va"
    and p: "leaf_slot m (pt_base pt) va \<noteq> 0" "\<not> pte_is_valid m (leaf_slot m (pt_base pt) va)"
    and al: "is_page_align va" "is_page_align pa"
  shows "map_pages b m pt va page_size pa flags =
    Some (True, b, pte_set_data m (leaf_slot m (pt_base pt) va) (pa OR flags))"
proof -
  have "va + page_size - 1 = va + 4095" by simp
  moreover have "(4095::u64) < 4096" by simp
  ultimately have "page_round_down (va + page_size - 1) = va"
    using round_down_in_page(1) [OF al(1)] by (simp only:)
  note e = page_round_down_id [OF al(1)] this page_round_down_id [OF al(2)]
  show ?thesis unfolding map_pages_def e using p
    by (subst map_pages_loop.simps)
       (simp add: walk_True_path [OF g pv] pte_is_null_def e del: page_size_def, simp)
qed


section \<open>Reading user memory\<close>

text \<open>The physical address of a user byte, by the walk for its page.\<close>

definition user_byte :: "buddy \<Rightarrow> mem \<Rightarrow> pagetable \<Rightarrow> u64 \<Rightarrow> u64" where
  "user_byte b m pt va = the (walk_addr b m pt (page_round_down va)) + (va - page_round_down va)"

definition user_mapped :: "mem \<Rightarrow> pagetable \<Rightarrow> u64 \<Rightarrow> bool" where
  "user_mapped m pt va \<longleftrightarrow> path_valid m (pt_base pt) va \<and> user_leaf m (leaf_slot m (pt_base pt) va) \<and>
     pte_to_pa m (leaf_slot m (pt_base pt) va) \<noteq> 0"

text \<open>No entry of the walk for \<open>va\<close> has a byte in the buffer of \<open>len\<close> bytes at \<open>dst\<close>.\<close>

definition walk_outside :: "mem \<Rightarrow> pagetable \<Rightarrow> u64 \<Rightarrow> u64 \<Rightarrow> u64 \<Rightarrow> bool" where
  "walk_outside m pt va dst len \<longleftrightarrow>
     (\<forall>k < 8. \<forall>s \<in> {pud_slot (pt_base pt) va, pmd_slot m (pt_base pt) va, leaf_slot m (pt_base pt) va}.
        len \<le> s + k - dst)"

lemma walk_addr_mapped:
  "pt_global pt \<Longrightarrow> user_mapped m pt va \<Longrightarrow>
     walk_addr b m pt (page_round_down va) = Some (pte_to_pa m (leaf_slot m (pt_base pt) va))"
proof -
  assume g: "pt_global pt" and u: "user_mapped m pt va"
  have "page_round_down va AND 4095 = 0" by (simp add: and_4095_mod)
  with u show ?thesis by (simp add: walk_addr_eq [OF g] slots_round_down user_mapped_def)
qed

lemma user_byte_mapped:
  assumes "pt_global pt" "user_mapped m pt va"
  shows "user_byte b m pt va = pte_to_pa m (leaf_slot m (pt_base pt) va) + (va - page_round_down va)"
  using walk_addr_mapped [OF assms] by (simp add: user_byte_def)

lemma walk_outside_cong:
  assumes "pt_global pt" "walk_outside M pt va dst len" "\<And>x. len \<le> x - dst \<Longrightarrow> m x = M x"
  shows "walk_addr b m pt (page_round_down va) = walk_addr b M pt (page_round_down va)"
proof -
  have s: "ld64 m s = ld64 M s"
    if "s \<in> {pud_slot (pt_base pt) va, pmd_slot M (pt_base pt) va, leaf_slot M (pt_base pt) va}" for s
    by (rule ld64_cong) (use assms(2,3) that in \<open>auto simp: walk_outside_def\<close>)
  show ?thesis by (rule walk_addr_cong [OF assms(1)]) (simp_all add: slots_round_down s)
qed

lemma chunk_same_page:
  assumes "x < chunk v len" "0 < len"
  shows "page_round_down (v + x) = page_round_down v"
    "v + x - page_round_down (v + x) = v - page_round_down v + x"
proof -
  let ?r = "page_round_down v"
  have o: "unat (v - ?r) = unat v mod 4096" by (rule unat_page_offset)
  then have o': "unat (v - ?r) < 4096" by simp
  have "chunk v len \<le> 4096 - (v - ?r)" unfolding chunk_def by (auto simp: Let_def)
  then have "unat x < 4096 - unat (v - ?r)"
    using assms(1) o' by (simp add: word_less_nat_alt word_le_nat_alt unat_sub_if' split: if_splits)
  then have lt: "unat (v - ?r + x) < 4096" using o' by (simp add: unat_word_ariths)
  have al: "is_page_align ?r" by (simp add: is_page_align_iff)
  have "page_round_down (?r + (v - ?r + x)) = ?r"
    using lt by (intro round_down_in_page(1) [OF al]) (simp add: word_less_nat_alt)
  then show r: "page_round_down (v + x) = ?r" by (simp add: algebra_simps)
  show "v + x - page_round_down (v + x) = v - ?r + x" unfolding r by simp
qed

lemma user_byte_chunk:
  "x < chunk v len \<Longrightarrow> 0 < len \<Longrightarrow> user_byte b m pt (v + x) = user_byte b m pt v + x"
  unfolding user_byte_def using chunk_same_page [of x v len] by (simp add: algebra_simps)

lemma chunk_step: "chunk v len < len \<Longrightarrow> page_round_down v + page_size = v + chunk v len"
  by (auto simp: chunk_def Let_def split: if_splits)

text \<open>
  A transfer of \<open>len0\<close> bytes from user address \<open>src0\<close> to kernel address \<open>dst0\<close>: every user byte is
  mapped in \<open>M\<close>, and neither the entries of the walks nor the bytes lie in the destination.
\<close>

definition transfer :: "buddy \<Rightarrow> mem \<Rightarrow> pagetable \<Rightarrow> u64 \<Rightarrow> u64 \<Rightarrow> u64 \<Rightarrow> bool" where
  "transfer b M pt dst0 src0 len0 \<longleftrightarrow> pt_global pt \<and>
     (\<forall>i < len0. user_mapped M pt (src0 + i) \<and> walk_outside M pt (src0 + i) dst0 len0 \<and>
        len0 \<le> user_byte b M pt (src0 + i) - dst0)"

definition same_outside :: "mem \<Rightarrow> u64 \<Rightarrow> u64 \<Rightarrow> mem \<Rightarrow> bool" where
  "same_outside M dst0 len0 m \<longleftrightarrow> (\<forall>x. len0 \<le> x - dst0 \<longrightarrow> m x = M x)"

definition moved :: "buddy \<Rightarrow> mem \<Rightarrow> pagetable \<Rightarrow> u64 \<Rightarrow> u64 \<Rightarrow> u64 \<Rightarrow> u64 \<Rightarrow> mem \<Rightarrow> mem" where
  "moved b M pt dst0 src0 lo hi m =
     (\<lambda>x. if lo \<le> x - dst0 \<and> x - dst0 < hi then M (user_byte b M pt (src0 + (x - dst0))) else m x)"

lemma word_between:
  fixes x d k n :: u64
  assumes "unat k + unat n < 2 ^ 64"
  shows "x - (d + k) < n \<longleftrightarrow> k \<le> x - d \<and> x - d < k + n"
proof -
  have kn: "unat (k + n) = unat k + unat n" using assms by (simp add: unat_word_ariths)
  have e: "x - (d + k) = (x - d) - k" by simp
  show ?thesis
  proof (cases "k \<le> x - d")
    case True
    then show ?thesis unfolding e by (auto simp: word_less_nat_alt word_le_nat_alt unat_sub kn)
  next
    case F: False
    then have "unat (x - d - k) = unat (x - d) + 2 ^ 64 - unat k"
      by (simp add: unat_sub_if' word_le_nat_alt)
    then show ?thesis unfolding e using F assms by (auto simp: word_less_nat_alt word_le_nat_alt)
  qed
qed

text \<open>One step of a transfer moves the bytes up to the end of the user page.\<close>

lemma chunk_arith:
  fixes v :: u64
  assumes "k < len0"
  defines "n \<equiv> chunk v (len0 - k)"
  shows "0 < n" "n \<le> len0 - k" "unat k + unat n \<le> unat len0" "unat (k + n) = unat k + unat n" "k + n \<le> len0"
    "unat (len0 - (k + n)) < unat (len0 - k)" "unat k + unat n < 2 ^ 64"
proof -
  have len: "0 < len0 - k" using assms(1) by (simp add: word_gt_0)
  show n: "0 < n" "n \<le> len0 - k" using chunk_bounds [OF len, of v] by (simp_all add: n_def)
  show nk: "unat k + unat n \<le> unat len0"
    using n(2) assms(1) by (auto simp: word_le_nat_alt word_less_nat_alt unat_sub)
  then show lt: "unat k + unat n < 2 ^ 64" using unat_less_2p [of len0] by linarith
  then show kn: "unat (k + n) = unat k + unat n" by (simp add: unat_word_ariths)
  show le: "k + n \<le> len0" using nk kn by (simp add: word_le_nat_alt)
  show "unat (len0 - (k + n)) < unat (len0 - k)"
    using n(1) le assms(1) kn by (simp add: unat_sub word_less_nat_alt word_le_nat_alt)
qed

lemma chunk_source:
  assumes t: "transfer b M pt dst0 src0 len0" and m: "same_outside M dst0 len0 m" and k: "k < len0"
  defines "n \<equiv> chunk (src0 + k) (len0 - k)" and "s \<equiv> user_byte b M pt (src0 + k)"
  shows "\<exists>pa. walk_addr b m pt (page_round_down (src0 + k)) = Some pa \<and> pa \<noteq> 0 \<and>
      s = pa + (src0 + k - page_round_down (src0 + k))"
    "walk_addr b m pt (src0 + k) = walk_addr b M pt (src0 + k)"
    "s \<noteq> 0" "unat s + unat n \<le> 2 ^ 64" "n \<le> s - (dst0 + k)"
    "x < n \<Longrightarrow> user_byte b M pt (src0 + k + x) = s + x"
proof -
  have g: "pt_global pt" and mp: "\<And>i. i < len0 \<Longrightarrow> user_mapped M pt (src0 + i)"
    and wo: "\<And>i. i < len0 \<Longrightarrow> walk_outside M pt (src0 + i) dst0 len0"
    and so: "\<And>i. i < len0 \<Longrightarrow> len0 \<le> user_byte b M pt (src0 + i) - dst0"
    using t by (simp_all add: transfer_def)
  let ?v = "src0 + k"
  note ar = chunk_arith [OF k, of ?v, folded n_def]
  define pa where "pa = pte_to_pa M (leaf_slot M (pt_base pt) ?v)"
  have w: "walk_addr b m pt (page_round_down ?v) = Some pa"
    using walk_outside_cong [OF g wo [OF k]] m [unfolded same_outside_def] walk_addr_mapped [OF g mp [OF k]] by (simp add: pa_def)
  have l: "ld64 m q = ld64 M q"
    if "q \<in> {pud_slot (pt_base pt) ?v, pmd_slot M (pt_base pt) ?v, leaf_slot M (pt_base pt) ?v}" for q
    by (rule ld64_cong) (use wo [OF k] m that in \<open>auto simp: walk_outside_def same_outside_def\<close>)
  show "walk_addr b m pt ?v = walk_addr b M pt ?v" by (rule walk_addr_cong [OF g]) (simp_all add: l)
  have pa: "pa \<noteq> 0" "unat pa mod 4096 = 0" using mp [OF k] pte_to_pa_mod by (auto simp: user_mapped_def pa_def)
  have sb: "s = pa + (?v - page_round_down ?v)" using user_byte_mapped [OF g mp [OF k]] by (simp add: pa_def s_def)
  with w pa show "\<exists>pa. walk_addr b m pt (page_round_down ?v) = Some pa \<and> pa \<noteq> 0 \<and> s = pa + (?v - page_round_down ?v)" by blast
  have off: "unat (?v - page_round_down ?v) < 4096" by (simp add: unat_page_offset)
  have us: "unat s = unat pa + unat (?v - page_round_down ?v)"
    using page_room [OF pa(2)] off by (simp add: sb unat_word_ariths)
  have "0 < unat pa" using pa(1) by (simp add: unat_gt_0)
  then show "s \<noteq> 0" using us by (metis add_gr_0 less_numeral_extra(3) unat_0)
  have "n \<le> 4096 - (?v - page_round_down ?v)" unfolding n_def chunk_def by (auto simp: Let_def)
  then have "unat n \<le> 4096 - unat (?v - page_round_down ?v)"
    using off by (simp add: word_le_nat_alt unat_sub_if' split: if_splits)
  then show "unat s + unat n \<le> 2 ^ 64" using us page_room [OF pa(2)] off by linarith
  have "len0 \<le> s - dst0" using so [OF k] by (simp add: s_def)
  then have "unat k + unat n \<le> unat (s - dst0)" using ar(3) by (simp add: word_le_nat_alt)
  moreover have "unat (S - k) = unat S - unat k" if "unat k \<le> unat S" for S
    using that by (simp add: unat_sub word_le_nat_alt)
  ultimately have "unat n \<le> unat (s - dst0 - k)" by (metis add_leD1 le_diff_conv2 add.commute)
  moreover have "s - dst0 - k = s - (dst0 + k)" by (rule diff_diff_eq)
  ultimately show "n \<le> s - (dst0 + k)" by (simp only: word_le_nat_alt)
  show "user_byte b M pt (?v + x) = s + x" if "x < n"
    using user_byte_chunk [of x ?v "len0 - k"] that k by (simp add: n_def s_def word_gt_0)
qed

lemma chunk_moved:
  assumes t: "transfer b M pt dst0 src0 len0" and m: "same_outside M dst0 len0 m" and k: "k < len0"
  defines "n \<equiv> chunk (src0 + k) (len0 - k)" and "s \<equiv> user_byte b M pt (src0 + k)"
  shows "memmove m (dst0 + k) s n = Some (moved b M pt dst0 src0 k (k + n) m)"
    "memcpy m (dst0 + k) s n = moved b M pt dst0 src0 k (k + n) m"
    "same_outside M dst0 len0 (moved b M pt dst0 src0 k (k + n) m)"
    "moved b M pt dst0 src0 (k + n) len0 (moved b M pt dst0 src0 k (k + n) m) = moved b M pt dst0 src0 k len0 m"
proof -
  note ar = chunk_arith [OF k, of "src0 + k", folded n_def]
  note sr = chunk_source [OF t m k, folded n_def s_def]
  have so: "\<And>i. i < len0 \<Longrightarrow> len0 \<le> user_byte b M pt (src0 + i) - dst0" using t by (simp add: transfer_def)
  note rel = word_between [OF ar(7), of _ dst0]
  have idx: "k + x < len0" if "x < n" for x
  proof -
    have "unat (k + x) = unat k + unat x" using that ar(7) by (simp add: unat_word_ariths word_less_nat_alt)
    then show ?thesis using that ar(3) by (simp add: word_less_nat_alt)
  qed
  have byte: "m (s + x) = M (user_byte b M pt (src0 + k + x))" if "x < n" for x
  proof -
    have "k + x < len0" by (rule idx [OF that])
    then have "len0 \<le> user_byte b M pt (src0 + (k + x)) - dst0" by (rule so)
    then show ?thesis using sr(6) [OF that] m by (simp add: add.assoc same_outside_def)
  qed
  have fin: "(\<lambda>x. if x - (dst0 + k) < n then m (s + (x - (dst0 + k))) else m x) = moved b M pt dst0 src0 k (k + n) m"
  proof
    fix x
    have "src0 + k + (x - (dst0 + k)) = src0 + (x - dst0)" by simp
    then show "(if x - (dst0 + k) < n then m (s + (x - (dst0 + k))) else m x) = moved b M pt dst0 src0 k (k + n) m x"
      using byte [of "x - (dst0 + k)"] by (simp only: moved_def rel split: if_split) blast
  qed
  show "memmove m (dst0 + k) s n = Some (moved b M pt dst0 src0 k (k + n) m)"
    unfolding fin [symmetric] by (rule memmove_copies [OF sr(3,4)]) (use sr(5) in simp)
  have "n \<le> dst0 + k - s"
  proof (rule ccontr)
    assume "\<not> n \<le> dst0 + k - s"
    then have j: "dst0 + k - s < n" by simp
    then have ub: "user_byte b M pt (src0 + k + (dst0 + k - s)) = dst0 + k" using sr(6) [OF j] by simp
    from so [OF idx [OF j]] ub show False using k by (simp add: add.assoc)
  qed
  then show "memcpy m (dst0 + k) s n = moved b M pt dst0 src0 k (k + n) m"
    unfolding fin [symmetric] by (auto simp: fun_eq_iff memcpy_range)
  show "same_outside M dst0 len0 (moved b M pt dst0 src0 k (k + n) m)"
    using m ar(5) by (auto simp: moved_def same_outside_def)
  show "moved b M pt dst0 src0 (k + n) len0 (moved b M pt dst0 src0 k (k + n) m) = moved b M pt dst0 src0 k len0 m"
    using ar(3,4) k by (auto simp: moved_def fun_eq_iff word_le_nat_alt word_less_nat_alt)
qed

lemma copy_in_step:
  assumes t: "transfer b M pt dst0 src0 len0" and m: "same_outside M dst0 len0 m" and k: "k \<le> len0"
  shows "copy_in b m pt (dst0 + k) (src0 + k) (len0 - k) = Some (0, moved b M pt dst0 src0 k len0 m)"
  using m k
proof (induction "unat (len0 - k)" arbitrary: k m rule: less_induct)
  case less
  show ?case
  proof (cases "k = len0")
    case True
    then show ?thesis by (subst copy_in.simps) (auto simp: fun_eq_iff leD moved_def)
  next
    case False
    then have kl: "k < len0" using less.prems(2) by simp
    then have len: "0 < len0 - k" by (simp add: word_gt_0)
    let ?v = "src0 + k" and ?l = "len0 - k"
    let ?n = "chunk ?v ?l"
    let ?m1 = "moved b M pt dst0 src0 k (k + ?n) m"
    note ar = chunk_arith [OF kl, of ?v]
    note mv = chunk_moved [OF t less.prems(1) kl]
    obtain pa where pa: "walk_addr b m pt (page_round_down ?v) = Some pa" "pa \<noteq> 0"
      "user_byte b M pt ?v = pa + (?v - page_round_down ?v)"
      using chunk_source(1) [OF t less.prems(1) kl] by blast
    have IH: "copy_in b ?m1 pt (dst0 + (k + ?n)) (src0 + (k + ?n)) (len0 - (k + ?n)) =
      Some (0, moved b M pt dst0 src0 (k + ?n) len0 ?m1)"
      by (rule less.hyps [OF ar(6) mv(3) ar(5)])
    have nxt: "copy_in b ?m1 pt (dst0 + k + ?n) (page_round_down ?v + page_size) (?l - ?n) =
      copy_in b ?m1 pt (dst0 + (k + ?n)) (src0 + (k + ?n)) (len0 - (k + ?n))"
    proof (cases "?n < ?l")
      case True
      then show ?thesis using chunk_step [OF True] by (simp add: add.assoc diff_diff_eq)
    next
      case nl: False
      then have "?l - ?n = 0" using ar(2) by simp
      moreover have "len0 - (k + ?n) = 0" using calculation by (simp add: diff_diff_eq)
      ultimately show ?thesis by (subst (1 2) copy_in.simps) simp
    qed
    have "copy_in b m pt (dst0 + k) ?v ?l = copy_in b ?m1 pt (dst0 + k + ?n) (page_round_down ?v + page_size) (?l - ?n)"
      using len pa mv(1) by (subst copy_in.simps) (simp add: Let_def)
    then show ?thesis unfolding nxt IH mv(4) .
  qed
qed

section \<open>Properties\<close>

text \<open>
  C9: copying from user space. When every page of the \<open>len\<close> bytes at \<open>src_va\<close> is mapped for the
  user and neither the page table entries the walks read nor the bytes themselves lie in the
  destination buffer, \<^verbatim>\<open>copy_in\<close> returns 0, each destination byte is the byte its user
  address translates to, across page boundaries, and no other byte changes.
\<close>

theorem copy_in_copies:
  assumes "pt_global pt"
    and "\<And>i. i < len \<Longrightarrow> user_mapped m pt (src_va + i)"
    and "\<And>i. i < len \<Longrightarrow> walk_outside m pt (src_va + i) dst len"
    and "\<And>i. i < len \<Longrightarrow> len \<le> user_byte b m pt (src_va + i) - dst"
  shows "copy_in b m pt dst src_va len =
    Some (0, \<lambda>x. if x - dst < len then m (user_byte b m pt (src_va + (x - dst))) else m x)"
  using copy_in_step [of b m pt dst src_va len m 0] assms by (simp add: transfer_def moved_def same_outside_def)

text \<open>
  C32: a user pointer whose page has no page table brings the kernel down. \<^verbatim>\<open>walk\<close> panics
  on a missing table instead of returning a null entry, so \<^verbatim>\<open>copy_in\<close>, \<^verbatim>\<open>copyout\<close> and
  \<^verbatim>\<open>copy_str_in\<close> do not return -1 for such an address: they do not return at all.
\<close>

theorem user_pointer_panics:
  assumes "pt_global pt" and "\<not> pte_is_valid m (pud_slot (pt_base pt) va)" and "0 < len"
  shows "copy_in b m pt dst va len = None \<and> copyout b m pt va dst len = None \<and>
    copy_str_in b m pt dst va len = None"
proof -
  have np: "\<not> path_valid m (pt_base pt) (page_round_down va)"
    using assms(2) by (simp add: slots_round_down path_valid_def)
  then have w: "walk_addr b m pt (page_round_down va) = None" "walk b m pt (page_round_down va) False = None"
    using assms(1) by (simp_all add: walk_addr_eq walk_False)
  have "copy_in b m pt dst va len = None" using assms(3) w by (subst copy_in.simps) simp
  moreover have "copyout b m pt va dst len = None" using assms(3) w by (subst copyout.simps) simp
  moreover have "copy_str_in b m pt dst va len = None" using assms(3) w by (subst copy_str_in.simps) simp
  ultimately show ?thesis by simp
qed

text \<open>
  C12: mapping and translating. Mapping one aligned page for the user where the tables of the path
  exist succeeds, without touching the allocator; from then on every address of the page
  translates to the byte at the same offset of the physical page, and every address whose
  walk does not read the written entry translates as before.
\<close>

theorem map_then_walk:
  assumes g: "pt_global pt" and ba: "unat (pt_base pt) mod 8 = 0" and pv: "path_valid m (pt_base pt) va"
    and p: "p = leaf_slot m (pt_base pt) va" "p \<noteq> 0" "\<not> pte_is_valid m p"
      "p \<noteq> pud_slot (pt_base pt) va" "p \<noteq> pmd_slot m (pt_base pt) va"
    and al: "is_page_align va" "is_page_align pa"
    and fl: "flags AND pte_flags_m = flags" "flags AND pte_valid_m = pte_valid_m" "flags AND pte_user_m = pte_user_m"
  shows "\<exists>m'. map_pages b m pt va page_size pa flags = Some (True, b, m') \<and>
    (\<forall>off. off < page_size \<longrightarrow> walk_addr b m' pt (va + off) = Some (pa + off)) \<and>
    (\<forall>va'. p \<notin> {pud_slot (pt_base pt) va', pmd_slot m (pt_base pt) va', leaf_slot m (pt_base pt) va'} \<longrightarrow>
       walk_addr b m' pt va' = walk_addr b m pt va')"
proof -
  let ?m = "pte_set_data m p (pa OR flags)" and ?B = "pt_base pt"
  note al8 = slot_aligned(1) [OF ba] slot_aligned(2,3)
  have pal: "unat p mod 8 = 0" using p(1) al8 by simp
  have other: "ld64 ?m q = ld64 m q" if "unat q mod 8 = 0" "p \<noteq> q" for q
    using st64_slot_other [OF pal that(1)] that(2) by simp
  have pv': "path_valid ?m ?B va" "leaf_slot ?m ?B va = p"
    using walk_cong [of ?m ?B va m] other al8 p pv by simp_all
  have pa: "pte_to_pa ?m p = pa" "pte_get_flags ?m p = flags"
    using pte_set_data_pa [OF al(2) fl(1)] pte_set_data_flags [OF al(2) fl(1)] by simp_all
  have bits: "ld64 ?m p AND pte_flags_m = flags" using pa(2) by (simp add: pte_get_flags_def)
  have "ld64 ?m p AND pte_valid_m = pte_valid_m" "ld64 ?m p AND pte_user_m = pte_user_m"
  proof -
    have "ld64 ?m p AND (pte_flags_m AND pte_valid_m) = pte_valid_m" "ld64 ?m p AND (pte_flags_m AND pte_user_m) = pte_user_m"
      using bits fl(2,3) by (simp_all add: and.assoc [symmetric] del: pte_valid_m_def pte_user_m_def)
    then show "ld64 ?m p AND pte_valid_m = pte_valid_m" "ld64 ?m p AND pte_user_m = pte_user_m"
      by (simp_all add: pte_flags_m_def)
  qed
  then have ul: "user_leaf ?m p"
    using p(2) by (simp add: user_leaf_def pte_is_valid_def pte_is_super_plv_def)
  have "walk_addr b ?m pt (va + off) = Some (pa + off)" if "off < page_size" for off
  proof -
    have o: "off < 4096" using that by simp
    have sl: "path_valid ?m ?B (va + off)" "leaf_slot ?m ?B (va + off) = p"
      using pv' slots_round_down(3,4) [of ?m ?B "va + off"] round_down_in_page(1) [OF al(1) o] by simp_all
    then show ?thesis
      using ul pa(1) round_down_in_page(2) [OF al(1) o] round_down_in_page(3) [OF al(2) o]
      by (simp add: walk_addr_eq [OF g])
  qed
  moreover have "walk_addr b ?m pt va' = walk_addr b m pt va'"
    if "p \<notin> {pud_slot ?B va', pmd_slot m ?B va', leaf_slot m ?B va'}" for va'
    using that other al8 by (intro walk_addr_cong [OF g]) auto
  ultimately show ?thesis
    using map_one_page [OF g pv _ _ al, of b flags] p by (intro exI [of _ ?m]) auto
qed

text \<open>A small address space: tables at 0x1000, 0x2000 and 0x3000, user pages at 0x5000 and 0x6000.\<close>

definition demo_pt :: pagetable where "demo_pt = \<lparr>pt_base = 0x1000, pt_global = True\<rparr>"
definition demo_tables :: mem where
  "demo_tables = st64 (st64 (\<lambda>x. ucast x) 0x1000 0x801) 0x2000 0xC01"
definition demo_mem :: mem where
  "demo_mem = st64 (st64 (st64 demo_tables 0x3028 0x20000413) 0x3030 0x20000C13) 0x3038 0"

lemma demo_nums:
  "pud_num 0x5000 = 0" "pmd_num 0x5000 = 0" "pt_num 0x5000 = 5"
  "pud_num 0x5fff = 0" "pmd_num 0x5fff = 0" "pt_num 0x5fff = 5"
  "pud_num 0x6000 = 0" "pmd_num 0x6000 = 0" "pt_num 0x6000 = 6"
  "pud_num 0x7000 = 0" "pmd_num 0x7000 = 0" "pt_num 0x7000 = 7"
  by (simp_all add: pud_num_def pmd_num_def pt_num_def pud_mask_def pmd_mask_def pt_mask_def)

lemma demo_entries:
  "ld64 demo_mem 0x1000 = 0x801" "ld64 demo_mem 0x2000 = 0xC01"
  "ld64 demo_mem 0x3028 = 0x20000413" "ld64 demo_mem 0x3030 = 0x20000C13" "ld64 demo_mem 0x3038 = 0"
  by (simp_all add: demo_mem_def demo_tables_def ld64_st64)

lemma demo_slots:
  "pt_num va = n \<Longrightarrow> pud_num va = 0 \<Longrightarrow> pmd_num va = 0 \<Longrightarrow>
     pud_slot 0x1000 va = 0x1000 \<and> pmd_slot demo_mem 0x1000 va = 0x2000 \<and>
     leaf_slot demo_mem 0x1000 va = 0x3000 + 8 * n \<and> path_valid demo_mem 0x1000 va"
  by (simp add: pud_slot_def pmd_slot_def leaf_slot_def path_valid_def pte_to_pa_def pte_is_valid_def demo_entries)

theorem map_then_walk_witness:
  "\<forall>b. \<exists>m'. map_pages b demo_mem demo_pt 0x7000 page_size 0x80009000 0x13 = Some (True, b, m') \<and>
     walk_addr b m' demo_pt 0x7123 = Some 0x80009123 \<and>
     walk_addr b m' demo_pt 0x5000 = walk_addr b demo_mem demo_pt 0x5000"
proof
  fix b
  note sl = demo_slots [OF demo_nums(12,10,11)] demo_slots [OF demo_nums(3,1,2)]
  have "\<exists>m'. map_pages b demo_mem demo_pt 0x7000 page_size 0x80009000 0x13 = Some (True, b, m') \<and>
    (\<forall>off. off < page_size \<longrightarrow> walk_addr b m' demo_pt (0x7000 + off) = Some (0x80009000 + off)) \<and>
    (\<forall>va'. 0x3038 \<notin> {pud_slot (pt_base demo_pt) va', pmd_slot demo_mem (pt_base demo_pt) va', leaf_slot demo_mem (pt_base demo_pt) va'} \<longrightarrow>
       walk_addr b m' demo_pt va' = walk_addr b demo_mem demo_pt va')"
    using sl by (intro map_then_walk)
      (simp_all add: demo_pt_def pte_is_valid_def demo_entries is_page_align_iff pte_flags_m_def)
  then obtain m' where m': "map_pages b demo_mem demo_pt 0x7000 page_size 0x80009000 0x13 = Some (True, b, m')"
    "\<forall>off. off < page_size \<longrightarrow> walk_addr b m' demo_pt (0x7000 + off) = Some (0x80009000 + off)"
    "\<forall>va'. 0x3038 \<notin> {pud_slot (pt_base demo_pt) va', pmd_slot demo_mem (pt_base demo_pt) va', leaf_slot demo_mem (pt_base demo_pt) va'} \<longrightarrow>
       walk_addr b m' demo_pt va' = walk_addr b demo_mem demo_pt va'"
    by blast
  have "walk_addr b m' demo_pt 0x7123 = Some 0x80009123" using m'(2) [THEN spec [of _ "0x123"]] by simp
  moreover have "walk_addr b m' demo_pt 0x5000 = walk_addr b demo_mem demo_pt 0x5000"
    using m'(3) [THEN spec [of _ "0x5000"]] sl by (simp add: demo_pt_def)
  ultimately show "\<exists>m'. map_pages b demo_mem demo_pt 0x7000 page_size 0x80009000 0x13 = Some (True, b, m') \<and>
     walk_addr b m' demo_pt 0x7123 = Some 0x80009123 \<and>
     walk_addr b m' demo_pt 0x5000 = walk_addr b demo_mem demo_pt 0x5000"
    using m'(1) by blast
qed

lemma demo_mapped: "user_mapped demo_mem demo_pt 0x5fff" "user_mapped demo_mem demo_pt 0x6000"
  using demo_slots [OF demo_nums(6,4,5)] demo_slots [OF demo_nums(9,7,8)]
  by (simp_all add: user_mapped_def user_leaf_def demo_pt_def pte_is_valid_def pte_is_super_plv_def
      pte_to_pa_def demo_entries)

lemma demo_bytes:
  "user_byte b demo_mem demo_pt 0x5fff = 0x80001fff" "user_byte b demo_mem demo_pt 0x6000 = 0x80003000"
  using demo_slots [OF demo_nums(6,4,5)] demo_slots [OF demo_nums(9,7,8)]
    user_byte_mapped [OF _ demo_mapped(1)] user_byte_mapped [OF _ demo_mapped(2)]
  by (simp_all add: demo_pt_def pte_to_pa_def demo_entries page_round_down_def)

lemma less_2_cases: "(i::u64) < 2 \<Longrightarrow> i = 0 \<or> i = 1"
proof -
  assume "i < 2"
  then have "unat i < 2" by (simp add: word_less_nat_alt)
  then have "unat i = 0 \<or> unat i = 1" by auto
  then show ?thesis by (auto simp: word_unat_eq_iff)
qed

lemma less_8_cases: "(k::u64) < 8 \<Longrightarrow> k \<in> {0, 1, 2, 3, 4, 5, 6, 7}"
proof -
  assume "k < 8"
  then have "unat k < 8" by (simp add: word_less_nat_alt)
  then have "unat k \<in> {0, 1, 2, 3, 4, 5, 6, 7}" by auto
  then show ?thesis by (auto simp: word_unat_eq_iff)
qed

theorem copy_in_copies_witness:
  "\<forall>b. \<exists>m'. copy_in b demo_mem demo_pt 0x90000000 0x5fff 2 = Some (0, m') \<and>
     m' 0x90000000 = demo_mem 0x80001fff \<and> m' 0x90000001 = demo_mem 0x80003000"
proof
  fix b
  have c: "i = 0 \<or> i = 1" if "i < 2" for i :: u64 using less_2_cases [OF that] .
  have wo: "walk_outside demo_mem demo_pt (0x5fff + i) 0x90000000 2" if "i < 2" for i
    using c [OF that] demo_slots [OF demo_nums(6,4,5)] demo_slots [OF demo_nums(9,7,8)]
    by (auto simp: walk_outside_def demo_pt_def dest!: less_8_cases)
  have "copy_in b demo_mem demo_pt 0x90000000 0x5fff 2 =
    Some (0, \<lambda>x. if x - 0x90000000 < 2 then demo_mem (user_byte b demo_mem demo_pt (0x5fff + (x - 0x90000000))) else demo_mem x)"
  proof (rule copy_in_copies)
    show "pt_global demo_pt" by (simp add: demo_pt_def)
    show "user_mapped demo_mem demo_pt (0x5fff + i)" if "i < 2" for i
      using c [OF that] demo_mapped by auto
    show "walk_outside demo_mem demo_pt (0x5fff + i) 0x90000000 2" if "i < 2" for i
      using wo [OF that] .
    show "2 \<le> user_byte b demo_mem demo_pt (0x5fff + i) - 0x90000000" if "i < 2" for i
      using c [OF that] demo_bytes by auto
  qed
  then show "\<exists>m'. copy_in b demo_mem demo_pt 0x90000000 0x5fff 2 = Some (0, m') \<and>
     m' 0x90000000 = demo_mem 0x80001fff \<and> m' 0x90000001 = demo_mem 0x80003000"
    by (simp add: demo_bytes)
qed

theorem user_pointer_panics_witness:
  "\<forall>b. copy_in b (\<lambda>_. 0) demo_pt 0x90000000 0x5000 16 = None \<and> copyout b (\<lambda>_. 0) demo_pt 0x5000 0x90000000 16 = None \<and>
     copy_str_in b (\<lambda>_. 0) demo_pt 0x90000000 0x5000 16 = None"
proof
  fix b
  have "ld64 (\<lambda>_. 0) a = 0" for a by (simp add: ld64_def)
  then show "copy_in b (\<lambda>_. 0) demo_pt 0x90000000 0x5000 16 = None \<and> copyout b (\<lambda>_. 0) demo_pt 0x5000 0x90000000 16 = None \<and>
     copy_str_in b (\<lambda>_. 0) demo_pt 0x90000000 0x5000 16 = None"
    by (intro user_pointer_panics) (simp_all add: demo_pt_def pte_is_valid_def)
qed

text \<open>
  C34: the kernel stacks of the process pool. For two different slots of the pool the 31 stack pages
  and the guard page below each do not overlap, and all of them lie in the kernel part of
  the address space.
\<close>

theorem kstacks_disjoint:
  assumes "g < h" and "h < num_process"
  shows "\<exists>s t. kstack_vm_from_gid g = Some s \<and> kstack_vm_from_gid h = Some t \<and>
    unat t + 32 * 4096 \<le> unat s \<and> unat s + 32 * 4096 \<le> unat vm_kernel_end \<and>
    unat vm_kernel_start < unat t"
proof -
  have st: "kstack_vm_from_gid x = Some (vm_kernel_end - of_nat (131072 * (unat x + 1)))" if "x < num_process" for x
  proof -
    have x: "unat x < 32" using that by (simp add: num_process_def word_less_nat_alt)
    have "push_bit page_size_shift ((x + 1) * (default_proc_kstack_pages + 1)) = of_nat (131072 * (unat x + 1))"
      by (simp add: push_bit_eq_mult default_proc_kstack_pages_def algebra_simps)
    then have "ucast (push_bit page_size_shift ((x + 1) * (default_proc_kstack_pages + 1))) =
        (of_nat (131072 * (unat x + 1)) :: u64)"
      using x by (simp only: word_unat_eq_iff unat_ucast_32_64 unat_of_nat) simp
    then show ?thesis using that by (simp add: kstack_vm_from_gid_def)
  qed
  have h: "unat g < unat h" "unat h < 32" using assms by (simp_all add: num_process_def word_less_nat_alt)
  have e: "unat vm_kernel_end = 274877906944" "unat vm_kernel_start = 206158430208"
    by (simp_all add: vm_kernel_end_def vm_kernel_start_def push_bit_eq_mult)
  have u: "unat (vm_kernel_end - of_nat (131072 * (n + 1))) = 274877906944 - 131072 * (n + 1)" if "n < 32" for n
  proof -
    have "unat (of_nat (131072 * (n + 1)) :: u64) = 131072 * (n + 1)" using that by (simp only: unat_of_nat) simp
    then show ?thesis using that e(1) by (simp only: unat_sub_if') simp
  qed
  have "g < num_process" using assms by simp
  moreover have "274877906944 - 131072 * (unat h + 1) + 32 * 4096 \<le> 274877906944 - 131072 * (unat g + 1)"
  proof -
    have "131072 * (unat g + 1) \<le> 131072 * unat h" using h(1) by simp
    moreover have "131072 * (unat h + 1) \<le> 131072 * 32" using h(2) by simp
    ultimately show ?thesis by (simp add: algebra_simps)
  qed
  moreover have "206158430208 < 274877906944 - 131072 * (unat h + 1)"
  proof -
    have "131072 * (unat h + 1) \<le> 131072 * 32" using h(2) by simp
    then show ?thesis by simp
  qed
  ultimately show ?thesis using st [of g] st [of h] assms(2) h e u [of "unat g"] u [of "unat h"]
    by (simp del: of_nat_mult of_nat_add)
qed

theorem kstacks_disjoint_witness:
  "\<exists>s t. kstack_vm_from_gid 0 = Some s \<and> kstack_vm_from_gid 31 = Some t \<and>
    unat t + 32 * 4096 \<le> unat s \<and> unat s + 32 * 4096 \<le> unat vm_kernel_end \<and>
    unat vm_kernel_start < unat t"
  by (rule kstacks_disjoint) (simp_all add: num_process_def)

end
