(* ===== verification/User_Streams.thy ===== *)
theory User_Streams
  imports Virt_Mem_Correct
begin

text \<open>
  Streams over user memory: \<^verbatim>\<open>UserspaceStream\<close> of \<^verbatim>\<open>kernel/mm/userspace_stream.cc\<close>, which system calls
  read and write user buffers with, and \<^verbatim>\<open>UserstackStream\<close> of \<^verbatim>\<open>kernel/mm/userstack_stream.cc\<close>, which
  builds the first user stack of a program. A stream keeps the kernel address of its current position in
  the current page. \<open>None\<close> is a panic of the walk or a loop that does not end.
\<close>

section \<open>Streams over a buffer\<close>

datatype us_code = Rc_ok | Rc_fail | Rc_not_open | Rc_no_mem | Rc_empty

record us_stream =
  us_start :: u64
  us_end :: u64
  us_pt :: pagetable
  us_ptr :: u64
  us_cache_ptr :: u64
  us_cache_end :: u64
  us_errno :: us_code

definition UserspaceStream :: "u64 \<Rightarrow> u64 \<Rightarrow> pagetable \<Rightarrow> us_stream" where
  "UserspaceStream u_addr_start u_size u_pt =
     \<lparr>us_start = u_addr_start, us_end = u_addr_start + u_size, us_pt = u_pt, us_ptr = 0,
      us_cache_ptr = 0, us_cache_end = 0, us_errno = Rc_ok\<rparr>"

definition us_update_cache :: "buddy \<Rightarrow> mem \<Rightarrow> us_stream \<Rightarrow> u64 \<Rightarrow> us_stream option" where
  "us_update_cache b m s va =
     do {
       pa \<leftarrow> walk_addr b m (us_pt s) va;
       let p = to_vir pa;
       Some (s\<lparr>us_cache_ptr := p, us_cache_end := if is_page_align va then p + page_size else page_round_up p\<rparr>)
     }"

definition us_open :: "buddy \<Rightarrow> mem \<Rightarrow> us_stream \<Rightarrow> us_stream option" where
  "us_open b m s = (let s = s\<lparr>us_ptr := us_start s\<rparr> in us_update_cache b m s (us_ptr s))"

definition us_close :: "us_stream \<Rightarrow> us_stream" where "us_close s = s\<lparr>us_ptr := 0\<rparr>"

definition us_rest_space :: "us_stream \<Rightarrow> u64" where "us_rest_space s = us_end s - us_ptr s"

definition us_advance :: "us_stream \<Rightarrow> u64 \<Rightarrow> us_stream" where
  "us_advance s l = s\<lparr>us_cache_ptr := us_cache_ptr s + l, us_ptr := us_ptr s + l\<rparr>"

definition us_clip :: "us_stream \<Rightarrow> u64 \<Rightarrow> u64" where
  "us_clip s len = (if us_ptr s + len > us_end s then us_end s - us_ptr s else len)"

partial_function (option) us_write_loop :: "buddy \<Rightarrow> mem \<Rightarrow> us_stream \<Rightarrow> u64 \<Rightarrow> u64 \<Rightarrow> (us_stream \<times> mem) option" where
  "us_write_loop b m s buf len =
     (if len > 0 then
        if us_cache_ptr s + len \<le> us_cache_end s
        then Some ((us_advance s len)\<lparr>us_errno := Rc_ok\<rparr>, memcpy m (us_cache_ptr s) buf len)
        else
          let l = us_cache_end s - us_cache_ptr s; m = memcpy m (us_cache_ptr s) buf l; s = us_advance s l
          in Option.bind (us_update_cache b m s (us_ptr s)) (\<lambda>s. us_write_loop b m s (buf + l) (len - l))
      else Some (s\<lparr>us_errno := Rc_ok\<rparr>, m))"

text \<open>\<^verbatim>\<open>operator<<\<close> and \<^verbatim>\<open>operator>>\<close> on a range of \<open>len\<close> bytes of kernel memory at \<open>buf\<close>.\<close>

definition us_write :: "buddy \<Rightarrow> mem \<Rightarrow> us_stream \<Rightarrow> u64 \<Rightarrow> u64 \<Rightarrow> (us_stream \<times> mem) option" where
  "us_write b m s buf len =
     (if us_ptr s = 0 then Some (s\<lparr>us_errno := Rc_not_open\<rparr>, m) else us_write_loop b m s buf (us_clip s len))"

partial_function (option) us_read_loop :: "buddy \<Rightarrow> mem \<Rightarrow> us_stream \<Rightarrow> u64 \<Rightarrow> u64 \<Rightarrow> (us_stream \<times> mem) option" where
  "us_read_loop b m s buf len =
     (if len > 0 then
        if us_cache_ptr s + len \<le> us_cache_end s
        then Some (us_advance s len, memcpy m buf (us_cache_ptr s) len)
        else
          let l = us_cache_end s - us_cache_ptr s; m = memcpy m buf (us_cache_ptr s) l; s = us_advance s l
          in Option.bind (us_update_cache b m s (us_ptr s)) (\<lambda>s. us_read_loop b m s (buf + l) (len - l))
      else Some (s, m))"

definition us_read :: "buddy \<Rightarrow> mem \<Rightarrow> us_stream \<Rightarrow> u64 \<Rightarrow> u64 \<Rightarrow> (us_stream \<times> mem) option" where
  "us_read b m s buf len =
     (if us_ptr s = 0 then Some (s\<lparr>us_errno := Rc_not_open\<rparr>, m) else us_read_loop b m s buf (us_clip s len))"

text \<open>
  Strings: reading appends characters until the terminator is read into the object at \<open>loc\<close>; at the end of the
  buffer a read leaves that object alone. Writing sends the \<open>n\<close> characters at \<open>str\<close> and a terminator.
\<close>

partial_function (option) us_read_string :: "buddy \<Rightarrow> mem \<Rightarrow> us_stream \<Rightarrow> u64 \<Rightarrow> u8 list \<Rightarrow> (u8 list \<times> us_stream \<times> mem) option" where
  "us_read_string b m s loc str =
     Option.bind (us_read b m s loc 1)
       (\<lambda>(s, m). if m loc = 0 then Some (str, s, m) else us_read_string b m s loc (str @ [m loc]))"

fun us_write_chars :: "buddy \<Rightarrow> mem \<Rightarrow> us_stream \<Rightarrow> u64 \<Rightarrow> nat \<Rightarrow> (us_stream \<times> mem) option" where
  "us_write_chars b m s str 0 = Some (s, m)"
| "us_write_chars b m s str (Suc n) = do { (s, m) \<leftarrow> us_write b m s str 1; us_write_chars b m s (str + 1) n }"

definition us_write_string :: "buddy \<Rightarrow> mem \<Rightarrow> us_stream \<Rightarrow> u64 \<Rightarrow> u64 \<Rightarrow> nat \<Rightarrow> (us_stream \<times> mem) option" where
  "us_write_string b m s loc str n = do { (s, m) \<leftarrow> us_write_chars b m s str n; us_write b (m(loc := 0)) s loc 1 }"

section \<open>Streams over the user stack\<close>

record ust_stream =
  st_base :: u64
  st_end :: u64
  st_pt :: pagetable
  st_sp :: u64
  st_cache_ptr :: u64
  st_cache_begin :: u64
  st_errno :: us_code

definition UserstackStream :: "u64 \<Rightarrow> u64 \<Rightarrow> pagetable \<Rightarrow> ust_stream" where
  "UserstackStream u_addr_start u_size u_pt =
     \<lparr>st_base = u_addr_start, st_end = u_addr_start + u_size, st_pt = u_pt, st_sp = 0,
      st_cache_ptr = 0, st_cache_begin = 0, st_errno = Rc_ok\<rparr>"

definition st_update_cache :: "buddy \<Rightarrow> mem \<Rightarrow> ust_stream \<Rightarrow> u64 \<Rightarrow> ust_stream option" where
  "st_update_cache b m s a =
     (if is_page_align a then do {
        pa \<leftarrow> walk_addr b m (st_pt s) (a - page_size);
        Some (s\<lparr>st_cache_begin := to_vir pa, st_cache_ptr := to_vir pa + page_size\<rparr>)
      }
      else do {
        pa \<leftarrow> walk_addr b m (st_pt s) a;
        Some (s\<lparr>st_cache_ptr := to_vir pa, st_cache_begin := page_round_down (to_vir pa)\<rparr>)
      })"

definition st_open :: "buddy \<Rightarrow> mem \<Rightarrow> ust_stream \<Rightarrow> ust_stream option" where
  "st_open b m s = (let s = s\<lparr>st_sp := st_end s\<rparr> in st_update_cache b m s (st_sp s))"

definition st_close :: "ust_stream \<Rightarrow> ust_stream" where "st_close s = s\<lparr>st_sp := 0\<rparr>"

text \<open>\<open>buf\<close> is the end of the bytes that are still to be pushed.\<close>

partial_function (option) st_push_loop :: "buddy \<Rightarrow> mem \<Rightarrow> ust_stream \<Rightarrow> u64 \<Rightarrow> u64 \<Rightarrow> (ust_stream \<times> mem) option" where
  "st_push_loop b m s buf len =
     (if len > 0 then
        if st_cache_ptr s - len \<ge> st_cache_begin s
        then Some (s\<lparr>st_cache_ptr := st_cache_ptr s - len, st_sp := st_sp s - len, st_errno := Rc_ok\<rparr>,
                   memcpy m (st_cache_ptr s - len) (buf - len) len)
        else
          let l = st_cache_ptr s - st_cache_begin s;
              s = s\<lparr>st_cache_ptr := st_cache_begin s, st_sp := st_sp s - l\<rparr>;
              m = memcpy m (st_cache_ptr s) (buf - l) l
          in Option.bind (st_update_cache b m s (st_sp s)) (\<lambda>s. st_push_loop b m s (buf - l) (len - l))
      else Some (s\<lparr>st_errno := Rc_ok\<rparr>, m))"

definition st_push :: "buddy \<Rightarrow> mem \<Rightarrow> ust_stream \<Rightarrow> u64 \<Rightarrow> u64 \<Rightarrow> (ust_stream \<times> mem) option" where
  "st_push b m s buf len =
     (if st_sp s = 0 then Some (s\<lparr>st_errno := Rc_not_open\<rparr>, m)
      else if st_sp s - len < st_base s then Some (s\<lparr>st_errno := Rc_no_mem\<rparr>, m)
      else st_push_loop b m s (buf + len) len)"

text \<open>When the range crosses a page, the code copies \<open>len\<close> bytes where only \<open>l\<close> are left in the page.\<close>

partial_function (option) st_pop_loop :: "buddy \<Rightarrow> mem \<Rightarrow> ust_stream \<Rightarrow> u64 \<Rightarrow> u64 \<Rightarrow> (ust_stream \<times> mem) option" where
  "st_pop_loop b m s buf len =
     (if len > 0 then
        if st_cache_ptr s + len \<le> st_cache_begin s + page_size
        then Some (s\<lparr>st_sp := st_sp s + len, st_cache_ptr := st_cache_ptr s + len, st_errno := Rc_ok\<rparr>,
                   memcpy m buf (st_cache_ptr s) len)
        else
          let l = st_cache_begin s + page_size - st_cache_ptr s;
              m = memcpy m buf (st_cache_ptr s) len;
              s = s\<lparr>st_sp := st_sp s + l\<rparr>
          in Option.bind (st_update_cache b m s (st_sp s)) (\<lambda>s. st_pop_loop b m s (buf + l) (len - l))
      else Some (s\<lparr>st_errno := Rc_ok\<rparr>, m))"

definition st_pop :: "buddy \<Rightarrow> mem \<Rightarrow> ust_stream \<Rightarrow> u64 \<Rightarrow> u64 \<Rightarrow> (ust_stream \<times> mem) option" where
  "st_pop b m s buf len =
     (if st_sp s = 0 then Some (s\<lparr>st_errno := Rc_not_open\<rparr>, m)
      else if st_sp s + len > st_end s then Some (s\<lparr>st_errno := Rc_empty\<rparr>, m)
      else st_pop_loop b m s buf len)"

text \<open>\<^verbatim>\<open>operator+=\<close> and \<^verbatim>\<open>operator-=\<close>.\<close>

definition st_move :: "buddy \<Rightarrow> mem \<Rightarrow> ust_stream \<Rightarrow> int \<Rightarrow> ust_stream option" where
  "st_move b m s move =
     (let moveto = st_cache_ptr s + word_of_int move
      in if moveto \<ge> st_cache_begin s \<and> moveto < st_cache_begin s + page_size
         then Some (s\<lparr>st_cache_ptr := moveto, st_sp := st_sp s + word_of_int move\<rparr>)
         else let s = s\<lparr>st_sp := st_sp s + word_of_int move\<rparr> in st_update_cache b m s (st_sp s))"

definition st_move_back :: "buddy \<Rightarrow> mem \<Rightarrow> ust_stream \<Rightarrow> int \<Rightarrow> ust_stream option" where
  "st_move_back b m s move = st_move b m s (- move)"

text \<open>
  Pushing a string whose \<open>n\<close> characters are at \<open>str\<close>: the terminator, an object of the kernel at \<open>loc\<close>, goes first, then the
  characters from the last to the first.
\<close>

fun st_push_chars :: "buddy \<Rightarrow> mem \<Rightarrow> ust_stream \<Rightarrow> u64 \<Rightarrow> nat \<Rightarrow> (ust_stream \<times> mem) option" where
  "st_push_chars b m s str 0 = Some (s, m)"
| "st_push_chars b m s str (Suc i) = do { (s, m) \<leftarrow> st_push b m s (str + of_nat i) 1; st_push_chars b m s str i }"

definition st_push_string :: "buddy \<Rightarrow> mem \<Rightarrow> ust_stream \<Rightarrow> u64 \<Rightarrow> u64 \<Rightarrow> nat \<Rightarrow> (ust_stream \<times> mem) option" where
  "st_push_string b m s loc str n = do { (s, m) \<leftarrow> st_push b (m(loc := 0)) s loc 1; st_push_chars b m s str n }"

text \<open>Reading a string from the stack, one character after the other into the object at \<open>loc\<close>.\<close>

partial_function (option) st_pop_string :: "buddy \<Rightarrow> mem \<Rightarrow> ust_stream \<Rightarrow> u64 \<Rightarrow> u8 list \<Rightarrow> (u8 list \<times> ust_stream \<times> mem) option" where
  "st_pop_string b m s loc str =
     Option.bind (st_pop b m s loc 1)
       (\<lambda>(s, m). if m loc = 0 then Some (str, s, m) else st_pop_string b m s loc (str @ [m loc]))"

section \<open>Reading\<close>

lemma or_offset: "is_page_align pa \<Longrightarrow> pa OR (va AND 4095) = pa + (va - page_round_down va)"
proof -
  assume al: "is_page_align pa"
  have "va AND 4095 = va - page_round_down va"
    by (simp add: word_unat_eq_iff unat_and_4095 unat_page_offset)
  moreover have "va AND 4095 < 4096" by (simp add: word_less_nat_alt unat_and_4095)
  ultimately show ?thesis using round_down_in_page(3) [OF al] by metis
qed

lemma walk_addr_byte:
  assumes "pt_global pt" "user_mapped M pt va"
  shows "walk_addr b M pt va = Some (user_byte b M pt va)"
proof -
  have "is_page_align (pte_to_pa M (leaf_slot M (pt_base pt) va))" by (simp add: is_page_align_iff pte_to_pa_mod)
  then show ?thesis
    using assms or_offset by (simp add: walk_addr_eq user_mapped_def user_byte_mapped)
qed

definition page_rest :: "u64 \<Rightarrow> u64" where "page_rest va = page_size - (va - page_round_down va)"

lemma page_rest: "unat (page_rest va) = 4096 - unat va mod 4096" "0 < page_rest va" "unat (page_rest va) \<le> 4096"
proof -
  have o: "unat (va - page_round_down va) = unat va mod 4096" by (rule unat_page_offset)
  have "unat va mod 4096 < 4096" by simp
  moreover have "va - page_round_down va \<le> page_size" using calculation by (simp add: word_le_nat_alt o)
  then have "unat (page_rest va) = unat page_size - unat (va - page_round_down va)"
    unfolding page_rest_def by (rule unat_sub)
  then show u: "unat (page_rest va) = 4096 - unat va mod 4096" unfolding o by simp
  show "0 < page_rest va" "unat (page_rest va) \<le> 4096"
    using \<open>unat va mod 4096 < 4096\<close> by (simp_all add: word_less_nat_alt u)
qed

lemma user_byte_offset:
  assumes "pt_global pt" "user_mapped M pt va"
  shows "unat (user_byte b M pt va) mod 4096 = unat va mod 4096"
proof -
  let ?pa = "pte_to_pa M (leaf_slot M (pt_base pt) va)"
  have "unat ?pa mod 4096 = 0" by (rule pte_to_pa_mod)
  moreover have "unat (?pa + (va - page_round_down va)) = unat ?pa + unat va mod 4096"
    using page_room [OF calculation] by (simp add: unat_word_ariths unat_page_offset)
  ultimately show ?thesis using user_byte_mapped [OF assms] by (simp add: mod_add_eq [symmetric])
qed

lemma us_update_cache_mapped:
  assumes w: "walk_addr b m (us_pt s) va = Some p" and o: "unat p mod 4096 = unat va mod 4096" and p: "unat p + 4096 < 2 ^ 64"
  shows "us_update_cache b m s va = Some (s\<lparr>us_cache_ptr := p, us_cache_end := p + page_rest va\<rparr>)"
proof (cases "is_page_align va")
  case True
  then have "page_rest va = page_size" by (simp add: page_rest_def page_round_down_id)
  then show ?thesis using w True by (simp add: us_update_cache_def)
next
  case False
  then have nz: "0 < unat p mod 4096" using o by (simp add: is_page_align_iff)
  have up: "unat (page_round_up p) = (unat p + 4095) div 4096 * 4096" using p by (intro unat_page_round_up) simp
  also have "\<dots> = unat p + (4096 - unat p mod 4096)"
  proof -
    define q r where "q = unat p div 4096" and "r = unat p mod 4096"
    have d: "unat p = 4096 * q + r" "0 < r" "r < 4096" using nz by (simp_all add: q_def r_def)
    have "(unat p + 4095) div 4096 = q + 1" unfolding d(1) using d(2,3) by (intro div_nat_eqI) simp_all
    then show ?thesis unfolding r_def [symmetric] using d by simp
  qed
  also have "\<dots> = unat (p + page_rest va)"
    using p o page_rest(1) [of va] page_rest(3) [of va] by (simp add: unat_word_ariths)
  finally have "page_round_up p = p + page_rest va" by (simp add: word_unat_eq_iff)
  then show ?thesis using w False by (simp add: us_update_cache_def)
qed

lemma us_read_step:
  assumes t: "transfer b M pt dst0 src0 len0" and m: "same_outside M dst0 len0 m" and k: "k < len0"
    and bd: "\<And>i. i < len0 \<Longrightarrow> unat (user_byte b M pt (src0 + i)) < 2 ^ 63" "unat len0 < 2 ^ 63 - 2 ^ 12"
    and s: "us_pt s = pt" "us_ptr s = src0 + k" "us_cache_ptr s = user_byte b M pt (src0 + k)"
      "us_cache_end s = us_cache_ptr s + page_rest (src0 + k)"
  shows "\<exists>s'. us_read_loop b m s (dst0 + k) (len0 - k) = Some (s', moved b M pt dst0 src0 k len0 m) \<and>
    us_ptr s' = src0 + len0 \<and> us_end s' = us_end s"
  using m k s
proof (induction "unat (len0 - k)" arbitrary: k m s rule: less_induct)
  case less
  let ?v = "src0 + k" and ?l = "len0 - k"
  let ?n = "chunk ?v ?l" and ?u = "user_byte b M pt ?v"
  let ?m1 = "moved b M pt dst0 src0 k (k + ?n) m"
  note kl = less.prems(2) and s = less.prems(3-6)
  have len: "0 < ?l" using kl by (simp add: word_gt_0)
  note ar = chunk_arith [OF kl, of ?v]
  note mv = chunk_moved [OF t less.prems(1) kl]
  have n: "?n = (if page_rest ?v > ?l then ?l else page_rest ?v)" by (simp add: chunk_def page_rest_def Let_def)
  have "unat ?l \<le> unat len0" using kl by (simp add: unat_sub word_le_nat_alt word_less_nat_alt)
  then have le: "?u + ?l \<le> ?u + page_rest ?v \<longleftrightarrow> ?l \<le> page_rest ?v"
    using bd(1) [OF kl] bd(2) page_rest(3) [of ?v] by (simp add: word_le_nat_alt unat_word_ariths)
  show ?case
  proof (cases "?l \<le> page_rest ?v")
    case True
    then have nl: "?n = ?l" using n by auto
    have kn: "k + ?l = len0" by simp
    have "us_read_loop b m s (dst0 + k) ?l = Some (us_advance s ?l, moved b M pt dst0 src0 k len0 m)"
      using True le len s mv(2) unfolding nl kn by (subst us_read_loop.simps) simp
    then show ?thesis using s by (simp add: us_advance_def)
  next
    case False
    then have nl: "?n = page_rest ?v" using n by auto
    have "?n < ?l" using False nl by simp
    then have kn: "k + ?n < len0"
      using ar(3,4) kl by (auto simp: word_less_nat_alt unat_sub word_le_nat_alt)
    let ?s = "us_advance s ?n"
    let ?w = "src0 + (k + ?n)"
    have mp: "user_mapped M pt ?w" "pt_global pt" using t kn by (simp_all add: transfer_def)
    have w: "walk_addr b ?m1 pt ?w = Some (user_byte b M pt ?w)"
      using chunk_source(2) [OF t mv(3) kn] walk_addr_byte [OF mp(2,1)] by simp
    have uc: "us_update_cache b ?m1 ?s (us_ptr ?s) =
        Some (?s\<lparr>us_cache_ptr := user_byte b M pt ?w, us_cache_end := user_byte b M pt ?w + page_rest ?w\<rparr>)"
      using us_update_cache_mapped [of b ?m1 ?s ?w] w user_byte_offset [OF mp(2,1)] bd(1) [OF kn] s
      by (simp add: us_advance_def add.assoc)
    let ?s2 = "?s\<lparr>us_cache_ptr := user_byte b M pt ?w, us_cache_end := user_byte b M pt ?w + page_rest ?w\<rparr>"
    have "us_read_loop b m s (dst0 + k) ?l = us_read_loop b ?m1 ?s2 (dst0 + (k + ?n)) (len0 - (k + ?n))"
      using False le len s mv(2) uc unfolding nl [symmetric]
      by (subst us_read_loop.simps) (simp add: nl [symmetric] Let_def add.assoc diff_diff_eq)
    moreover have "\<exists>s'. us_read_loop b ?m1 ?s2 (dst0 + (k + ?n)) (len0 - (k + ?n)) =
        Some (s', moved b M pt dst0 src0 (k + ?n) len0 ?m1) \<and> us_ptr s' = src0 + len0 \<and> us_end s' = us_end ?s2"
      by (rule less.hyps [OF ar(6) mv(3) kn]) (use s in \<open>simp_all add: us_advance_def add.assoc\<close>)
    ultimately show ?thesis unfolding mv(4) by (simp add: us_advance_def)
  qed
qed

lemma us_read_copy:
  assumes t: "transfer b m pt dst src len" and len: "0 < len" "unat len < 2 ^ 63 - 2 ^ 12"
    and bd: "\<And>i. i < len \<Longrightarrow> unat (user_byte b m pt (src + i)) < 2 ^ 63"
    and sz: "src \<noteq> 0" "unat src + unat sz < 2 ^ 64" "len \<le> sz"
  shows "\<exists>s s'. us_open b m (UserspaceStream src sz pt) = Some s \<and>
    us_read b m s dst len = Some (s', moved b m pt dst src 0 len m) \<and> us_rest_space s' = sz - len"
proof -
  let ?p = "user_byte b m pt src"
  have mp: "user_mapped m pt src" "pt_global pt" using t len(1) by (auto simp: transfer_def dest: spec [of _ 0])
  let ?t = "(UserspaceStream src sz pt)\<lparr>us_ptr := src\<rparr>"
  let ?s = "?t\<lparr>us_cache_ptr := ?p, us_cache_end := ?p + page_rest src\<rparr>"
  have "us_open b m (UserspaceStream src sz pt) = Some ?s"
  proof -
    have "us_update_cache b m ?t src = Some ?s"
      by (rule us_update_cache_mapped)
         (use walk_addr_byte [OF mp(2,1)] user_byte_offset [OF mp(2,1)] bd [of 0] len(1) in \<open>simp_all add: UserspaceStream_def\<close>)
    then show ?thesis by (simp add: us_open_def Let_def UserspaceStream_def)
  qed
  moreover have "us_clip ?s len = len"
    using sz by (simp add: us_clip_def UserspaceStream_def word_less_nat_alt word_le_nat_alt unat_word_ariths)
  moreover obtain s' where s': "us_read_loop b m ?s dst len = Some (s', moved b m pt dst src 0 len m)"
    "us_ptr s' = src + len" "us_end s' = us_end ?s"
    using us_read_step [OF t _ len(1) bd len(2), of m ?s] by (auto simp: UserspaceStream_def same_outside_def)
  ultimately show ?thesis using sz(1)
    by (auto simp: us_read_def us_rest_space_def UserspaceStream_def)
qed

text \<open>A stream whose page has no byte left and whose address stays unmapped.\<close>

definition us_stuck :: "buddy \<Rightarrow> mem \<Rightarrow> us_stream \<Rightarrow> u64 \<Rightarrow> bool" where
  "us_stuck b m s len \<longleftrightarrow> walk_addr b m (us_pt s) (us_ptr s) = Some 0 \<and> \<not> is_page_align (us_ptr s) \<and>
     us_cache_ptr s = 0 \<and> us_cache_end s = 0 \<and> 0 < len"

lemma memcpy_none: "memcpy m dst src 0 = m"
  by (simp add: memcpy_def memcpy_loop.simps)

lemma us_read_stuck:
  assumes "us_read_loop b m s buf len = Some r"
  shows "\<not> us_stuck b m s len"
  using assms
proof (rule us_read_loop.raw_induct [where P = "\<lambda>b m s buf len r. \<not> us_stuck b m s len", rotated])
  fix rd :: "buddy \<Rightarrow> mem \<Rightarrow> us_stream \<Rightarrow> u64 \<Rightarrow> u64 \<Rightarrow> (us_stream \<times> mem) option" and b m s buf len r
  assume IH: "\<And>b m s buf len r. rd b m s buf len = Some r \<Longrightarrow> \<not> us_stuck b m s len"
  assume body: "(if len > 0 then
        if us_cache_ptr s + len \<le> us_cache_end s
        then Some (us_advance s len, memcpy m buf (us_cache_ptr s) len)
        else
          let l = us_cache_end s - us_cache_ptr s; m = memcpy m buf (us_cache_ptr s) l; s = us_advance s l
          in Option.bind (us_update_cache b m s (us_ptr s)) (\<lambda>s. rd b m s (buf + l) (len - l))
      else Some (s, m)) = Some r"
  show "\<not> us_stuck b m s len"
  proof
    assume st: "us_stuck b m s len"
    have z: "page_round_up 0 = 0" "us_advance s 0 = s" by (simp_all add: page_round_up_def us_advance_def)
    then have "us_update_cache b m s (us_ptr s) = Some s"
      using st by (simp add: us_stuck_def us_update_cache_def)
    then have "rd b m s buf len = Some r"
      using body st z(2) by (auto simp: us_stuck_def memcpy_none Let_def split: if_splits)
    then show False using IH st by blast
  qed
qed

section \<open>Properties\<close>

text \<open>
  C16: reading a user buffer through a stream is the same as \<^verbatim>\<open>copy_in\<close>. On a stream opened over a buffer
  of \<open>sz\<close> bytes, reading \<open>len\<close> bytes of mapped user memory fills the kernel buffer
  with the same bytes as the reference routine, page by page, leaves the rest of memory alone, and
  leaves \<open>sz - len\<close> bytes in the stream.
\<close>

theorem stream_read_is_copy_in:
  assumes "transfer b m pt dst src len" "0 < len" "unat len < 2 ^ 63 - 2 ^ 12"
    and "\<And>i. i < len \<Longrightarrow> unat (user_byte b m pt (src + i)) < 2 ^ 63"
    and "src \<noteq> 0" "unat src + unat sz < 2 ^ 64" "len \<le> sz"
  shows "\<exists>s s' m'. us_open b m (UserspaceStream src sz pt) = Some s \<and> us_read b m s dst len = Some (s', m') \<and>
    us_rest_space s' = sz - len \<and> copy_in b m pt dst src len = Some (0, m')"
  using us_read_copy [OF assms] copy_in_step [OF assms(1), of m 0] by (auto simp: same_outside_def)

theorem stream_read_is_copy_in_witness:
  "\<forall>b. \<exists>s s' m'. us_open b demo_mem (UserspaceStream 0x5fff 16 demo_pt) = Some s \<and>
     us_read b demo_mem s 0x90000000 2 = Some (s', m') \<and> us_rest_space s' = 14 \<and>
     copy_in b demo_mem demo_pt 0x90000000 0x5fff 2 = Some (0, m')"
proof
  fix b
  have c: "i = 0 \<or> i = 1" if "i < 2" for i :: u64 using less_2_cases [OF that] .
  have "transfer b demo_mem demo_pt 0x90000000 0x5fff 2"
    unfolding transfer_def
  proof (intro conjI allI impI)
    show "pt_global demo_pt" by (simp add: demo_pt_def)
    fix i :: u64
    assume "i < 2"
    show "user_mapped demo_mem demo_pt (0x5fff + i)" using c [OF \<open>i < 2\<close>] demo_mapped by auto
    show "walk_outside demo_mem demo_pt (0x5fff + i) 0x90000000 2"
      using c [OF \<open>i < 2\<close>] demo_slots [OF demo_nums(6,4,5)] demo_slots [OF demo_nums(9,7,8)]
      by (auto simp: walk_outside_def demo_pt_def dest!: less_8_cases)
    show "2 \<le> user_byte b demo_mem demo_pt (0x5fff + i) - 0x90000000" using c [OF \<open>i < 2\<close>] demo_bytes by auto
  qed
  moreover have "unat (user_byte b demo_mem demo_pt (0x5fff + i)) < 2 ^ 63" if "i < 2" for i
    using c [OF that] demo_bytes by auto
  ultimately show "\<exists>s s' m'. us_open b demo_mem (UserspaceStream 0x5fff 16 demo_pt) = Some s \<and>
     us_read b demo_mem s 0x90000000 2 = Some (s', m') \<and> us_rest_space s' = 14 \<and>
     copy_in b demo_mem demo_pt 0x90000000 0x5fff 2 = Some (0, m')"
    using stream_read_is_copy_in [of b demo_mem demo_pt "0x90000000" "0x5fff" 2 16] by simp
qed

text \<open>
  C31: a stream over an unmapped user address that is not page-aligned hangs the kernel. The walk
  gives the null address, whose page the stream takes to have no byte left, so the copying loop makes no progress and never
  ends; it does so for every length but 0.
\<close>

theorem stream_hangs_on_unmapped:
  assumes "walk_addr b m pt src = Some 0" "\<not> is_page_align src" "0 < len" "len \<le> sz" "unat src + unat sz < 2 ^ 64"
  shows "\<exists>s. us_open b m (UserspaceStream src sz pt) = Some s \<and> us_read b m s dst len = None"
proof -
  let ?s = "(UserspaceStream src sz pt)\<lparr>us_ptr := src\<rparr>"
  have z: "page_round_up 0 = 0" by (simp add: page_round_up_def)
  then have o: "us_open b m (UserspaceStream src sz pt) = Some ?s"
    using assms(1,2) by (simp add: us_open_def us_update_cache_def UserspaceStream_def Let_def)
  have "us_clip ?s len = len"
    using assms(4,5) by (simp add: us_clip_def UserspaceStream_def word_less_nat_alt word_le_nat_alt unat_word_ariths)
  moreover have "us_stuck b m ?s len" using assms(1-3) by (simp add: us_stuck_def UserspaceStream_def)
  then have "us_read_loop b m ?s dst len = None" using us_read_stuck by (cases "us_read_loop b m ?s dst len") auto
  moreover have "src \<noteq> 0" using assms(2) by (auto simp: is_page_align_iff)
  ultimately show ?thesis using o by (simp add: us_read_def)
qed

theorem stream_hangs_on_unmapped_witness:
  "\<forall>b. walk_addr b demo_mem demo_pt 0x7123 = Some 0 \<and>
     (\<exists>s. us_open b demo_mem (UserspaceStream 0x7123 16 demo_pt) = Some s \<and> us_read b demo_mem s 0x90000000 1 = None)"
proof
  fix b
  have n: "pt_num 0x7123 = 7" "pud_num 0x7123 = 0" "pmd_num 0x7123 = 0"
    by (simp_all add: pud_num_def pmd_num_def pt_num_def pud_mask_def pmd_mask_def pt_mask_def)
  have "walk_addr b demo_mem demo_pt 0x7123 = Some 0"
    using demo_slots [OF n] by (simp add: walk_addr_eq demo_pt_def user_leaf_def pte_is_valid_def demo_entries)
  then show "walk_addr b demo_mem demo_pt 0x7123 = Some 0 \<and>
     (\<exists>s. us_open b demo_mem (UserspaceStream 0x7123 16 demo_pt) = Some s \<and> us_read b demo_mem s 0x90000000 1 = None)"
    using stream_hangs_on_unmapped [of b demo_mem demo_pt "0x7123" 1 16 "0x90000000"] by (simp add: is_page_align_iff)
qed

end
