(* ===== verification/Sys_Runs.thy ===== *)
theory Sys_Runs
  imports Proc_Calls User_Streams
begin

text \<open>
  What system calls are made of. A call runs on behalf of a process, may give the processor away in
  the middle (a full pipe, a child that is still alive, a tick that has not come) and goes on
  in whatever state it finds when the process is scheduled again. A \<open>run\<close> is such a computation;
  the loops that sleep are instances of one corecursive loop. The theory also has the timer (\<^verbatim>\<open>tm/timer_manager.cc\<close>), the
  signal tables (\<^verbatim>\<open>pm/ipc/signal.cc\<close>), and reading and writing of an open file of any kind.
\<close>

section \<open>State and runs\<close>

text \<open>The layout of \<^verbatim>\<open>asm-generic/signal.h\<close>.\<close>

record sigact =
  sa_handler :: u64
  sa_flags :: u64
  sa_mask :: u64

text \<open>The process manager's state with the list of unlinked names and the signal actions per slot.\<close>

record sys =
  s_kern :: kern
  s_unlinked :: "string list"
  s_sigacts :: "nat \<Rightarrow> nat \<Rightarrow> sigact"

text \<open>
  The surroundings of one call: what file systems and stream devices answer, the hardware clock, the kernel
  addresses of the call's local objects (\<open>e_loc\<close>) and of the buffers \<^verbatim>\<open>new\<close> gives it (\<open>e_new\<close>).
\<close>

record env =
  e_ops :: inode_ops
  e_info :: node_info
  e_mount :: "nat \<Rightarrow> nat \<Rightarrow> nat \<Rightarrow> string \<Rightarrow> vfs \<Rightarrow> (int \<times> vfs) option"
  e_umount :: "nat \<Rightarrow> nat \<Rightarrow> vfs \<Rightarrow> (int \<times> vfs) option"
  e_dev_read :: "nat \<Rightarrow> mem \<Rightarrow> u64 \<Rightarrow> u64 \<Rightarrow> int \<times> mem"
  e_dev_write :: "nat \<Rightarrow> mem \<Rightarrow> u64 \<Rightarrow> u64 \<Rightarrow> int"
  e_time :: u64
  e_loc :: "nat \<Rightarrow> u64"
  e_new :: "nat \<Rightarrow> u64"

text \<open>
  A run is done with a result, has stopped the kernel, has ended the process, or has switched to the
  scheduler and waits to be resumed.
\<close>

codatatype run = is_done: Done (run_value: u64) (run_state: sys) | Panics | Ends (run_state: sys)
  | Switch (switch_in: sys) (resumed: "sys \<Rightarrow> run")

definition on_kern :: "sys \<Rightarrow> kern \<Rightarrow> sys" where "on_kern s k = s\<lparr>s_kern := k\<rparr>"

definition finish :: "(u64 \<times> sys) option \<Rightarrow> run" where
  "finish r = (case r of None \<Rightarrow> Panics | Some (v, s) \<Rightarrow> Done v s)"

definition attempt :: "'a option \<Rightarrow> ('a \<Rightarrow> run) \<Rightarrow> run" where
  "attempt r c = (case r of None \<Rightarrow> Panics | Some x \<Rightarrow> c x)"

text \<open>What a caller does with the result of a run.\<close>

primcorec then_run :: "run \<Rightarrow> (u64 \<Rightarrow> sys \<Rightarrow> run) \<Rightarrow> run" where
  "then_run r c =
     (case r of Done v s \<Rightarrow> c v s | Panics \<Rightarrow> Panics | Ends s \<Rightarrow> Ends s
      | Switch s g \<Rightarrow> Switch s (\<lambda>s. then_run (g s) c))"

text \<open>
  One pass of a sleeping loop, and the loop: \<open>p\<close> is what it remembers over a sleep. Waking up clears the channel.
\<close>

datatype 'p pass = is_crash: Crash | Waits (kept: 'p) (left_in: sys) | Gives (given: int) (left_in: sys)

primcorec run_loop :: "nat \<Rightarrow> ('p \<Rightarrow> sys \<Rightarrow> 'p pass) \<Rightarrow> (int \<Rightarrow> sys \<Rightarrow> run) \<Rightarrow> 'p \<Rightarrow> sys \<Rightarrow> run" where
  "run_loop i body c p s =
     (case body p s of
        Crash \<Rightarrow> Panics
      | Waits q s \<Rightarrow> Switch s (\<lambda>s. run_loop i body c q (on_kern s (sleep_resume (s_kern s) i)))
      | Gives r s \<Rightarrow> c r s)"

section \<open>Timer\<close>

definition qemu_fre :: u64 where "qemu_fre = 3125000"
definition time_stamp_to_usec :: "u64 \<Rightarrow> u64" where "time_stamp_to_usec ts = ts * 8 div 25"
definition usec_to_time_stamp :: "u64 \<Rightarrow> u64" where "usec_to_time_stamp us = us * 25 div 8"
definition div_fre :: u32 where "div_fre = drop_bit 2 200000"
definition cycles_per_tick :: u64 where "cycles_per_tick = ucast (push_bit 2 div_fre)"

definition timer_init :: "kern \<Rightarrow> kern" where "timer_init k = k\<lparr>k_ticks := 0\<rparr>"

definition handle_clock_intr :: "kern \<Rightarrow> kern" where
  "handle_clock_intr k = wakeup (k\<lparr>k_ticks := k_ticks k + 1\<rparr>) Chan_ticks"

text \<open>Seconds and microseconds since the start; \<open>stamp\<close> is what the hardware clock shows.\<close>

definition get_time_val :: "kern \<Rightarrow> u64 \<Rightarrow> u64 \<times> u64" where
  "get_time_val k stamp =
     (let t_val = stamp + k_ticks k * cycles_per_tick
      in (t_val div qemu_fre, time_stamp_to_usec (t_val mod qemu_fre)))"

definition sleep_ticks_once :: "nat \<Rightarrow> int \<Rightarrow> u64 \<Rightarrow> sys \<Rightarrow> u64 pass" where
  "sleep_ticks_once i n tick_tmp s =
     (let k = s_kern s
      in if k_ticks k - tick_tmp < word_of_int n then
           if pr_killed (k_pool k i) then Gives (- 2) s else Waits tick_tmp (on_kern s (sleep_on k i Chan_ticks))
         else Gives 0 s)"

definition sleep_n_ticks :: "nat \<Rightarrow> int \<Rightarrow> (int \<Rightarrow> sys \<Rightarrow> run) \<Rightarrow> sys \<Rightarrow> run" where
  "sleep_n_ticks i n c s =
     (if n < 0 then c (- 1) s else run_loop i (sleep_ticks_once i n) c (k_ticks (s_kern s)) s)"

text \<open>The number of ticks becomes an \<^verbatim>\<open>int\<close>.\<close>

definition to_int :: "u64 \<Rightarrow> int" where "to_int w = signed_take_bit 31 (uint w)"

definition ticks_of_tv :: "u64 \<Rightarrow> u64 \<Rightarrow> u64" where
  "ticks_of_tv sec usec = (sec * qemu_fre + usec_to_time_stamp usec) div cycles_per_tick"

definition sleep_from_tv :: "nat \<Rightarrow> u64 \<Rightarrow> u64 \<Rightarrow> (int \<Rightarrow> sys \<Rightarrow> run) \<Rightarrow> sys \<Rightarrow> run" where
  "sleep_from_tv i sec usec c s = sleep_n_ticks i (to_int (ticks_of_tv sec usec)) c s"

section \<open>Signals\<close>

definition SIGRTMAX :: int where "SIGRTMAX = 64"
definition SIGQUIT :: int where "SIGQUIT = 3"
definition SIGKILL :: int where "SIGKILL = 9"
definition SIGSTOP :: int where "SIGSTOP = 19"

text \<open>The action to install and whether the old one is asked for; the old one is part of the result.\<close>

definition sigAction :: "sys \<Rightarrow> nat \<Rightarrow> int \<Rightarrow> sigact option \<Rightarrow> bool \<Rightarrow> int \<times> sigact option \<times> sys" where
  "sigAction s i flag newact want_old =
     (if flag \<le> 0 \<or> flag \<ge> SIGRTMAX \<or> flag = SIGKILL \<or> flag = SIGQUIT then (- 1, None, s)
      else
        let j = nat (flag - 1); old = (if want_old then Some (s_sigacts s i j) else None)
        in (0, old, case newact of
              None \<Rightarrow> s
            | Some a \<Rightarrow> s\<lparr>s_sigacts := (s_sigacts s)(i := (s_sigacts s i)(j := a))\<rparr>))"

definition unblockable :: u64 where "unblockable = push_bit (nat (SIGKILL - 1)) 1 OR push_bit (nat (SIGSTOP - 1)) 1"

definition sigprocmask :: "kern \<Rightarrow> nat \<Rightarrow> int \<Rightarrow> u64 option \<Rightarrow> u64 \<Rightarrow> int \<times> u64 option \<times> kern" where
  "sigprocmask k i how newset sigsize =
     (if sigsize \<noteq> 8 then (- 22, None, k)
      else
        let old = pr_sigmask (k_pool k i)
        in case newset of
             None \<Rightarrow> (0, Some old, k)
           | Some new \<Rightarrow>
               if how \<notin> {0, 1, 2} then (- 22, Some old, k)
               else
                 let msk = (if how = 0 then old OR new else if how = 1 then old AND NOT new else new)
                 in (0, Some old, upd k i (\<lambda>p. p\<lparr>pr_sigmask := msk AND NOT unblockable\<rparr>)))"

section \<open>Reading and writing open files\<close>

definition put_file :: "sys \<Rightarrow> nat \<Rightarrow> kfile \<Rightarrow> fstate \<Rightarrow> mem \<Rightarrow> sys" where
  "put_file s f x st m = on_kern s ((s_kern s)\<lparr>k_fs := set_file st f (Some x), k_mem := m\<rparr>)"

definition put_pipe :: "sys \<Rightarrow> nat \<Rightarrow> pipe \<Rightarrow> mem \<Rightarrow> channel list \<Rightarrow> sys" where
  "put_pipe s p x m ws =
     (let k = s_kern s; k = k\<lparr>k_fs := (k_fs k)\<lparr>fs_pipes := (fs_pipes (k_fs k))(p := Some x)\<rparr>, k_mem := m\<rparr>
      in on_kern s (fold (\<lambda>c k. wakeup k (Chan_pipe p c)) ws k))"

text \<open>One pass of the loops of \<^verbatim>\<open>Pipe::read\<close> and \<^verbatim>\<open>Pipe::write_in_kernel\<close>; the second remembers how many bytes it has written.\<close>

definition pipe_read_once :: "nat \<Rightarrow> nat \<Rightarrow> u64 \<Rightarrow> int \<Rightarrow> nat \<Rightarrow> sys \<Rightarrow> nat pass" where
  "pipe_read_once i p addr n j s =
     (let k = s_kern s
      in case fs_pipes (k_fs k) p of
           None \<Rightarrow> Crash
         | Some x \<Rightarrow>
             (case read_run (k_mem k) (pr_killed (k_pool k i)) addr n x of
                (Returned r, x, m, ws) \<Rightarrow> Gives r (put_pipe s p x m ws)
              | (Asleep ch j, x, m, ws) \<Rightarrow>
                  let s = put_pipe s p x m ws in Waits j (on_kern s (sleep_on (s_kern s) i (Chan_pipe p ch)))))"

definition pipe_write_once :: "nat \<Rightarrow> nat \<Rightarrow> u64 \<Rightarrow> int \<Rightarrow> nat \<Rightarrow> sys \<Rightarrow> nat pass" where
  "pipe_write_once i p addr n j s =
     (let k = s_kern s
      in case fs_pipes (k_fs k) p of
           None \<Rightarrow> Crash
         | Some x \<Rightarrow>
             (case write_in_kernel_run (k_mem k) (pr_killed (k_pool k i)) addr n j x of
                (Returned r, x, ws) \<Rightarrow> Gives r (put_pipe s p x (k_mem k) ws)
              | (Asleep ch j, x, ws) \<Rightarrow>
                  let s = put_pipe s p x (k_mem k) ws in Waits j (on_kern s (sleep_on (s_kern s) i (Chan_pipe p ch)))))"

text \<open>A device's entry is read and written through the node behind it; the result is an \<^verbatim>\<open>int\<close>.\<close>

definition device_node :: "kern \<Rightarrow> nat option \<Rightarrow> nat option option" where
  "device_node k d = map_option (\<lambda>d. d_node (d_pool (fs_vfs (k_fs k)) d)) d"

definition device_read :: "env \<Rightarrow> kern \<Rightarrow> kfile \<Rightarrow> nat option \<Rightarrow> u64 \<Rightarrow> u64 \<Rightarrow> (int \<times> mem) option" where
  "device_read e k x d buf len =
     (if \<not> u_read (f_attrs x) then Some (- 1, k_mem k)
      else do {
        n \<leftarrow> device_node k d;
        Some (case n of None \<Rightarrow> (- 1, k_mem k) | Some n \<Rightarrow> e_dev_read e n (k_mem k) buf len)
      })"

definition device_write :: "env \<Rightarrow> kern \<Rightarrow> kfile \<Rightarrow> nat option \<Rightarrow> u64 \<Rightarrow> u64 \<Rightarrow> int option" where
  "device_write e k x d buf len =
     (if \<not> u_write (f_attrs x) then Some (- 1)
      else do {
        n \<leftarrow> device_node k d;
        Some (case n of None \<Rightarrow> - 1 | Some n \<Rightarrow> e_dev_write e n (k_mem k) buf len)
      })"

text \<open>The virtual calls \<^verbatim>\<open>f->read\<close> and \<^verbatim>\<open>f->write\<close>; \<open>c\<close> is what the caller does with the result.\<close>

definition fread :: "env \<Rightarrow> nat \<Rightarrow> nat \<Rightarrow> u64 \<Rightarrow> u64 \<Rightarrow> int \<Rightarrow> bool \<Rightarrow> (int \<Rightarrow> sys \<Rightarrow> run) \<Rightarrow> sys \<Rightarrow> run" where
  "fread e i f buf len off upgrade c s =
     (let k = s_kern s
      in attempt (fs_files (k_fs k) f) (\<lambda>x.
           case f_kind x of
             NormalFile d \<Rightarrow> attempt (file_read (k_fs k) (k_mem k) x buf len off upgrade)
               (\<lambda>(r, x, m). c r (put_file s f x (k_fs k) m))
           | DeviceFile d \<Rightarrow> attempt (device_read e k x d buf len) (\<lambda>(r, m). c r (on_kern s (k\<lparr>k_mem := m\<rparr>)))
           | PipeFile p w \<Rightarrow> run_loop i (pipe_read_once i p buf (to_int len)) c 0 s))"

definition fwrite :: "env \<Rightarrow> nat \<Rightarrow> nat \<Rightarrow> u64 \<Rightarrow> u64 \<Rightarrow> int \<Rightarrow> bool \<Rightarrow> (int \<Rightarrow> sys \<Rightarrow> run) \<Rightarrow> sys \<Rightarrow> run" where
  "fwrite e i f buf len off upgrade c s =
     (let k = s_kern s
      in attempt (fs_files (k_fs k) f) (\<lambda>x.
           case f_kind x of
             NormalFile d \<Rightarrow> attempt (file_write (k_fs k) (k_mem k) x buf len off upgrade)
               (\<lambda>(r, x, st). c r (put_file s f x st (k_mem k)))
           | DeviceFile d \<Rightarrow> attempt (device_write e k x d buf len) (\<lambda>r. c r s)
           | PipeFile p w \<Rightarrow> run_loop i (pipe_write_once i p buf (to_int len)) c 0 s))"

text \<open>\<^verbatim>\<open>get_file_offset\<close>.\<close>

definition file_offset :: "sys \<Rightarrow> nat \<Rightarrow> int option" where
  "file_offset s f = map_option f_ptr (fs_files (k_fs (s_kern s)) f)"

end
