(* ===== verification/System_Calls.thy ===== *)
theory System_Calls
  imports Sys_Runs
begin

text \<open>
  The system call layer \<^verbatim>\<open>kernel/syscall/syscall_handler.cc\<close>: fetching of arguments from the trap
  frame and from user memory, the handlers, and the table that dispatches to them. A handler that
  cannot sleep gives its result and the new state, \<open>None\<close> when the kernel stops; the others are runs.
  Output of messages is left out.
\<close>

section \<open>Arguments\<close>

definition get_arg_from_trap_frame :: "mem \<Rightarrow> u64 \<Rightarrow> nat \<Rightarrow> u64 option" where
  "get_arg_from_trap_frame m tf n = (if n \<le> 5 then Some (ld64 m (tf + 112 + 8 * of_nat n)) else None)"

definition arg_raw :: "sys \<Rightarrow> nat \<Rightarrow> nat \<Rightarrow> u64 option" where
  "arg_raw s i n = get_arg_from_trap_frame (k_mem (s_kern s)) (pr_trapframe (k_pool (s_kern s) i)) n"

definition arg_int :: "sys \<Rightarrow> nat \<Rightarrow> nat \<Rightarrow> int option" where "arg_int s i n = map_option to_int (arg_raw s i n)"
definition arg_addr :: "sys \<Rightarrow> nat \<Rightarrow> nat \<Rightarrow> u64 option" where "arg_addr s i n = arg_raw s i n"

text \<open>The descriptor and its file, when it is open.\<close>

definition arg_fd :: "sys \<Rightarrow> nat \<Rightarrow> nat \<Rightarrow> (int \<times> nat) option option" where
  "arg_fd s i n =
     do { fd \<leftarrow> arg_int s i n; Some (map_option (\<lambda>f. (fd, f)) (get_open_file (s_kern s) i fd)) }"

definition set_mem :: "sys \<Rightarrow> mem \<Rightarrow> sys" where "set_mem s m = on_kern s ((s_kern s)\<lparr>k_mem := m\<rparr>)"

definition user_in :: "sys \<Rightarrow> nat \<Rightarrow> u64 \<Rightarrow> u64 \<Rightarrow> u64 \<Rightarrow> (int \<times> sys) option" where
  "user_in s i dst va len =
     do {
       (r, m) \<leftarrow> copy_in (k_buddy (s_kern s)) (k_mem (s_kern s)) (pr_pt (k_pool (s_kern s) i)) dst va len;
       Some (r, set_mem s m)
     }"

definition user_out :: "sys \<Rightarrow> nat \<Rightarrow> u64 \<Rightarrow> u64 \<Rightarrow> u64 \<Rightarrow> (int \<times> sys) option" where
  "user_out s i va src len =
     do {
       (r, m) \<leftarrow> copyout (k_buddy (s_kern s)) (k_mem (s_kern s)) (pr_pt (k_pool (s_kern s) i)) va src len;
       Some (r, set_mem s m)
     }"

text \<open>Copying a kernel object out as the last step of a call: 0, or -1 when it fails.\<close>

definition give_out :: "sys \<Rightarrow> nat \<Rightarrow> u64 \<Rightarrow> u64 \<Rightarrow> u64 \<Rightarrow> (u64 \<times> sys) option" where
  "give_out s i va src len = do { (r, s) \<leftarrow> user_out s i va src len; Some (if r < 0 then - 1 else 0, s) }"

text \<open>A string of user memory of at most \<open>mx\<close> characters; \<open>None\<close> inside when copying fails.\<close>

definition user_string :: "sys \<Rightarrow> nat \<Rightarrow> u64 \<Rightarrow> u64 \<Rightarrow> string option option" where
  "user_string s i va mx =
     do {
       (r, cs) \<leftarrow> copy_str_in_string (k_buddy (s_kern s)) (k_mem (s_kern s)) (pr_pt (k_pool (s_kern s) i)) [] va mx;
       Some (if r < 0 then None else Some (map (\<lambda>c. char_of (unat c)) cs))
     }"

definition arg_str :: "sys \<Rightarrow> nat \<Rightarrow> nat \<Rightarrow> u64 \<Rightarrow> string option option" where
  "arg_str s i n mx = do { a \<leftarrow> arg_addr s i n; user_string s i a mx }"

text \<open>The kernel address behind a user address, 0 when it is not mapped.\<close>

definition user_ptr :: "sys \<Rightarrow> nat \<Rightarrow> u64 \<Rightarrow> u64 option" where
  "user_ptr s i va =
     do {
       pa \<leftarrow> walk_addr (k_buddy (s_kern s)) (k_mem (s_kern s)) (pr_pt (k_pool (s_kern s) i)) va;
       Some (to_vir pa)
     }"

text \<open>Writing the bytes or 64-bit words of a kernel object.\<close>

definition poke :: "sys \<Rightarrow> u64 \<Rightarrow> u8 list \<Rightarrow> sys" where
  "poke s a bs = set_mem s (store_bytes (k_mem (s_kern s)) a bs)"

fun poke64 :: "sys \<Rightarrow> u64 \<Rightarrow> u64 list \<Rightarrow> sys" where
  "poke64 s a [] = s"
| "poke64 s a (w # ws) = poke64 (set_mem s (st64 (k_mem (s_kern s)) a w)) (a + 8) ws"

abbreviation s_mem :: "sys \<Rightarrow> mem" where "s_mem s \<equiv> k_mem (s_kern s)"

definition returns :: "int \<times> kern \<Rightarrow> sys \<Rightarrow> u64 \<times> sys" where "returns rk s = (word_of_int (fst rk), on_kern s (snd rk))"

section \<open>Processes\<close>

definition sys_exit :: "env \<Rightarrow> nat \<Rightarrow> sys \<Rightarrow> run" where
  "sys_exit e i s = attempt (arg_int s i 0) (\<lambda>n. attempt (exit_proc (s_kern s) i n) (\<lambda>k. Ends (on_kern s k)))"

definition sys_exit_group :: "env \<Rightarrow> nat \<Rightarrow> sys \<Rightarrow> run" where
  "sys_exit_group e i s = attempt (arg_int s i 0) (\<lambda>n. attempt (exit_group (s_kern s) i n) (\<lambda>k. Ends (on_kern s k)))"

definition sys_clone :: "sys \<Rightarrow> (u64 \<times> sys) option" where "sys_clone s = Some (- 1, s)"

definition sys_fork :: "env \<Rightarrow> nat \<Rightarrow> sys \<Rightarrow> (u64 \<times> sys) option" where
  "sys_fork e i s =
     do {
       flags \<leftarrow> arg_int s i 0;
       stk \<leftarrow> arg_addr s i 1;
       parent_tid \<leftarrow> arg_addr s i 2;
       child_tid \<leftarrow> arg_addr s i 3;
       tls \<leftarrow> arg_addr s i 4;
       rk \<leftarrow> clone (s_kern s) i (word_of_int flags) stk parent_tid tls (e_loc e 0);
       Some (returns rk s)
     }"

definition sys_clone3 :: "nat \<Rightarrow> sys \<Rightarrow> (u64 \<times> sys) option" where
  "sys_clone3 i s = do { _ \<leftarrow> arg_addr s i 0; _ \<leftarrow> arg_addr s i 1; Some (- 38, s) }"

definition sys_getpid :: "nat \<Rightarrow> sys \<Rightarrow> (u64 \<times> sys) option" where
  "sys_getpid i s = Some (ucast (word_of_int (pr_pid (k_pool (s_kern s) i)) :: u32), s)"

definition sys_gettid :: "nat \<Rightarrow> sys \<Rightarrow> (u64 \<times> sys) option" where
  "sys_gettid i s = Some (word_of_int (pr_pid (k_pool (s_kern s) i)), s)"

definition sys_getppid :: "nat \<Rightarrow> sys \<Rightarrow> (u64 \<times> sys) option" where
  "sys_getppid i s =
     Some (case pr_parent (k_pool (s_kern s) i) of
             None \<Rightarrow> 0 | Some q \<Rightarrow> ucast (word_of_int (pr_pid (k_pool (s_kern s) q)) :: u32), s)"

definition sys_kill :: "nat \<Rightarrow> sys \<Rightarrow> (u64 \<times> sys) option" where
  "sys_kill i s =
     do {
       pid \<leftarrow> arg_int s i 0;
       sig \<leftarrow> arg_int s i 1;
       if sig < 0 \<or> sig > 64 then Some (- 3, s)
       else do { rk \<leftarrow> kill (s_kern s) pid sig; Some (returns rk s) }
     }"

definition wait_once :: "env \<Rightarrow> nat \<Rightarrow> int \<Rightarrow> u64 \<Rightarrow> bool \<Rightarrow> sys \<Rightarrow> bool pass" where
  "wait_once e i pid addr first s =
     (case (if first then wait_call else wait_run) (s_kern s) i pid addr (e_loc e 0) of
        None \<Rightarrow> Crash
      | Some (None, k) \<Rightarrow> Waits False (on_kern s k)
      | Some (Some r, k) \<Rightarrow> Gives r (on_kern s k))"

definition sys_wait :: "env \<Rightarrow> nat \<Rightarrow> sys \<Rightarrow> run" where
  "sys_wait e i s =
     attempt (do { pid \<leftarrow> arg_int s i 0; a \<leftarrow> arg_addr s i 1; Some (pid, a) })
       (\<lambda>(pid, a). run_loop i (wait_once e i pid a) (\<lambda>r. Done (word_of_int r)) True s)"

definition sys_sched_yield :: "nat \<Rightarrow> sys \<Rightarrow> run" where
  "sys_sched_yield i s = Switch (on_kern s (yield_proc (s_kern s) i)) (Done 0)"

definition sys_set_tid_address :: "nat \<Rightarrow> sys \<Rightarrow> (u64 \<times> sys) option" where
  "sys_set_tid_address i s =
     do {
       a \<leftarrow> arg_addr s i 0;
       p \<leftarrow> user_ptr s i a;
       Some (if p = 0 then (- 10, s) else returns (set_tid_address (s_kern s) i p) s)
     }"

definition sys_set_robust_list :: "nat \<Rightarrow> sys \<Rightarrow> (u64 \<times> sys) option" where
  "sys_set_robust_list i s =
     do {
       a \<leftarrow> arg_addr s i 0;
       p \<leftarrow> user_ptr s i a;
       if p = 0 then Some (- 10, s)
       else do { len \<leftarrow> arg_addr s i 1; Some (returns (set_robust_list (s_kern s) i p len) s) }
     }"

text \<open>The old limit is stored before the new one is read.\<close>

definition sys_prlimit64 :: "nat \<Rightarrow> sys \<Rightarrow> (u64 \<times> sys) option" where
  "sys_prlimit64 i s =
     do {
       pid \<leftarrow> arg_int s i 0;
       rsrc \<leftarrow> arg_int s i 1;
       new_limit \<leftarrow> arg_addr s i 2;
       old_limit \<leftarrow> arg_addr s i 3;
       nlim \<leftarrow> (if new_limit \<noteq> 0 then user_ptr s i new_limit else Some 0);
       olim \<leftarrow> (if old_limit \<noteq> 0 then user_ptr s i old_limit else Some 0);
       let (r, old, _) = prlimit64 (s_kern s) i pid (word_of_int rsrc) None;
       let s = (case old of Some (a, b) \<Rightarrow> if olim \<noteq> 0 then poke64 s olim [a, b] else s | None \<Rightarrow> s);
       let new = (if nlim \<noteq> 0 then Some (ld64 (s_mem s) nlim, ld64 (s_mem s) (nlim + 8)) else None);
       let (_, _, k) = prlimit64 (s_kern s) i pid (word_of_int rsrc) new;
       Some (word_of_int r, on_kern s k)
     }"

definition sys_setgid :: "nat \<Rightarrow> sys \<Rightarrow> (u64 \<times> sys) option" where
  "sys_setgid i s = do { gid \<leftarrow> arg_int s i 0; Some (returns (set_gid (s_kern s) i gid) s) }"

definition sys_setuid :: "nat \<Rightarrow> sys \<Rightarrow> (u64 \<times> sys) option" where
  "sys_setuid i s = do { uid \<leftarrow> arg_int s i 0; Some (returns (set_uid (s_kern s) i uid) s) }"

definition sys_getpgid :: "nat \<Rightarrow> sys \<Rightarrow> (u64 \<times> sys) option" where
  "sys_getpgid i s = do { _ \<leftarrow> arg_int s i 0; Some (0, s) }"

definition sys_setpgid :: "nat \<Rightarrow> sys \<Rightarrow> (u64 \<times> sys) option" where
  "sys_setpgid i s = do { _ \<leftarrow> arg_int s i 0; _ \<leftarrow> arg_int s i 1; Some (0, s) }"

text \<open>
  Waiting on a futex: the word is compared and the process sleeps on the user address. Every other operation does nothing; in
  particular no operation wakes a waiter.
\<close>

definition sys_futex :: "env \<Rightarrow> nat \<Rightarrow> sys \<Rightarrow> run" where
  "sys_futex e i s =
     attempt (do {
         uaddr \<leftarrow> arg_addr s i 0; op \<leftarrow> arg_int s i 1; val \<leftarrow> arg_int s i 2;
         _ \<leftarrow> arg_addr s i 3; _ \<leftarrow> arg_addr s i 4; _ \<leftarrow> arg_int s i 5;
         Some (uaddr, op, val) })
       (\<lambda>(uaddr, op, val).
         if op AND 0x7f = 0 then
           attempt (user_in s i (e_loc e 0) uaddr 4) (\<lambda>(r, s).
             if r < 0 then Done (- 1) s
             else if sint (ld32 (s_mem s) (e_loc e 0)) \<noteq> val then Done (- 11) s
             else Switch (on_kern s (sleep_on (s_kern s) i (Chan_addr uaddr)))
                    (\<lambda>s. Done 0 (on_kern s (sleep_resume (s_kern s) i))))
         else Done 0 s)"

section \<open>Memory\<close>

definition sys_brk :: "nat \<Rightarrow> sys \<Rightarrow> (u64 \<times> sys) option" where
  "sys_brk i s = do { n \<leftarrow> arg_addr s i 0; rk \<leftarrow> brk (s_kern s) i (sint n); Some (returns rk s) }"

definition sys_mmap :: "env \<Rightarrow> nat \<Rightarrow> sys \<Rightarrow> (u64 \<times> sys) option" where
  "sys_mmap e i s =
     do {
       _ \<leftarrow> arg_addr s i 0;
       map_size \<leftarrow> arg_addr s i 1;
       prot \<leftarrow> arg_int s i 2;
       flags \<leftarrow> arg_int s i 3;
       fd \<leftarrow> arg_int s i 4;
       _ \<leftarrow> arg_addr s i 5;
       rk \<leftarrow> mmap (s_kern s) i fd (word_of_int prot) (word_of_int flags) (to_int map_size) (e_new e 0);
       Some (returns rk s)
     }"

definition sys_mremap :: "env \<Rightarrow> nat \<Rightarrow> sys \<Rightarrow> (u64 \<times> sys) option" where
  "sys_mremap e i s =
     do {
       oldaddr \<leftarrow> arg_addr s i 0;
       oldsize \<leftarrow> arg_int s i 1;
       newsize \<leftarrow> arg_int s i 2;
       _ \<leftarrow> arg_int s i 3;
       rk \<leftarrow> mremap (s_kern s) i oldaddr (word_of_int oldsize) (word_of_int newsize) (e_new e 0);
       Some (returns rk s)
     }"

definition sys_munmap :: "nat \<Rightarrow> sys \<Rightarrow> (u64 \<times> sys) option" where
  "sys_munmap i s =
     do {
       start \<leftarrow> arg_addr s i 0;
       len \<leftarrow> arg_addr s i 1;
       rk \<leftarrow> munmap (s_kern s) i start len;
       Some (returns rk s)
     }"

section \<open>Descriptors and names\<close>

definition sys_dup :: "nat \<Rightarrow> sys \<Rightarrow> (u64 \<times> sys) option" where
  "sys_dup i s =
     do {
       a \<leftarrow> arg_fd s i 0;
       case a of
         None \<Rightarrow> Some (- 1, s)
       | Some (_, f) \<Rightarrow> do {
           let (fd, k) = alloc_fd (s_kern s) i f;
           if fd < 0 then Some (- 1, on_kern s k)
           else do { k \<leftarrow> dup_kfile k f; Some (word_of_int fd, on_kern s k) }
         }
     }"

text \<open>The new descriptor is used as an index before its range is checked.\<close>

definition ofile_at :: "kern \<Rightarrow> nat \<Rightarrow> int \<Rightarrow> nat option option" where
  "ofile_at k i fd = (if 0 \<le> fd \<and> fd < int max_open_files then Some (pr_ofile (k_pool k i) (nat fd)) else None)"

definition sys_dup2 :: "nat \<Rightarrow> sys \<Rightarrow> (u64 \<times> sys) option" where
  "sys_dup2 i s =
     do {
       a \<leftarrow> arg_fd s i 0;
       case a of
         None \<Rightarrow> Some (- 1, s)
       | Some (oldfd, f) \<Rightarrow> do {
           fd \<leftarrow> arg_int s i 1;
           if fd = oldfd then Some (word_of_int fd, s)
           else do {
             old \<leftarrow> ofile_at (s_kern s) i fd;
             (_, k) \<leftarrow> (if old \<noteq> None then close_fd (s_kern s) i fd else Some (0, s_kern s));
             let (r, k) = alloc_fd_at k i (Some f) fd;
             if r < 0 then Some (- 1, on_kern s k)
             else do { k \<leftarrow> dup_kfile k f; Some (word_of_int fd, on_kern s k) }
           }
         }
     }"

definition sys_close :: "nat \<Rightarrow> sys \<Rightarrow> (u64 \<times> sys) option" where
  "sys_close i s = do { fd \<leftarrow> arg_int s i 0; rk \<leftarrow> close_fd (s_kern s) i fd; Some (returns rk s) }"

definition sys_pipe :: "env \<Rightarrow> nat \<Rightarrow> sys \<Rightarrow> (u64 \<times> sys) option" where
  "sys_pipe e i s =
     do {
       a \<leftarrow> arg_addr s i 0;
       (r, s) \<leftarrow> user_in s i (e_loc e 0) a 8;
       if r < 0 then Some (- 1, s)
       else do {
         (fds, k) \<leftarrow> pipe_call (s_kern s) i;
         let s = on_kern s k;
         case fds of
           None \<Rightarrow> Some (- 1, s)
         | Some (fd0, fd1) \<Rightarrow> do {
             let m = st32 (st32 (s_mem s) (e_loc e 0) (of_nat fd0)) (e_loc e 0 + 4) (of_nat fd1);
             give_out (set_mem s m) i a (e_loc e 0) 8
           }
       }
     }"

definition sys_openat :: "env \<Rightarrow> nat \<Rightarrow> sys \<Rightarrow> (u64 \<times> sys) option" where
  "sys_openat e i s =
     do {
       dir_fd \<leftarrow> arg_int s i 0;
       a \<leftarrow> arg_addr s i 1;
       flags \<leftarrow> arg_int s i 2;
       path \<leftarrow> user_string s i a 100;
       case path of
         None \<Rightarrow> Some (- 1, s)
       | Some path \<Rightarrow> do {
           (r, k, ul) \<leftarrow> open_file (e_ops e) (e_info e) (s_kern s) (s_unlinked s) i dir_fd path (word_of_int flags);
           Some (word_of_int r, (on_kern s k)\<lparr>s_unlinked := ul\<rparr>)
         }
     }"

definition sys_mkdir :: "env \<Rightarrow> nat \<Rightarrow> sys \<Rightarrow> (u64 \<times> sys) option" where
  "sys_mkdir e i s =
     do {
       dir_fd \<leftarrow> arg_int s i 0;
       a \<leftarrow> arg_addr s i 1;
       _ \<leftarrow> arg_int s i 2;
       path \<leftarrow> user_string s i a 100;
       case path of
         None \<Rightarrow> Some (- 1, s)
       | Some path \<Rightarrow> do { rk \<leftarrow> mkdir (e_ops e) (s_kern s) i dir_fd path; Some (returns rk s) }
     }"

definition sys_chdir :: "env \<Rightarrow> nat \<Rightarrow> sys \<Rightarrow> (u64 \<times> sys) option" where
  "sys_chdir e i s =
     do {
       path \<leftarrow> arg_str s i 0 page_size;
       case path of
         None \<Rightarrow> Some (- 1, s)
       | Some path \<Rightarrow> do { rk \<leftarrow> chdir (e_ops e) (s_kern s) i path; Some (returns rk s) }
     }"

definition sys_getcwd :: "env \<Rightarrow> nat \<Rightarrow> sys \<Rightarrow> (u64 \<times> sys) option" where
  "sys_getcwd e i s =
     do {
       buf \<leftarrow> arg_addr s i 0;
       size \<leftarrow> arg_int s i 1;
       if size \<ge> 256 then Some (- 1, s)
       else do {
         let (len, k) = getcwd (s_kern s) i (e_loc e 0);
         (r, s) \<leftarrow> user_out (on_kern s k) i buf (e_loc e 0) (word_of_int len);
         Some (if r < 0 then - 1 else buf, s)
       }
     }"

definition sys_unlinkat :: "nat \<Rightarrow> sys \<Rightarrow> (u64 \<times> sys) option" where
  "sys_unlinkat i s =
     do {
       fd \<leftarrow> arg_int s i 0;
       a \<leftarrow> arg_addr s i 1;
       _ \<leftarrow> arg_int s i 2;
       path \<leftarrow> user_string s i a 100;
       case path of
         None \<Rightarrow> Some (- 1, s)
       | Some path \<Rightarrow>
           let (r, ul) = unlink (s_unlinked s) fd path in Some (word_of_int r, s\<lparr>s_unlinked := ul\<rparr>)
     }"

definition sys_renameat2 :: "nat \<Rightarrow> sys \<Rightarrow> (u64 \<times> sys) option" where
  "sys_renameat2 i s =
     do {
       _ \<leftarrow> arg_int s i 0;
       a \<leftarrow> arg_addr s i 1;
       _ \<leftarrow> arg_int s i 2;
       _ \<leftarrow> arg_addr s i 3;
       _ \<leftarrow> arg_int s i 4;
       path \<leftarrow> user_string s i a 100;
       Some (case path of None \<Rightarrow> - 1 | Some path \<Rightarrow> if path = ''/proc/interrupts'' then - 1 else 0, s)
     }"

definition sys_mount :: "env \<Rightarrow> nat \<Rightarrow> sys \<Rightarrow> (u64 \<times> sys) option" where
  "sys_mount e i s =
     do {
       dev_addr \<leftarrow> arg_addr s i 0;
       mnt_addr \<leftarrow> arg_addr s i 1;
       fstype_addr \<leftarrow> arg_addr s i 2;
       dev \<leftarrow> user_string s i dev_addr 100;
       case dev of None \<Rightarrow> Some (- 1, s) | Some dev \<Rightarrow> do {
       mnt \<leftarrow> user_string s i mnt_addr 100;
       case mnt of None \<Rightarrow> Some (- 1, s) | Some mnt \<Rightarrow> do {
       fstype \<leftarrow> user_string s i fstype_addr 100;
       case fstype of None \<Rightarrow> Some (- 1, s) | Some fstype \<Rightarrow> do {
       _ \<leftarrow> arg_int s i 3;
       _ \<leftarrow> arg_addr s i 4;
       devpath \<leftarrow> path_from (s_kern s) i dev None;
       mntpath \<leftarrow> path_from (s_kern s) i mnt None;
       (r, v) \<leftarrow> path_mount (e_ops e) (e_mount e) (fs_vfs (k_fs (s_kern s))) mntpath devpath fstype;
       Some (returns (r, set_vfs (s_kern s) v) s)
       }}}
     }"

definition sys_umount :: "env \<Rightarrow> nat \<Rightarrow> sys \<Rightarrow> (u64 \<times> sys) option" where
  "sys_umount e i s =
     do {
       a \<leftarrow> arg_addr s i 0;
       _ \<leftarrow> arg_int s i 1;
       special \<leftarrow> user_string s i a 100;
       case special of
         None \<Rightarrow> Some (- 1, s)
       | Some special \<Rightarrow> do {
           p \<leftarrow> path_from (s_kern s) i special None;
           (r, v) \<leftarrow> path_umount (e_ops e) (e_umount e) (fs_vfs (k_fs (s_kern s))) p;
           Some (returns (r, set_vfs (s_kern s) v) s)
         }
     }"

definition sys_utimensat :: "env \<Rightarrow> nat \<Rightarrow> sys \<Rightarrow> (u64 \<times> sys) option" where
  "sys_utimensat e i s =
     do {
       dirfd \<leftarrow> arg_int s i 0;
       pathaddr \<leftarrow> arg_addr s i 1;
       timespecaddr \<leftarrow> arg_addr s i 2;
       _ \<leftarrow> arg_int s i 3;
       base \<leftarrow> (if dirfd = AT_FDCWD then Some (pr_cwd (k_pool (s_kern s) i))
                else do {
                  f \<leftarrow> ofile_at (s_kern s) i dirfd;
                  f \<leftarrow> f;
                  x \<leftarrow> fs_files (k_fs (s_kern s)) f;
                  case f_kind x of NormalFile d \<Rightarrow> Some d | _ \<Rightarrow> None
                });
       path \<leftarrow> (if pathaddr = 0 then Some None else user_string s i pathaddr 128);
       case path of
         None \<Rightarrow> Some (- 1, s)
       | Some path \<Rightarrow> do {
           (r, s) \<leftarrow> (if timespecaddr = 0 then Some (0, s) else user_in s i (e_loc e 0) timespecaddr 16);
           if r < 0 then Some (- 1, s)
           else do {
             (r, s) \<leftarrow> (if timespecaddr = 0 then Some (0, s) else user_in s i (e_loc e 1) (timespecaddr + 16) 16);
             if r < 0 then Some (- 1, s)
             else do {
               cwd \<leftarrow> pr_cwd (k_pool (s_kern s) i);
               p \<leftarrow> mk_path (fs_vfs (k_fs (s_kern s))) cwd path base;
               (d, k) \<leftarrow> k_pathSearch (e_ops e) (s_kern s) p False;
               Some (if d = None then - 2 else 0, on_kern s k)
             }
           }
         }
     }"

section \<open>Time, information, signals\<close>

definition sys_gettimeofday :: "env \<Rightarrow> nat \<Rightarrow> sys \<Rightarrow> (u64 \<times> sys) option" where
  "sys_gettimeofday e i s =
     do {
       a \<leftarrow> arg_addr s i 0;
       let (sec, usec) = get_time_val (s_kern s) (e_time e);
       give_out (poke64 s (e_loc e 0) [sec, usec]) i a (e_loc e 0) 16
     }"

text \<open>
  The nanoseconds are computed in \<^verbatim>\<open>double\<close>, with \<^verbatim>\<open>_1G\<close>, which is \<open>2^30\<close>, for the nanoseconds of a second. The
  product is below \<open>2^52\<close> and so exact; the quotient's distance to the next whole number is at least \<open>1 / 390625\<close>, more than the
  rounding error, so truncating gives the whole quotient.
\<close>

definition clock_gettime :: "kern \<Rightarrow> u64 \<Rightarrow> u64 \<times> u64" where
  "clock_gettime k stamp =
     (let t_val = stamp + k_ticks k * cycles_per_tick
      in (t_val div qemu_fre, t_val mod qemu_fre * 2 ^ 30 div qemu_fre))"

definition sys_clock_gettime :: "env \<Rightarrow> nat \<Rightarrow> sys \<Rightarrow> (u64 \<times> sys) option" where
  "sys_clock_gettime e i s =
     do {
       _ \<leftarrow> arg_int s i 0;
       a \<leftarrow> arg_addr s i 1;
       tp \<leftarrow> (if a \<noteq> 0 then user_ptr s i a else Some 0);
       let (sec, nsec) = clock_gettime (s_kern s) (e_time e);
       Some (0, if tp = 0 then s else poke64 s tp [sec, nsec])
     }"

definition sys_times :: "env \<Rightarrow> nat \<Rightarrow> sys \<Rightarrow> (u64 \<times> sys) option" where
  "sys_times e i s =
     do {
       a \<leftarrow> arg_addr s i 0;
       let t = get_cur_proc_tms (s_kern s) i;
       (r, s) \<leftarrow> user_out (poke64 s (e_loc e 0) [tms_utime t, tms_stime t, tms_cutime t, tms_cstime t]) i a (e_loc e 0) 32;
       Some (if r < 0 then - 1 else k_ticks (s_kern s), s)
     }"

definition sys_sleep :: "env \<Rightarrow> nat \<Rightarrow> sys \<Rightarrow> run" where
  "sys_sleep e i s =
     attempt (do { a \<leftarrow> arg_addr s i 0; user_in s i (e_loc e 0) a 16 }) (\<lambda>(r, s).
       if r < 0 then Done (- 1) s
       else sleep_from_tv i (ld64 (s_mem s) (e_loc e 0)) (ld64 (s_mem s) (e_loc e 0 + 8)) (\<lambda>r. Done (word_of_int r)) s)"

text \<open>The nanoseconds are a signed \<^verbatim>\<open>long\<close>, divided towards zero; the result of the sleep is dropped.\<close>

definition quot :: "int \<Rightarrow> int \<Rightarrow> int" where "quot a b = sgn a * sgn b * (\<bar>a\<bar> div \<bar>b\<bar>)"

definition sys_nanosleep :: "env \<Rightarrow> nat \<Rightarrow> sys \<Rightarrow> run" where
  "sys_nanosleep e i s =
     attempt (do {
         _ \<leftarrow> arg_int s i 0; _ \<leftarrow> arg_int s i 1; dur_addr \<leftarrow> arg_addr s i 2; rem_addr \<leftarrow> arg_addr s i 3;
         (r, s) \<leftarrow> (if dur_addr \<noteq> 0 then user_in s i (e_loc e 0) dur_addr 16 else Some (0, s));
         if r < 0 then Some (r, s)
         else if rem_addr \<noteq> 0 then user_in s i (e_loc e 1) rem_addr 16 else Some (0, s) })
       (\<lambda>(r, s).
         if r < 0 then Done (- 1) s
         else sleep_from_tv i (ld64 (s_mem s) (e_loc e 0))
                (word_of_int (quot (sint (ld64 (s_mem s) (e_loc e 0 + 8))) 1000)) (\<lambda>_. Done 0) s)"

text \<open>\<^verbatim>\<open>struct _Utsname\<close>: six fields of 65 bytes; the strings are constants of the kernel image, at \<open>e_loc\<close>.\<close>

definition utsname :: "string list" where
  "utsname = [''Linux'', ''(none-node)'', ''5.15.0'', ''#1 SMP Mon Jan 1 12:00:00 UTC 2024'', ''LoongArch-2k1000'', ''(none-domain)'']"

fun give_strings :: "env \<Rightarrow> nat \<Rightarrow> u64 \<Rightarrow> nat \<Rightarrow> string list \<Rightarrow> sys \<Rightarrow> (u64 \<times> sys) option" where
  "give_strings e i a j [] s = Some (0, s)"
| "give_strings e i a j (x # xs) s =
     do {
       (r, s) \<leftarrow> user_out (poke s (e_loc e j) (map of_char x @ [0])) i a (e_loc e j) (of_nat (length x + 1));
       if r < 0 then Some (- 1, s) else give_strings e i (a + 65) (Suc j) xs s
     }"

definition sys_uname :: "env \<Rightarrow> nat \<Rightarrow> sys \<Rightarrow> (u64 \<times> sys) option" where
  "sys_uname e i s = do { a \<leftarrow> arg_addr s i 0; give_strings e i a 0 utsname s }"

text \<open>\<^verbatim>\<open>struct sysinfo\<close> has 112 bytes, all 0 but the unit at offset 104.\<close>

definition sys_sysinfo :: "env \<Rightarrow> nat \<Rightarrow> sys \<Rightarrow> (u64 \<times> sys) option" where
  "sys_sysinfo e i s =
     do {
       a \<leftarrow> arg_addr s i 0;
       give_out (poke s (e_loc e 0) (replicate 104 0 @ [1, 0, 0, 0, 0, 0, 0, 0])) i a (e_loc e 0) 112
     }"

definition get_max_rss :: "kern \<Rightarrow> nat \<Rightarrow> int" where "get_max_rss k i = to_int (fst (pr_rlim (k_pool k i) 5))"

text \<open>
  \<^verbatim>\<open>struct rusage\<close> has 144 bytes; fields that the code does not set keep what was in the local object. The system time and, for
  children, all times are among them.
\<close>

definition sys_getrusage :: "env \<Rightarrow> nat \<Rightarrow> sys \<Rightarrow> (u64 \<times> sys) option" where
  "sys_getrusage e i s =
     do {
       who \<leftarrow> arg_int s i 0;
       a \<leftarrow> arg_addr s i 1;
       let t = get_cur_proc_tms (s_kern s) i;
       if who \<noteq> 0 \<and> who \<noteq> - 1 then Some (- 1, s)
       else do {
         let s = (if who = 0 then
                    poke64 (poke64 s (e_loc e 0) [tms_utime t, tms_cutime t]) (e_loc e 0 + 32)
                      [word_of_int (get_max_rss (s_kern s) i)]
                  else s);
         give_out (poke64 s (e_loc e 0 + 40) (replicate 13 0)) i a (e_loc e 0) 144
       }
     }"

definition syslog_msg :: string where
  "syslog_msg = ''Spectre V2 : Update user space SMT mitigation: STIBP always-on'' @ [CHR 0x0A] @
     ''process_manager : execve set stack-base = 0x0000_0000_9194_5000'' @ [CHR 0x0A] @
     ''pm/process_manager : execve set page containing sp is 0x0000_0000_9196_4000''"

definition sys_syslog :: "env \<Rightarrow> nat \<Rightarrow> sys \<Rightarrow> (u64 \<times> sys) option" where
  "sys_syslog e i s =
     do {
       prio \<leftarrow> arg_int s i 0;
       a \<leftarrow> arg_addr s i 1;
       let len = of_nat (length syslog_msg);
       if prio = 10 then Some (len, s)
       else if prio = 3 then do {
         (_, s) \<leftarrow> user_out (poke s (e_new e 0) (map of_char syslog_msg @ [0])) i a (e_new e 0) len;
         Some (len, s)
       }
       else Some (0, s)
     }"

text \<open>
  The buffer is filled with copies of a constant. Its length is the third argument: the second is read into the same
  variable and lost.
\<close>

partial_function (option) random_fill :: "mem \<Rightarrow> u64 \<Rightarrow> u64 \<Rightarrow> u64 \<Rightarrow> u64 \<Rightarrow> mem option" where
  "random_fill m buf rnd len j =
     (if j < len then random_fill (memcpy m (buf + j) rnd (if j + 8 \<le> len then 8 else len - j)) buf rnd len (j + 8)
      else Some m)"

definition sys_getrandom :: "env \<Rightarrow> nat \<Rightarrow> sys \<Rightarrow> (u64 \<times> sys) option" where
  "sys_getrandom e i s =
     do {
       bufaddr \<leftarrow> arg_addr s i 0;
       _ \<leftarrow> arg_int s i 1;
       buflen \<leftarrow> arg_int s i 2;
       if bufaddr = 0 \<and> buflen = 0 then Some (- 1, s)
       else do {
         let s = poke64 s (e_loc e 0) [0x42494C474B435546];
         m \<leftarrow> random_fill (s_mem s) (e_new e 0) (e_loc e 0) (word_of_int buflen) 0;
         (r, s) \<leftarrow> user_out (set_mem s m) i bufaddr (e_new e 0) (word_of_int buflen);
         Some (if r < 0 then - 1 else word_of_int buflen, s)
       }
     }"

text \<open>An object of the \<^verbatim>\<open>sigaction\<close> type; the old action is only asked for when there is no new one.\<close>

definition peek_act :: "sys \<Rightarrow> u64 \<Rightarrow> sigact" where
  "peek_act s a = \<lparr>sa_handler = ld64 (s_mem s) a, sa_flags = ld64 (s_mem s) (a + 8), sa_mask = ld64 (s_mem s) (a + 16)\<rparr>"

definition poke_act :: "sys \<Rightarrow> u64 \<Rightarrow> sigact \<Rightarrow> sys" where
  "poke_act s a x = poke64 s a [sa_handler x, sa_flags x, sa_mask x]"

definition sys_sigaction :: "env \<Rightarrow> nat \<Rightarrow> sys \<Rightarrow> (u64 \<times> sys) option" where
  "sys_sigaction e i s =
     do {
       flag \<leftarrow> arg_int s i 0;
       newactaddr \<leftarrow> arg_addr s i 1;
       oldactaddr \<leftarrow> arg_addr s i 2;
       let newact = e_loc e 0;
       let oldact = e_loc e 1;
       let s = (if oldactaddr \<noteq> 0 then poke64 s oldact [0, 0, 0] else s);
       (r, s) \<leftarrow> (if newactaddr \<noteq> 0 then user_in s i newact newactaddr 24 else Some (0, s));
       if r < 0 then Some (- 1, s)
       else do {
         let (ret, old, s) = sigAction s i flag (Some (peek_act s newact)) (newactaddr = 0);
         let s = (case old of Some x \<Rightarrow> poke_act s oldact x | None \<Rightarrow> s);
         if ret = 0 \<and> oldactaddr \<noteq> 0 then give_out s i oldactaddr oldact 24 else Some (word_of_int ret, s)
       }
     }"

definition sys_sigprocmask :: "env \<Rightarrow> nat \<Rightarrow> sys \<Rightarrow> (u64 \<times> sys) option" where
  "sys_sigprocmask e i s =
     do {
       how \<leftarrow> arg_int s i 0;
       setaddr \<leftarrow> arg_addr s i 1;
       oldsetaddr \<leftarrow> arg_addr s i 2;
       sigsize \<leftarrow> arg_int s i 3;
       (r, s) \<leftarrow> (if setaddr \<noteq> 0 then user_in s i (e_loc e 0) setaddr 8 else Some (0, s));
       if r < 0 then Some (- 1, s)
       else do {
         let newset = (if setaddr \<noteq> 0 then Some (ld64 (s_mem s) (e_loc e 0)) else None);
         let (ans, old, k) = sigprocmask (s_kern s) i how newset (word_of_int sigsize);
         let s = on_kern s k;
         let s = (case old of Some w \<Rightarrow> poke64 s (e_loc e 1) [w] | None \<Rightarrow> s);
         if ans \<ge> 0 \<and> oldsetaddr \<noteq> 0 then do {
           (r, s) \<leftarrow> user_out s i oldsetaddr (e_loc e 1) 8;
           Some (if r < 0 then - 1 else word_of_int ans, s)
         }
         else Some (word_of_int ans, s)
       }
     }"

section \<open>Data\<close>

definition int32 :: "int \<Rightarrow> int" where "int32 x = signed_take_bit 31 x"

definition s_pt :: "sys \<Rightarrow> nat \<Rightarrow> pagetable" where "s_pt s i = pr_pt (k_pool (s_kern s) i)"

text \<open>The user buffer is read through a stream, with one byte more than is written.\<close>

definition stream_in :: "sys \<Rightarrow> nat \<Rightarrow> u64 \<Rightarrow> u64 \<Rightarrow> u64 \<Rightarrow> sys option" where
  "stream_in s i dst va len =
     do {
       us \<leftarrow> us_open (k_buddy (s_kern s)) (s_mem s) (UserspaceStream va len (s_pt s i));
       (us, m) \<leftarrow> us_read (k_buddy (s_kern s)) (s_mem s) us dst len;
       Some (set_mem s m)
     }"

definition sys_write :: "env \<Rightarrow> nat \<Rightarrow> sys \<Rightarrow> run" where
  "sys_write e i s =
     attempt (do { a \<leftarrow> arg_fd s i 0; buf_addr \<leftarrow> arg_addr s i 1; n \<leftarrow> arg_int s i 2; Some (a, buf_addr, n) })
       (\<lambda>(a, buf_addr, n).
         case a of
           None \<Rightarrow> Done (- 1) s
         | Some (_, f) \<Rightarrow>
             attempt (stream_in s i (e_new e 0) buf_addr (word_of_int (n + 1))) (\<lambda>s.
             attempt (file_offset s f) (\<lambda>off.
               fwrite e i f (e_new e 0) (word_of_int n) off True (\<lambda>r. Done (word_of_int r)) s)))"

text \<open>\<^verbatim>\<open>struct iovec\<close>: an address and an \<^verbatim>\<open>int\<close> length in 16 bytes, copied to the local object.\<close>

fun writev_loop :: "env \<Rightarrow> nat \<Rightarrow> nat \<Rightarrow> u64 \<Rightarrow> nat \<Rightarrow> nat \<Rightarrow> u64 \<Rightarrow> sys \<Rightarrow> run" where
  "writev_loop e i f iov_ptr 0 j writebytes s = Done writebytes s"
| "writev_loop e i f iov_ptr (Suc n) j writebytes s =
     attempt (user_in s i (e_loc e 0) (iov_ptr + of_nat j * 16) 16) (\<lambda>(r, s).
       if r < 0 then Done (- 1) s
       else
         let iov_base = ld64 (s_mem s) (e_loc e 0); len = scast (ld32 (s_mem s) (e_loc e 0 + 8)); buf = e_new e j
         in attempt (user_in s i buf iov_base len) (\<lambda>(r, s).
              if r < 0 then Done (- 1) s
              else attempt (file_offset s f) (\<lambda>off.
                fwrite e i f buf len off True
                  (\<lambda>r s. writev_loop e i f iov_ptr n (Suc j) (writebytes + word_of_int r) s) s)))"

definition sys_writev :: "env \<Rightarrow> nat \<Rightarrow> sys \<Rightarrow> run" where
  "sys_writev e i s =
     attempt (do { a \<leftarrow> arg_fd s i 0; p \<leftarrow> arg_addr s i 1; n \<leftarrow> arg_int s i 2; Some (a, p, n) })
       (\<lambda>(a, p, n). case a of None \<Rightarrow> Done (- 1) s | Some (_, f) \<Rightarrow> writev_loop e i f p (nat n) 0 0 s)"

definition sys_read :: "env \<Rightarrow> nat \<Rightarrow> sys \<Rightarrow> run" where
  "sys_read e i s =
     attempt (do { a \<leftarrow> arg_fd s i 0; buf \<leftarrow> arg_addr s i 1; n \<leftarrow> arg_int s i 2; Some (a, buf, n) })
       (\<lambda>(a, buf, n).
         case a of
           None \<Rightarrow> Done (- 1) s
         | Some (_, f) \<Rightarrow>
             if n \<le> 0 then Done (- 5) s
             else attempt (file_offset s f) (\<lambda>off.
               fread e i f (e_new e 0) (word_of_int n) off True
                 (\<lambda>r s. let ret = int32 r in
                    if ret < 0 then Done (- 6) s
                    else attempt (user_out s i buf (e_new e 0) (word_of_int ret)) (\<lambda>(r, s).
                      Done (if r < 0 then - 7 else word_of_int ret) s)) s))"

fun readv_loop :: "env \<Rightarrow> nat \<Rightarrow> nat \<Rightarrow> u64 \<Rightarrow> nat \<Rightarrow> nat \<Rightarrow> u64 \<Rightarrow> sys \<Rightarrow> run" where
  "readv_loop e i f iov_ptr 0 j readbytes s = Done readbytes s"
| "readv_loop e i f iov_ptr (Suc n) j readbytes s =
     attempt (user_in s i (e_loc e 0) (iov_ptr + of_nat j * 16) 16) (\<lambda>(r, s).
       if r < 0 then Done (- 1) s
       else
         let iov_base = ld64 (s_mem s) (e_loc e 0); len = sint (ld32 (s_mem s) (e_loc e 0 + 8)); buf = e_new e j
         in attempt (file_offset s f) (\<lambda>off.
              fread e i f buf (word_of_int len) off True
                (\<lambda>r s. let ret = int32 r in
                   if ret < 0 then Done (- 1) s
                   else attempt (user_out s i iov_base buf (word_of_int ret)) (\<lambda>(r, s).
                     if r < 0 then Done (- 1) s
                     else let readbytes = readbytes + word_of_int ret
                          in if ret < len then Done readbytes s else readv_loop e i f iov_ptr n (Suc j) readbytes s)) s))"

definition sys_readv :: "env \<Rightarrow> nat \<Rightarrow> sys \<Rightarrow> run" where
  "sys_readv e i s =
     attempt (do { a \<leftarrow> arg_fd s i 0; p \<leftarrow> arg_addr s i 1; n \<leftarrow> arg_int s i 2; Some (a, p, n) })
       (\<lambda>(a, p, n). case a of None \<Rightarrow> Done (- 1) s | Some (_, f) \<Rightarrow> readv_loop e i f p (nat n) 0 0 s)"

definition sys_pread64 :: "env \<Rightarrow> nat \<Rightarrow> sys \<Rightarrow> run" where
  "sys_pread64 e i s =
     attempt (do { a \<leftarrow> arg_fd s i 0; buf \<leftarrow> arg_addr s i 1; n \<leftarrow> arg_int s i 2; off \<leftarrow> arg_addr s i 3; Some (a, buf, n, off) })
       (\<lambda>(a, buf, n, off).
         case a of
           None \<Rightarrow> Done (- 1) s
         | Some (_, f) \<Rightarrow>
             if n \<le> 0 then Done (- 6) s
             else fread e i f (e_new e 0) (word_of_int n) (sint off) False
               (\<lambda>r s. let ret = int32 r in
                  if ret < 0 then Done (- 7) s
                  else attempt (user_out s i buf (e_new e 0) (word_of_int ret)) (\<lambda>(r, s).
                    Done (if r < 0 then - 8 else word_of_int ret) s)) s)"

text \<open>An offset comes from user memory when its address is given, else from the file.\<close>

definition offset_from :: "sys \<Rightarrow> nat \<Rightarrow> nat \<Rightarrow> u64 \<Rightarrow> u64 \<Rightarrow> (u64 option \<times> sys) option" where
  "offset_from s i f a loc =
     (if a \<noteq> 0 then do {
        (r, s) \<leftarrow> user_in s i loc a 8;
        Some (if r < 0 then None else Some (ld64 (s_mem s) loc), s)
      }
      else do { off \<leftarrow> file_offset s f; Some (Some (word_of_int off), s) })"

text \<open>The offset given by address is written back, advanced by the bytes moved.\<close>

definition offset_back :: "sys \<Rightarrow> nat \<Rightarrow> u64 \<Rightarrow> u64 \<Rightarrow> u64 \<Rightarrow> int \<Rightarrow> (int \<times> sys) option" where
  "offset_back s i a loc off n =
     (if a \<noteq> 0 then user_out (poke64 s loc [off + word_of_int n]) i a loc 8 else Some (0, s))"

definition range_finish :: "env \<Rightarrow> nat \<Rightarrow> u64 \<Rightarrow> u64 \<Rightarrow> u64 \<Rightarrow> u64 \<Rightarrow> int \<Rightarrow> int \<Rightarrow> sys \<Rightarrow> (u64 \<times> sys) option" where
  "range_finish e i ai ao oi oo readlen writeLen s =
     do {
       (r, s) \<leftarrow> offset_back s i ai (e_loc e 0) oi readlen;
       if r < 0 then Some (- 1, s)
       else do {
         (r, s) \<leftarrow> offset_back s i ao (e_loc e 1) oo writeLen;
         Some (if r < 0 then - 1 else word_of_int readlen, s)
       }
     }"

definition copy_range :: "env \<Rightarrow> nat \<Rightarrow> nat \<Rightarrow> nat \<Rightarrow> u64 \<Rightarrow> u64 \<Rightarrow> int \<Rightarrow> sys \<Rightarrow> run" where
  "copy_range e i fi fo ai ao len s =
     attempt (offset_from s i fi ai (e_loc e 0)) (\<lambda>(oi, s).
       case oi of
         None \<Rightarrow> Done (- 1) s
       | Some oi \<Rightarrow> attempt (offset_from s i fo ao (e_loc e 1)) (\<lambda>(oo, s).
           case oo of
             None \<Rightarrow> Done (- 1) s
           | Some oo \<Rightarrow>
               fread e i fi (e_new e 0) (word_of_int len) (sint oi) (ai = 0) (\<lambda>r s.
                 let readlen = int32 r in
                 fwrite e i fo (e_new e 0) (word_of_int readlen) (sint oo) (ao = 0) (\<lambda>w s.
                   finish (range_finish e i ai ao oi oo readlen (int32 w) s)) s) s))"

definition sys_copy_file_range :: "env \<Rightarrow> nat \<Rightarrow> sys \<Rightarrow> run" where
  "sys_copy_file_range e i s =
     attempt (do {
         a \<leftarrow> arg_fd s i 0; b \<leftarrow> arg_fd s i 2; ai \<leftarrow> arg_addr s i 1; ao \<leftarrow> arg_addr s i 3; len \<leftarrow> arg_int s i 4;
         _ \<leftarrow> arg_addr s i 5; Some (a, b, ai, ao, len) })
       (\<lambda>(a, b, ai, ao, len).
         case (a, b) of
           (Some (_, fi), Some (_, fo)) \<Rightarrow> if len = 0 then Done 0 s else copy_range e i fi fo ai ao len s
         | _ \<Rightarrow> Done (- 1) s)"

text \<open>Only a normal file has a \<^verbatim>\<open>ftruncate\<close> of its own. Its result is unsigned, so the call never reports an error.\<close>

definition sys_ftruncate :: "nat \<Rightarrow> sys \<Rightarrow> (u64 \<times> sys) option" where
  "sys_ftruncate i s =
     do {
       a \<leftarrow> arg_fd s i 0;
       len \<leftarrow> arg_addr s i 1;
       case a of
         None \<Rightarrow> Some (- 1, s)
       | Some (_, f) \<Rightarrow> do {
           x \<leftarrow> fs_files (k_fs (s_kern s)) f;
           case f_kind x of
             NormalFile d \<Rightarrow> do {
               (_, x, st) \<leftarrow> ftruncate (k_fs (s_kern s)) x len;
               Some (0, put_file s f x st (s_mem s))
             }
           | _ \<Rightarrow> Some (0, s)
         }
     }"

definition sys_lseek :: "nat \<Rightarrow> sys \<Rightarrow> (u64 \<times> sys) option" where
  "sys_lseek i s =
     do {
       fd \<leftarrow> arg_int s i 0;
       offset \<leftarrow> arg_int s i 1;
       whence \<leftarrow> arg_int s i 2;
       case get_open_file (s_kern s) i fd of
         None \<Rightarrow> Some (- 1, s)
       | Some f \<Rightarrow> do {
           x \<leftarrow> fs_files (k_fs (s_kern s)) f;
           Some (case f_kind x of
                   NormalFile d \<Rightarrow>
                     let (r, x) = lseek x offset whence in (word_of_int r, put_file s f x (k_fs (s_kern s)) (s_mem s))
                 | DeviceFile d \<Rightarrow> (- word_of_int EINVAL, s)
                 | PipeFile p w \<Rightarrow> (- 29, s))
         }
     }"

text \<open>The count read is passed on even when it is an error code; a pipe is written by its own call.\<close>

definition sys_sendfile :: "env \<Rightarrow> nat \<Rightarrow> sys \<Rightarrow> run" where
  "sys_sendfile e i s =
     attempt (do {
         a \<leftarrow> arg_fd s i 0; b \<leftarrow> arg_fd s i 1; addr \<leftarrow> arg_addr s i 2; count \<leftarrow> arg_addr s i 3;
         Some (a, b, addr, count) })
       (\<lambda>(a, b, addr, count).
         case (a, b) of
           (None, _) \<Rightarrow> Done (- 1) s
         | (_, None) \<Rightarrow> Done (- 2) s
         | (Some (_, out_f), Some (_, in_f)) \<Rightarrow>
             attempt (if addr \<noteq> 0 then user_ptr s i addr else Some 0) (\<lambda>p_off.
             attempt (file_offset s in_f) (\<lambda>off.
               let start_off = (if p_off \<noteq> 0 then sint (ld64 (s_mem s) p_off) else off) in
               fread e i in_f (e_new e 0) count start_off True (\<lambda>r s.
                 attempt (file_offset s out_f) (\<lambda>off.
                   fwrite e i out_f (e_new e 0) (word_of_int (int32 r)) off True (\<lambda>w s.
                     let writecnt = word_of_int (int32 w)
                     in Done writecnt (if p_off \<noteq> 0 then poke64 s p_off [ld64 (s_mem s) p_off + writecnt] else s)) s)) s)))"

text \<open>
  Moving bytes between a pipe and a file: \<open>a\<close> is the address of the file's offset, an \<^verbatim>\<open>int\<close>, held at \<open>loc\<close>. The sum of offset
  and count is an \<^verbatim>\<open>int\<close>; a failure to store it is ignored.
\<close>

definition splice_offset :: "sys \<Rightarrow> nat \<Rightarrow> u64 \<Rightarrow> u64 \<Rightarrow> (int option \<times> sys) option" where
  "splice_offset s i a loc =
     do {
       (r, s) \<leftarrow> user_in s i loc a 4;
       let off = sint (ld32 (s_mem s) loc);
       Some (if r < 0 \<or> off < 0 then None else Some off, s)
     }"

definition splice_back :: "sys \<Rightarrow> nat \<Rightarrow> u64 \<Rightarrow> u64 \<Rightarrow> int \<Rightarrow> int \<Rightarrow> (u64 \<times> sys) option" where
  "splice_back s i a loc off n =
     (if n > 0 then do {
        (_, s) \<leftarrow> user_out (set_mem s (st32 (s_mem s) loc (word_of_int (off + n)))) i a loc 4;
        Some (word_of_int n, s)
      }
      else Some (word_of_int n, s))"

definition splice_move :: "env \<Rightarrow> nat \<Rightarrow> nat \<Rightarrow> nat \<Rightarrow> int \<Rightarrow> int \<Rightarrow> int \<Rightarrow> bool \<Rightarrow> u64 \<Rightarrow> u64 \<Rightarrow> sys \<Rightarrow> run" where
  "splice_move e i fi fo len oi oo from_pipe a loc s =
     fread e i fi (e_new e 0) (word_of_int len) oi from_pipe (\<lambda>r s.
       let read_bytes = int32 r in
       if read_bytes \<le> 0 then Done (word_of_int read_bytes) s
       else fwrite e i fo (e_new e 0) (word_of_int read_bytes) oo (\<not> from_pipe) (\<lambda>w s.
         finish (splice_back s i a loc (if from_pipe then oo else oi) (int32 w))) s) s"

definition splice_files :: "env \<Rightarrow> nat \<Rightarrow> nat \<Rightarrow> nat \<Rightarrow> kfile \<Rightarrow> bool \<Rightarrow> u64 \<Rightarrow> u64 \<Rightarrow> int \<Rightarrow> sys \<Rightarrow> run" where
  "splice_files e i fi fo x from_pipe ai ao len s =
     (if from_pipe then
        attempt (splice_offset s i ao (e_loc e 1)) (\<lambda>(oo, s).
          case oo of
            None \<Rightarrow> Done (- 1) s
          | Some oo \<Rightarrow> if len \<le> 0 then Done 0 s else splice_move e i fi fo len 0 oo True ao (e_loc e 1) s)
      else
        attempt (splice_offset s i ai (e_loc e 0)) (\<lambda>(oi, s).
          case oi of
            None \<Rightarrow> Done (- 1) s
          | Some oi \<Rightarrow>
              let file_size = to_int (f_size x) in
              if oi \<ge> file_size then Done 0 s
              else let len = (if file_size - oi < len then file_size - oi else len)
                   in if len \<le> 0 then Done 0 s else splice_move e i fi fo len oi 0 False ai (e_loc e 0) s))"

definition sys_splice :: "env \<Rightarrow> nat \<Rightarrow> sys \<Rightarrow> run" where
  "sys_splice e i s =
     attempt (do {
         fd_in \<leftarrow> arg_int s i 0; ai \<leftarrow> arg_addr s i 1; fd_out \<leftarrow> arg_int s i 2; ao \<leftarrow> arg_addr s i 3; len \<leftarrow> arg_int s i 4;
         _ \<leftarrow> arg_int s i 5; fi \<leftarrow> ofile_at (s_kern s) i fd_in; fo \<leftarrow> ofile_at (s_kern s) i fd_out;
         Some (fi, fo, ai, ao, len) })
       (\<lambda>(fi, fo, ai, ao, len).
         case (fi, fo) of
           (Some fi, Some fo) \<Rightarrow>
             attempt (do { x \<leftarrow> fs_files (k_fs (s_kern s)) fi; y \<leftarrow> fs_files (k_fs (s_kern s)) fo; Some (x, y) }) (\<lambda>(x, y).
               let in_is_pipe = (filetype (f_attrs x) = FT_PIPE); out_is_pipe = (filetype (f_attrs y) = FT_PIPE)
               in if in_is_pipe = out_is_pipe \<or> in_is_pipe \<noteq> (ai = 0) \<or> out_is_pipe \<noteq> (ao = 0) then Done (- 1) s
                  else splice_files e i fi fo x in_is_pipe ai ao len s)
         | _ \<Rightarrow> Done (- 1) s)"

section \<open>Control\<close>

definition with_file :: "sys \<Rightarrow> nat \<Rightarrow> (kfile \<Rightarrow> kfile) \<Rightarrow> sys option" where
  "with_file s f g =
     do { x \<leftarrow> fs_files (k_fs (s_kern s)) f; Some (put_file s f (g x) (k_fs (s_kern s)) (s_mem s)) }"

text \<open>The terminal requests; a window size is an object of which only the first two fields are set.\<close>

definition sys_ioctl :: "env \<Rightarrow> nat \<Rightarrow> sys \<Rightarrow> (u64 \<times> sys) option" where
  "sys_ioctl e i s =
     do {
       a \<leftarrow> arg_fd s i 0;
       case a of
         None \<Rightarrow> Some (- 1, s)
       | Some (_, f) \<Rightarrow> do {
           x \<leftarrow> fs_files (k_fs (s_kern s)) f;
           if filetype (f_attrs x) \<noteq> FT_DEVICE then Some (- 1, s)
           else do {
             cmd \<leftarrow> arg_int s i 1;
             arg \<leftarrow> arg_addr s i 2;
             let cmd = (word_of_int cmd :: u32) AND 0xFFFF;
             if cmd = 0x5401 then do { _ \<leftarrow> user_ptr s i arg; Some (0, s) }
             else if cmd = 0x540F then do {
               p \<leftarrow> user_ptr s i arg;
               if p = 0 then None else Some (0, set_mem s (st32 (s_mem s) p 1))
             }
             else if cmd = 0x5413 then give_out (poke s (e_loc e 0) [24, 0, 80, 0]) i arg (e_loc e 0) 8
             else Some (0, s)
           }
         }
     }"

text \<open>
  The search for a free descriptor from \<open>fd\<close> on, with the result of the last attempt. The new descriptor is counted at the
  file object alone.
\<close>

function dupfd_from :: "sys \<Rightarrow> nat \<Rightarrow> nat \<Rightarrow> int \<Rightarrow> int \<Rightarrow> (int \<times> sys) option" where
  "dupfd_from s i f fd retfd =
     (if fd < int max_open_files then
        let (r, k) = alloc_fd_at (s_kern s) i (Some f) fd; s = on_kern s k
        in if r = fd then Option.bind (with_file s f (\<lambda>x. x\<lparr>f_refcnt := f_refcnt x + 1\<rparr>)) (\<lambda>s. Some (r, s))
           else dupfd_from s i f (fd + 1) r
      else Some (retfd, s))"
  by pat_completeness auto
termination by (relation "measure (\<lambda>(s, i, f, fd, r). nat (int max_open_files - fd))") auto

declare dupfd_from.simps [simp del]

text \<open>\<open>F_SETFL\<close> looks at a local variable that was never set.\<close>

definition sys_fcntl :: "env \<Rightarrow> nat \<Rightarrow> sys \<Rightarrow> (u64 \<times> sys) option" where
  "sys_fcntl e i s =
     do {
       a \<leftarrow> arg_fd s i 0;
       op \<leftarrow> arg_int s i 1;
       case a of
         None \<Rightarrow> Some (- 1, s)
       | Some (_, f) \<Rightarrow>
           if op = 2 then do {
             arg \<leftarrow> arg_addr s i 2;
             s \<leftarrow> (if arg AND 1 \<noteq> 0 then with_file s f (\<lambda>x. x\<lparr>f_cloexec := True\<rparr>) else Some s);
             Some (0, s)
           }
           else if op = 0 then do {
             arg \<leftarrow> arg_addr s i 2;
             (r, s) \<leftarrow> dupfd_from s i f (to_int arg) (- 1);
             Some (word_of_int r, s)
           }
           else if op = 1030 then do {
             arg \<leftarrow> arg_addr s i 2;
             (r, s) \<leftarrow> dupfd_from s i f (to_int arg) (- 1);
             g \<leftarrow> get_open_file (s_kern s) i r;
             s \<leftarrow> with_file s g (\<lambda>x. x\<lparr>f_cloexec := True\<rparr>);
             Some (word_of_int r, s)
           }
           else if op = 3 then do {
             x \<leftarrow> fs_files (k_fs (s_kern s)) f;
             Some (ucast (transMode (f_attrs x)), s)
           }
           else if op = 1 then Some (0, s)
           else if op = 4 then do {
             x \<leftarrow> fs_files (k_fs (s_kern s)) f;
             let arg = ld64 (s_mem s) (e_loc e 0);
             s \<leftarrow> (if (arg AND 0x800 = 0x800 \<or> arg AND 0x400 = 0x400) \<and> filetype (f_attrs x) = FT_NORMAL
                   then with_file s f setAppend else Some s);
             Some (0, s)
           }
           else Some (- 1, s)
     }"

text \<open>The network calls read their arguments and fail.\<close>

definition refuse :: "nat \<Rightarrow> sys \<Rightarrow> nat \<Rightarrow> int \<Rightarrow> (u64 \<times> sys) option" where
  "refuse i s args r = do { _ \<leftarrow> those (map (arg_raw s i) [0..<args]); Some (word_of_int r, s) }"

definition sys_socket :: "nat \<Rightarrow> sys \<Rightarrow> (u64 \<times> sys) option" where "sys_socket i s = refuse i s 3 (- 97)"
definition sys_bind :: "nat \<Rightarrow> sys \<Rightarrow> (u64 \<times> sys) option" where "sys_bind i s = refuse i s 3 (- 9)"
definition sys_listen :: "nat \<Rightarrow> sys \<Rightarrow> (u64 \<times> sys) option" where "sys_listen i s = refuse i s 2 (- 9)"
definition sys_accept :: "nat \<Rightarrow> sys \<Rightarrow> (u64 \<times> sys) option" where "sys_accept i s = refuse i s 3 (- 9)"
definition sys_connect :: "nat \<Rightarrow> sys \<Rightarrow> (u64 \<times> sys) option" where "sys_connect i s = refuse i s 3 (- 9)"
definition sys_getsockname :: "nat \<Rightarrow> sys \<Rightarrow> (u64 \<times> sys) option" where "sys_getsockname i s = refuse i s 3 (- 9)"
definition sys_sendto :: "nat \<Rightarrow> sys \<Rightarrow> (u64 \<times> sys) option" where "sys_sendto i s = refuse i s 6 (- 9)"
definition sys_recvfrom :: "nat \<Rightarrow> sys \<Rightarrow> (u64 \<times> sys) option" where "sys_recvfrom i s = refuse i s 6 (- 9)"
definition sys_setsockopt :: "nat \<Rightarrow> sys \<Rightarrow> (u64 \<times> sys) option" where "sys_setsockopt i s = refuse i s 5 (- 9)"

end
