(* ===== verification/Sys_Dispatch.thy ===== *)
theory Sys_Dispatch
  imports System_Calls
begin

text \<open>
  The way into the kernel: the numbers of \<^verbatim>\<open>syscall/syscall_defs.hh\<close>, the table that
  \<^verbatim>\<open>SyscallHandler::init\<close> fills, the dispatch, and the trap handlers of \<^verbatim>\<open>hal/riscv/exception_manager.cc\<close> around it. Calls
  that need parts of the kernel which are not modelled (loading of programs, file status, directory listings, polling)
  go to the argument \<open>other\<close>.
\<close>

section \<open>The table\<close>

text \<open>The enumeration \<^verbatim>\<open>SyscallNumber\<close>.\<close>

definition SYS_getcwd :: u64 where "SYS_getcwd = 17"
definition SYS_dup :: u64 where "SYS_dup = 23"
definition SYS_dup2 :: u64 where "SYS_dup2 = 24"
definition SYS_fcntl :: u64 where "SYS_fcntl = 25"
definition SYS_ioctl :: u64 where "SYS_ioctl = 29"
definition SYS_mkdir :: u64 where "SYS_mkdir = 34"
definition SYS_unlinkat :: u64 where "SYS_unlinkat = 35"
definition SYS_umount :: u64 where "SYS_umount = 39"
definition SYS_mount :: u64 where "SYS_mount = 40"
definition SYS_statfs :: u64 where "SYS_statfs = 43"
definition SYS_faccessat :: u64 where "SYS_faccessat = 48"
definition SYS_chdir :: u64 where "SYS_chdir = 49"
definition SYS_openat :: u64 where "SYS_openat = 56"
definition SYS_close :: u64 where "SYS_close = 57"
definition SYS_pipe :: u64 where "SYS_pipe = 59"
definition SYS_getdents :: u64 where "SYS_getdents = 61"
definition SYS_lseek :: u64 where "SYS_lseek = 62"
definition SYS_read :: u64 where "SYS_read = 63"
definition SYS_write :: u64 where "SYS_write = 64"
definition SYS_writev :: u64 where "SYS_writev = 66"
definition SYS_pread64 :: u64 where "SYS_pread64 = 67"
definition SYS_sendfile :: u64 where "SYS_sendfile = 71"
definition SYS_ppoll :: u64 where "SYS_ppoll = 73"
definition SYS_splice :: u64 where "SYS_splice = 76"
definition SYS_readlinkat :: u64 where "SYS_readlinkat = 78"
definition SYS_fstatat :: u64 where "SYS_fstatat = 79"
definition SYS_fstat :: u64 where "SYS_fstat = 80"
definition SYS_utimensat :: u64 where "SYS_utimensat = 88"
definition SYS_exit :: u64 where "SYS_exit = 93"
definition SYS_exit_group :: u64 where "SYS_exit_group = 94"
definition SYS_set_tid_address :: u64 where "SYS_set_tid_address = 96"
definition SYS_set_robust_list :: u64 where "SYS_set_robust_list = 99"
definition SYS_sleep :: u64 where "SYS_sleep = 101"
definition SYS_clock_gettime :: u64 where "SYS_clock_gettime = 113"
definition SYS_nanosleep :: u64 where "SYS_nanosleep = 115"
definition SYS_syslog :: u64 where "SYS_syslog = 116"
definition SYS_sched_yield :: u64 where "SYS_sched_yield = 124"
definition SYS_kill :: u64 where "SYS_kill = 129"
definition SYS_sigaction :: u64 where "SYS_sigaction = 134"
definition SYS_sigprocmask :: u64 where "SYS_sigprocmask = 135"
definition SYS_setgid :: u64 where "SYS_setgid = 144"
definition SYS_setuid :: u64 where "SYS_setuid = 146"
definition SYS_times :: u64 where "SYS_times = 153"
definition SYS_setpgid :: u64 where "SYS_setpgid = 154"
definition SYS_getpgid :: u64 where "SYS_getpgid = 155"
definition SYS_uname :: u64 where "SYS_uname = 160"
definition SYS_getrusage :: u64 where "SYS_getrusage = 165"
definition SYS_gettimeofday :: u64 where "SYS_gettimeofday = 169"
definition SYS_getpid :: u64 where "SYS_getpid = 172"
definition SYS_getppid :: u64 where "SYS_getppid = 173"
definition SYS_getuid :: u64 where "SYS_getuid = 174"
definition SYS_geteuid :: u64 where "SYS_geteuid = 175"
definition SYS_getgid :: u64 where "SYS_getgid = 176"
definition SYS_getegid :: u64 where "SYS_getegid = 177"
definition SYS_gettid :: u64 where "SYS_gettid = 178"
definition SYS_sysinfo :: u64 where "SYS_sysinfo = 179"
definition SYS_brk :: u64 where "SYS_brk = 214"
definition SYS_munmap :: u64 where "SYS_munmap = 215"
definition SYS_mremap :: u64 where "SYS_mremap = 216"
definition SYS_clone :: u64 where "SYS_clone = 220"
definition SYS_fork :: u64 where "SYS_fork = 220"
definition SYS_execve :: u64 where "SYS_execve = 221"
definition SYS_mmap :: u64 where "SYS_mmap = 222"
definition SYS_mprotect :: u64 where "SYS_mprotect = 226"
definition SYS_madvise :: u64 where "SYS_madvise = 233"
definition SYS_wait :: u64 where "SYS_wait = 260"
definition SYS_prlimit64 :: u64 where "SYS_prlimit64 = 261"
definition SYS_renameat2 :: u64 where "SYS_renameat2 = 276"
definition SYS_getrandom :: u64 where "SYS_getrandom = 278"
definition SYS_statx :: u64 where "SYS_statx = 291"
definition SYS_poweroff :: u64 where "SYS_poweroff = 2024"
definition SYS_tgkill :: u64 where "SYS_tgkill = 131"
definition SYS_readv :: u64 where "SYS_readv = 65"
definition SYS_rt_sigtimedwait :: u64 where "SYS_rt_sigtimedwait = 137"
definition SYS_futex :: u64 where "SYS_futex = 98"
definition SYS_socket :: u64 where "SYS_socket = 198"
definition SYS_bind :: u64 where "SYS_bind = 200"
definition SYS_listen :: u64 where "SYS_listen = 201"
definition SYS_accept :: u64 where "SYS_accept = 202"
definition SYS_connect :: u64 where "SYS_connect = 203"
definition SYS_getsockname :: u64 where "SYS_getsockname = 204"
definition SYS_sendto :: u64 where "SYS_sendto = 206"
definition SYS_recvfrom :: u64 where "SYS_recvfrom = 207"
definition SYS_setsockopt :: u64 where "SYS_setsockopt = 208"
definition SYS_clone3 :: u64 where "SYS_clone3 = 435"
definition SYS_copy_file_range :: u64 where "SYS_copy_file_range = 285"
definition SYS_ftruncate :: u64 where "SYS_ftruncate = 46"

lemmas sys_numbers =
  SYS_getcwd_def SYS_dup_def SYS_dup2_def SYS_fcntl_def SYS_ioctl_def SYS_mkdir_def SYS_unlinkat_def SYS_umount_def
  SYS_mount_def SYS_statfs_def SYS_faccessat_def SYS_chdir_def SYS_openat_def SYS_close_def SYS_pipe_def
  SYS_getdents_def SYS_lseek_def SYS_read_def SYS_write_def SYS_writev_def SYS_pread64_def SYS_sendfile_def
  SYS_ppoll_def SYS_splice_def SYS_readlinkat_def SYS_fstatat_def SYS_fstat_def SYS_utimensat_def SYS_exit_def
  SYS_exit_group_def SYS_set_tid_address_def SYS_set_robust_list_def SYS_sleep_def SYS_clock_gettime_def
  SYS_nanosleep_def SYS_syslog_def SYS_sched_yield_def SYS_kill_def SYS_sigaction_def SYS_sigprocmask_def
  SYS_setgid_def SYS_setuid_def SYS_times_def SYS_setpgid_def SYS_getpgid_def SYS_uname_def SYS_getrusage_def
  SYS_gettimeofday_def SYS_getpid_def SYS_getppid_def SYS_getuid_def SYS_geteuid_def SYS_getgid_def SYS_getegid_def
  SYS_gettid_def SYS_sysinfo_def SYS_brk_def SYS_munmap_def SYS_mremap_def SYS_clone_def SYS_fork_def SYS_execve_def
  SYS_mmap_def SYS_mprotect_def SYS_madvise_def SYS_wait_def SYS_prlimit64_def SYS_renameat2_def SYS_getrandom_def
  SYS_statx_def SYS_poweroff_def SYS_tgkill_def SYS_readv_def SYS_rt_sigtimedwait_def SYS_futex_def SYS_socket_def
  SYS_bind_def SYS_listen_def SYS_accept_def SYS_connect_def SYS_getsockname_def SYS_sendto_def SYS_recvfrom_def
  SYS_setsockopt_def SYS_clone3_def SYS_copy_file_range_def SYS_ftruncate_def

text \<open>Calls with nothing but a result of 0.\<close>

definition sys_zero :: "sys \<Rightarrow> run" where "sys_zero s = Done 0 s"

definition plain :: "(nat \<Rightarrow> sys \<Rightarrow> (u64 \<times> sys) option) \<Rightarrow> nat \<Rightarrow> sys \<Rightarrow> run" where "plain h i s = finish (h i s)"

text \<open>The handlers in the order in which they are bound; a later one replaces an earlier one of the same number.\<close>

type_synonym handler = "nat \<Rightarrow> sys \<Rightarrow> run"

definition bindings :: "(u64 \<Rightarrow> handler) \<Rightarrow> env \<Rightarrow> (u64 \<times> handler) list" where
  "bindings other e =
    [(SYS_write, sys_write e),
     (SYS_read, sys_read e),
     (SYS_exit, sys_exit e),
     (SYS_clone, plain (\<lambda>i. sys_clone)),
     (SYS_fork, plain (sys_fork e)),
     (SYS_clone3, plain sys_clone3),
     (SYS_getpid, plain sys_getpid),
     (SYS_getppid, plain sys_getppid),
     (SYS_brk, plain sys_brk),
     (SYS_execve, other SYS_execve),
     (SYS_wait, sys_wait e),
     (SYS_poweroff, other SYS_poweroff),
     (SYS_dup, plain sys_dup),
     (SYS_dup2, plain sys_dup2),
     (SYS_getcwd, plain (sys_getcwd e)),
     (SYS_gettimeofday, plain (sys_gettimeofday e)),
     (SYS_sched_yield, sys_sched_yield),
     (SYS_sleep, sys_sleep e),
     (SYS_times, plain (sys_times e)),
     (SYS_uname, plain (sys_uname e)),
     (SYS_openat, plain (sys_openat e)),
     (SYS_close, plain sys_close),
     (SYS_fstat, other SYS_fstat),
     (SYS_getdents, other SYS_getdents),
     (SYS_mkdir, plain (sys_mkdir e)),
     (SYS_chdir, plain (sys_chdir e)),
     (SYS_mount, plain (sys_mount e)),
     (SYS_umount, plain (sys_umount e)),
     (SYS_mmap, plain (sys_mmap e)),
     (SYS_munmap, plain sys_munmap),
     (SYS_statx, other SYS_statx),
     (SYS_unlinkat, plain sys_unlinkat),
     (SYS_pipe, plain (sys_pipe e)),
     (SYS_set_tid_address, plain sys_set_tid_address),
     (SYS_set_robust_list, plain sys_set_robust_list),
     (SYS_prlimit64, plain sys_prlimit64),
     (SYS_clock_gettime, plain (sys_clock_gettime e)),
     (SYS_mprotect, \<lambda>i. sys_zero),
     (SYS_getuid, \<lambda>i. sys_zero),
     (SYS_readlinkat, other SYS_readlinkat),
     (SYS_getrandom, plain (sys_getrandom e)),
     (SYS_sigaction, plain (sys_sigaction e)),
     (SYS_ioctl, plain (sys_ioctl e)),
     (SYS_fcntl, plain (sys_fcntl e)),
     (SYS_getpgid, plain sys_getpgid),
     (SYS_setpgid, plain sys_setpgid),
     (SYS_geteuid, \<lambda>i. sys_zero),
     (SYS_getegid, \<lambda>i. sys_zero),
     (SYS_ppoll, other SYS_ppoll),
     (SYS_getgid, \<lambda>i. sys_zero),
     (SYS_setgid, plain sys_setgid),
     (SYS_setuid, plain sys_setuid),
     (SYS_gettid, plain sys_gettid),
     (SYS_fstatat, other SYS_fstatat),
     (SYS_sendfile, sys_sendfile e),
     (SYS_exit_group, sys_exit_group e),
     (SYS_statfs, other SYS_statfs),
     (SYS_syslog, plain (sys_syslog e)),
     (SYS_faccessat, other SYS_faccessat),
     (SYS_madvise, \<lambda>i. sys_zero),
     (SYS_mremap, plain (sys_mremap e)),
     (SYS_sysinfo, plain (sys_sysinfo e)),
     (SYS_nanosleep, sys_nanosleep e),
     (SYS_getrusage, plain (sys_getrusage e)),
     (SYS_utimensat, plain (sys_utimensat e)),
     (SYS_lseek, plain sys_lseek),
     (SYS_splice, sys_splice e),
     (SYS_sigprocmask, plain (sys_sigprocmask e)),
     (SYS_kill, plain sys_kill),
     (SYS_writev, sys_writev e),
     (SYS_pread64, sys_pread64 e),
     (SYS_tgkill, \<lambda>i. sys_zero),
     (SYS_renameat2, plain sys_renameat2),
     (SYS_readv, sys_readv e),
     (SYS_rt_sigtimedwait, \<lambda>i. sys_zero),
     (SYS_futex, sys_futex e),
     (SYS_socket, plain sys_socket),
     (SYS_bind, plain sys_bind),
     (SYS_listen, plain sys_listen),
     (SYS_accept, plain sys_accept),
     (SYS_connect, plain sys_connect),
     (SYS_getsockname, plain sys_getsockname),
     (SYS_sendto, plain sys_sendto),
     (SYS_recvfrom, plain sys_recvfrom),
     (SYS_setsockopt, plain sys_setsockopt),
     (SYS_copy_file_range, sys_copy_file_range e),
     (SYS_ftruncate, plain sys_ftruncate)]"

definition max_syscall_funcs_num :: u64 where "max_syscall_funcs_num = 2048"

definition syscall_table :: "(u64 \<Rightarrow> handler) \<Rightarrow> env \<Rightarrow> u64 \<Rightarrow> handler option" where
  "syscall_table other e = fold (\<lambda>(n, h) t. t(n := Some h)) (bindings other e) (\<lambda>_. None)"

text \<open>The build defines \<^verbatim>\<open>OS_DEBUG\<close>, so a number without a name stops the kernel.\<close>

definition invoke_syscaller :: "(u64 \<Rightarrow> handler) \<Rightarrow> env \<Rightarrow> u64 \<Rightarrow> nat \<Rightarrow> sys \<Rightarrow> run" where
  "invoke_syscaller other e num i s =
     (if num \<ge> max_syscall_funcs_num then Panics
      else case syscall_table other e num of None \<Rightarrow> Panics | Some h \<Rightarrow> h i s)"

section \<open>Traps\<close>

definition tf_get :: "sys \<Rightarrow> u64 \<Rightarrow> u64 \<Rightarrow> u64" where "tf_get s tf off = ld64 (s_mem s) (tf + off)"
definition tf_set :: "sys \<Rightarrow> u64 \<Rightarrow> u64 \<Rightarrow> u64 \<Rightarrow> sys" where "tf_set s tf off v = set_mem s (st64 (s_mem s) (tf + off) v)"

definition exit_run :: "nat \<Rightarrow> int \<Rightarrow> sys \<Rightarrow> run" where
  "exit_run i status s = attempt (exit_proc (s_kern s) i status) (\<lambda>k. Ends (on_kern s k))"

text \<open>\<^verbatim>\<open>ExceptionManager::_syscall\<close>: the number is in \<^verbatim>\<open>a7\<close>, the result goes to \<^verbatim>\<open>a0\<close>.\<close>

definition trap_syscall :: "(u64 \<Rightarrow> handler) \<Rightarrow> env \<Rightarrow> nat \<Rightarrow> sys \<Rightarrow> run" where
  "trap_syscall other e i s =
     (let tf = pr_trapframe (k_pool (s_kern s) i)
      in if pr_killed (k_pool (s_kern s) i) then exit_run i (- 1) s
         else
           let s = tf_set s tf 24 (tf_get s tf 24 + 4); num = tf_get s tf 168
           in if 0 < num \<and> num < max_syscall_funcs_num
              then then_run (invoke_syscaller other e num i s) (\<lambda>v s. Done v (tf_set s tf 112 v))
              else Done (- 1) (tf_set s tf 112 (- 1)))"

text \<open>
  Interrupts: 1 for a device, 2 for the timer, 0 for anything else; \<open>rc\<close> is the answer of the interrupt manager for a device.
\<close>

definition dev_intr :: "int \<Rightarrow> u64 \<Rightarrow> sys \<Rightarrow> int \<times> sys" where
  "dev_intr rc scause s =
     (if bit scause 63 \<and> scause AND 0xff = 9 then (if rc < 0 then rc else 1, s)
      else if scause = 0x8000000000000005 then (2, on_kern s (handle_clock_intr (s_kern s)))
      else (0, s))"

definition sched_run :: "nat \<Rightarrow> sys \<Rightarrow> run" where
  "sched_run i s = (case sche_proc (s_kern s) i of (switched, k) \<Rightarrow>
     if switched then Switch (on_kern s k) (Done 0) else Done 0 (on_kern s k))"

text \<open>What a trap does when the cause has been handled: a killed process ends, and a timer interrupt takes from the time slice.\<close>

definition trap_end :: "nat \<Rightarrow> int \<Rightarrow> sys \<Rightarrow> run" where
  "trap_end i which_dev s =
     (if pr_killed (k_pool (s_kern s) i) then exit_run i (- 1) s
      else if which_dev = 2 then sched_run i s else Done 0 s)"

definition user_trap :: "(u64 \<Rightarrow> handler) \<Rightarrow> env \<Rightarrow> int \<Rightarrow> u64 \<Rightarrow> u64 \<Rightarrow> nat \<Rightarrow> sys \<Rightarrow> run" where
  "user_trap other e rc scause sepc i s =
     (let s = tf_set s (pr_trapframe (k_pool (s_kern s) i)) 24 sepc
      in if scause = 8 then
           if pr_killed (k_pool (s_kern s) i) then exit_run i (- 1) s
           else then_run (trap_syscall other e i s) (\<lambda>_. trap_end i 0)
         else case dev_intr rc scause s of (which_dev, s) \<Rightarrow>
           if which_dev \<noteq> 0 then trap_end i which_dev s
           else trap_end i 0 (on_kern s (upd (s_kern s) i (\<lambda>p. p\<lparr>pr_killed := True\<rparr>))))"

text \<open>The frame for the next trap; the control registers and the handler's address are arguments.\<close>

definition user_trap_ret :: "u64 \<Rightarrow> u64 \<Rightarrow> u64 \<Rightarrow> nat \<Rightarrow> sys \<Rightarrow> sys" where
  "user_trap_ret satp handler hart i s =
     (let tf = pr_trapframe (k_pool (s_kern s) i);
          s = tf_set s tf 0 satp;
          s = tf_set s tf 8 (pr_kstack (k_pool (s_kern s) i) + ucast default_proc_kstack_pages * page_size);
          s = tf_set s tf 16 handler
      in tf_set s tf 32 hart)"

end
