(* ===== verification/Sys_Correct.thy ===== *)
theory Sys_Correct
  imports Sys_Dispatch
begin

text \<open>
  What system calls leave alone. Every handler keeps the table of processes consistent, at its end and wherever it
  gives the processor away, whatever the other processes did in between.
\<close>

section \<open>Handlers that do not sleep\<close>

text \<open>A handler's states differ in no slot's number, slot number and use, and no slot starts to run.\<close>

definition tame :: "sys \<Rightarrow> sys \<Rightarrow> bool" where "tame s s' \<longleftrightarrow> frame UNIV (s_kern s) (s_kern s')"

lemma tame_refl [simp]: "tame s s" by (simp add: tame_def)

lemma tame_trans [trans]: "tame s s' \<Longrightarrow> tame s' s'' \<Longrightarrow> tame s s''" unfolding tame_def by (rule frame_trans)

lemma tame_kern: "frame S (s_kern s) k \<Longrightarrow> tame s (on_kern s k)"
  by (auto simp: tame_def on_kern_def intro: frame_mono)

lemma on_kern_kern [simp]: "s_kern (on_kern s k) = k" by (simp add: on_kern_def)

lemma tame_set_mem [simp]: "tame s (set_mem t m) \<longleftrightarrow> tame s t"
  by (simp add: tame_def set_mem_def frame_def)

lemma tame_poke [simp]: "tame s (poke t a bs) \<longleftrightarrow> tame s t" by (simp add: poke_def)

lemma tame_poke64 [simp]: "tame s (poke64 t a ws) \<longleftrightarrow> tame s t" by (induction t a ws rule: poke64.induct) simp_all

lemma tame_unlinked [simp]: "tame s (t\<lparr>s_unlinked := u\<rparr>) \<longleftrightarrow> tame s t" by (simp add: tame_def)

lemma tame_sigacts [simp]: "tame s (t\<lparr>s_sigacts := u\<rparr>) \<longleftrightarrow> tame s t" by (simp add: tame_def)

lemma tame_put_file [simp]: "tame s (put_file t f x st m) \<longleftrightarrow> tame s t"
  by (simp add: tame_def put_file_def frame_def)

lemma tame_user_in: "user_in t i d va n = Some (r, t') \<Longrightarrow> tame s t' \<longleftrightarrow> tame s t"
  and tame_user_out: "user_out t i va d n = Some (r, t') \<Longrightarrow> tame s t' \<longleftrightarrow> tame s t"
  by (auto simp: user_in_def user_out_def bind_eq_Some_conv)

lemma tame_give_out: "give_out t i va d n = Some (v, t') \<Longrightarrow> tame s t' \<longleftrightarrow> tame s t"
  by (auto simp: give_out_def bind_eq_Some_conv tame_user_out)

text \<open>A computation with a result and a state is tame when its state is.\<close>

definition keeps :: "sys \<Rightarrow> ('a \<times> sys) option \<Rightarrow> bool" where
  "keeps s m \<longleftrightarrow> (\<forall>r s'. m = Some (r, s') \<longrightarrow> tame s s')"

lemma keeps_None: "keeps s None" by (simp add: keeps_def)
lemma keeps_Some: "tame s s' \<Longrightarrow> keeps s (Some (r, s'))" by (simp add: keeps_def)

lemma keeps_bind_state:
  "keeps s m \<Longrightarrow> (\<And>r t. tame s t \<Longrightarrow> keeps s (f r t)) \<Longrightarrow> keeps s (Option.bind m (\<lambda>(r, t). f r t))"
  by (auto simp: keeps_def bind_eq_Some_conv)

lemma keeps_bind_pair: "(\<And>a b. m = Some (a, b) \<Longrightarrow> keeps s (f a b)) \<Longrightarrow> keeps s (Option.bind m (\<lambda>(a, b). f a b))"
  by (auto simp: keeps_def bind_eq_Some_conv)

lemma keeps_bind: "(\<And>x. m = Some x \<Longrightarrow> keeps s (f x)) \<Longrightarrow> keeps s (Option.bind m f)"
  by (auto simp: keeps_def bind_eq_Some_conv)

lemma keeps_if: "(b \<Longrightarrow> keeps s x) \<Longrightarrow> (\<not> b \<Longrightarrow> keeps s y) \<Longrightarrow> keeps s (if b then x else y)" by simp

lemma keeps_option:
  "(x = None \<Longrightarrow> keeps s a) \<Longrightarrow> (\<And>y. x = Some y \<Longrightarrow> keeps s (f y)) \<Longrightarrow> keeps s (case x of None \<Rightarrow> a | Some y \<Rightarrow> f y)"
  by (cases x) auto

lemma keeps_pair: "(\<And>a b. x = (a, b) \<Longrightarrow> keeps s (f a b)) \<Longrightarrow> keeps s (case x of (a, b) \<Rightarrow> f a b)"
  by (cases x) auto

lemma keeps_kind:
  "(\<And>d. keeps s (f d)) \<Longrightarrow> (\<And>d. keeps s (g d)) \<Longrightarrow> (\<And>p w. keeps s (h p w)) \<Longrightarrow>
   keeps s (case x of NormalFile d \<Rightarrow> f d | DeviceFile d \<Rightarrow> g d | PipeFile p w \<Rightarrow> h p w)"
  by (cases x) auto

lemma keeps_Some_cases:
  "(b \<Longrightarrow> keeps s (Some x)) \<Longrightarrow> (\<not> b \<Longrightarrow> keeps s (Some y)) \<Longrightarrow> keeps s (Some (if b then x else y))"
  "(\<And>d. keeps s (Some (f d))) \<Longrightarrow> (\<And>d. keeps s (Some (g d))) \<Longrightarrow> (\<And>p w. keeps s (Some (h p w))) \<Longrightarrow>
   keeps s (Some (case z of NormalFile d \<Rightarrow> f d | DeviceFile d \<Rightarrow> g d | PipeFile p w \<Rightarrow> h p w))"
  "(\<And>a c. v = (a, c) \<Longrightarrow> keeps s (Some (u a c))) \<Longrightarrow> keeps s (Some (case v of (a, c) \<Rightarrow> u a c))"
  by (simp, (cases z; simp), (cases v; simp))

lemma keeps_user_in: "tame s t \<Longrightarrow> keeps s (user_in t i d va n)" by (auto simp: keeps_def tame_user_in)
lemma keeps_user_out: "tame s t \<Longrightarrow> keeps s (user_out t i va d n)" by (auto simp: keeps_def tame_user_out)
lemma keeps_give_out: "tame s t \<Longrightarrow> keeps s (give_out t i va d n)" by (auto simp: keeps_def tame_give_out)

lemma keeps_call:
  "tame s t \<Longrightarrow> (\<And>r k. m = Some (r, k) \<Longrightarrow> frame UNIV (s_kern t) k) \<Longrightarrow> keeps s (Option.bind m (\<lambda>rk. Some (returns rk t)))"
  by (auto simp: keeps_def bind_eq_Some_conv returns_def dest: tame_kern intro: tame_trans)

lemma keeps_returns: "tame s t \<Longrightarrow> frame UNIV (s_kern t) (snd rk) \<Longrightarrow> keeps s (Some (returns rk t))"
  by (auto simp: keeps_def returns_def dest: tame_kern intro: tame_trans)

lemma keeps_on_kern: "tame s t \<Longrightarrow> frame UNIV (s_kern t) k \<Longrightarrow> keeps s (Some (v, on_kern t k))"
  by (auto simp: keeps_def dest: tame_kern intro: tame_trans)

lemmas keep_rules = keeps_None keeps_user_in keeps_user_out keeps_give_out keeps_call keeps_returns keeps_on_kern keeps_Some
  keeps_Some_cases keeps_bind_state keeps_bind_pair keeps_bind keeps_if keeps_option keeps_pair keeps_kind

text \<open>The calls of the process manager that handlers make, as frames over all slots.\<close>

lemmas frame_any = frame_calls [THEN frame_mono [OF _ subset_UNIV]]

lemma frame_prlimit: "prlimit64 k i pid rs new = (r, old, k') \<Longrightarrow> frame UNIV k k'"
  by (auto simp: prlimit64_def same_slot_def split: option.splits if_splits intro!: frame_upd)

lemma frame_kill: "kill k pid sig = Some (r, k') \<Longrightarrow> frame UNIV k k'"
  by (auto simp: kill_def same_slot_def split: if_splits intro!: frame_upd)

lemma frame_sigprocmask: "sigprocmask k i how new sz = (r, old, k') \<Longrightarrow> frame UNIV k k'"
  by (auto simp: sigprocmask_def same_slot_def Let_def split: option.splits if_splits intro!: frame_upd)

lemma frame_own: "frame UNIV k (snd (set_tid_address k i t))" "frame UNIV k (snd (set_robust_list k i h l))"
  "frame UNIV k (snd (set_gid k i g))" "frame UNIV k (snd (set_uid k i u))"
  by (simp_all add: set_tid_address_def set_robust_list_def set_gid_def set_uid_def frame_upd same_slot_def)

lemma frame_dup: "alloc_fd k i f = (r, k1) \<Longrightarrow> dup_kfile k1 f = Some k2 \<Longrightarrow> frame UNIV k k2"
  "alloc_fd_at k i fo fd = (r, k1) \<Longrightarrow> dup_kfile k1 f = Some k2 \<Longrightarrow> frame UNIV k k2"
  by (metis frame_trans frame_any(1,2) frame_dup_kfile)+

lemma frame_dup2: "close_fd k i fd = Some (c, k1) \<Longrightarrow> alloc_fd_at k1 i fo fd = (r, k2) \<Longrightarrow> frame UNIV k k2"
  by (metis frame_trans frame_any(2,3))

lemma frame_dup3:
  "close_fd k i fd = Some (c, k1) \<Longrightarrow> alloc_fd_at k1 i fo fd = (r, k2) \<Longrightarrow> dup_kfile k2 f = Some k3 \<Longrightarrow> frame UNIV k k3"
  by (rule frame_trans [OF frame_dup2]) (auto dest: frame_dup_kfile [where S = UNIV])

lemma frame_search: "k_pathSearch ops k p b = Some (d, k') \<Longrightarrow> frame UNIV k k'" using frame_pathSearch by blast

lemmas frame_sys = frame_any frame_prlimit frame_kill frame_sigprocmask frame_own frame_dup frame_dup2 frame_dup3 frame_search frame_set_vfs

lemma tame_step: "tame s t \<Longrightarrow> frame UNIV (s_kern t) k \<Longrightarrow> tame s (on_kern t k)"
  using tame_kern tame_trans by blast

lemma keeps_with_file: "keeps s (Option.bind (with_file t f g) (\<lambda>u. Some (r, u)))" if "tame s t"
  using that by (auto simp: keeps_def with_file_def bind_eq_Some_conv)

lemma tame_sigAction: "sigAction t i flag new w = (r, old, t') \<Longrightarrow> tame s t' \<longleftrightarrow> tame s t"
  by (auto simp: sigAction_def Let_def split: if_splits option.splits)

lemma tame_poke_act [simp]: "tame s (poke_act t a x) \<longleftrightarrow> tame s t" by (simp add: poke_act_def)

lemma tame_with_file: "with_file t f g = Some u \<Longrightarrow> tame s u \<longleftrightarrow> tame s t"
  by (auto simp: with_file_def bind_eq_Some_conv)

lemma keeps_dupfd: "tame s t \<Longrightarrow> keeps s (dupfd_from t i f fd r)"
proof (induction t i f fd r rule: dupfd_from.induct)
  case (1 t i f fd r)
  obtain q k where a: "alloc_fd_at (s_kern t) i (Some f) fd = (q, k)" by fastforce
  have t: "tame s (on_kern t k)" using 1(2) a by (auto intro: tame_step frame_sys)
  show ?case
  proof (cases "fd < int max_open_files \<and> q \<noteq> fd")
    case True
    then show ?thesis using 1(1) [OF _ refl a [symmetric] refl _ t] a by (subst dupfd_from.simps) simp
  next
    case False
    then show ?thesis using 1(2) t a by (subst dupfd_from.simps) (auto intro: keeps_with_file keeps_Some)
  qed
qed

lemma keeps_give_strings: "tame s t \<Longrightarrow> keeps s (give_strings e i a j xs t)"
  by (induction e i a j xs t rule: give_strings.induct) (auto simp: keeps_def bind_eq_Some_conv tame_user_out split: if_splits)

lemma keeps_refuse: "keeps s (refuse i s n r)" by (auto simp: keeps_def refuse_def bind_eq_Some_conv)

lemmas keep_all = keeps_dupfd keeps_give_strings keep_rules

lemma keeps_process_calls:
  "keeps s (sys_clone s)" "keeps s (sys_clone3 i s)" "keeps s (sys_getpid i s)" "keeps s (sys_gettid i s)"
  "keeps s (sys_getppid i s)" "keeps s (sys_kill i s)" "keeps s (sys_set_tid_address i s)"
  "keeps s (sys_set_robust_list i s)" "keeps s (sys_prlimit64 i s)" "keeps s (sys_setgid i s)"
  "keeps s (sys_setuid i s)" "keeps s (sys_getpgid i s)" "keeps s (sys_setpgid i s)"
  unfolding sys_clone_def sys_clone3_def sys_getpid_def sys_gettid_def sys_getppid_def sys_kill_def sys_set_tid_address_def
    sys_set_robust_list_def sys_prlimit64_def sys_setgid_def sys_setuid_def sys_getpgid_def sys_setpgid_def Let_def
  by (intro keep_all; (auto simp: tame_with_file tame_sigAction split: option.splits if_splits intro: frame_sys tame_step; fail))+

lemma keeps_memory_calls:
  "keeps s (sys_brk i s)" "keeps s (sys_mmap e i s)" "keeps s (sys_mremap e i s)" "keeps s (sys_munmap i s)"
  unfolding sys_brk_def sys_mmap_def sys_mremap_def sys_munmap_def Let_def
  by (intro keep_all; (auto simp: tame_with_file tame_sigAction split: option.splits if_splits intro: frame_sys tame_step; fail))+

lemma keeps_names_calls:
  "keeps s (sys_dup i s)" "keeps s (sys_dup2 i s)" "keeps s (sys_close i s)" "keeps s (sys_pipe e i s)"
  "keeps s (sys_openat e i s)" "keeps s (sys_mkdir e i s)" "keeps s (sys_chdir e i s)" "keeps s (sys_getcwd e i s)"
  "keeps s (sys_unlinkat i s)" "keeps s (sys_renameat2 i s)" "keeps s (sys_mount e i s)" "keeps s (sys_umount e i s)"
  "keeps s (sys_utimensat e i s)"
  unfolding sys_dup_def sys_dup2_def sys_close_def sys_pipe_def sys_openat_def sys_mkdir_def sys_chdir_def sys_getcwd_def
    sys_unlinkat_def sys_renameat2_def sys_mount_def sys_umount_def sys_utimensat_def Let_def
  by (intro keep_all; (auto simp: tame_with_file tame_sigAction split: option.splits if_splits intro: frame_sys tame_step; fail))+

lemma keeps_info_calls:
  "keeps s (sys_gettimeofday e i s)" "keeps s (sys_clock_gettime e i s)" "keeps s (sys_times e i s)"
  "keeps s (sys_uname e i s)" "keeps s (sys_sysinfo e i s)" "keeps s (sys_getrusage e i s)"
  "keeps s (sys_syslog e i s)" "keeps s (sys_getrandom e i s)" "keeps s (sys_sigaction e i s)"
  "keeps s (sys_sigprocmask e i s)"
  unfolding sys_gettimeofday_def sys_clock_gettime_def sys_times_def sys_uname_def sys_sysinfo_def sys_getrusage_def
    sys_syslog_def sys_getrandom_def sys_sigaction_def sys_sigprocmask_def Let_def
  by (intro keep_all; (auto simp: tame_with_file tame_sigAction split: option.splits if_splits intro: frame_sys tame_step; fail))+

lemma keeps_control_calls:
  "keeps s (sys_ftruncate i s)" "keeps s (sys_lseek i s)" "keeps s (sys_ioctl e i s)" "keeps s (sys_fcntl e i s)"
  unfolding sys_ftruncate_def sys_lseek_def sys_ioctl_def sys_fcntl_def Let_def
  by (intro keep_all; (auto simp: tame_with_file tame_sigAction split: option.splits if_splits intro: frame_sys tame_step; fail))+

lemma keeps_network_calls:
  "keeps s (sys_socket i s)" "keeps s (sys_bind i s)" "keeps s (sys_listen i s)" "keeps s (sys_accept i s)"
  "keeps s (sys_connect i s)" "keeps s (sys_getsockname i s)" "keeps s (sys_sendto i s)" "keeps s (sys_recvfrom i s)"
  "keeps s (sys_setsockopt i s)"
  by (simp_all add: sys_socket_def sys_bind_def sys_listen_def sys_accept_def sys_connect_def sys_getsockname_def
      sys_sendto_def sys_recvfrom_def sys_setsockopt_def keeps_refuse)

lemmas keeps_plain = keeps_process_calls keeps_memory_calls keeps_names_calls keeps_info_calls keeps_control_calls
  keeps_network_calls

section \<open>Runs\<close>

text \<open>
  A process that may run: the table is consistent and the slot is in use; or it is the one that runs. A run is
  safe for it when the table is consistent at its end and at every switch, and the rest of the run is safe in every
  consistent state in which the process runs again.
\<close>

definition alive :: "nat \<Rightarrow> sys \<Rightarrow> bool" where
  "alive i s \<longleftrightarrow> pool_ok (s_kern s) \<and> pr_state (k_pool (s_kern s) i) \<noteq> Unused"

definition running :: "nat \<Rightarrow> sys \<Rightarrow> bool" where
  "running i s \<longleftrightarrow> pool_ok (s_kern s) \<and> pr_state (k_pool (s_kern s) i) = Running"

coinductive run_safe :: "nat \<Rightarrow> run \<Rightarrow> bool" for i where
  safe_done: "alive i s \<Longrightarrow> run_safe i (Done v s)"
| safe_panic: "run_safe i Panics"
| safe_end: "pool_ok (s_kern s) \<Longrightarrow> run_safe i (Ends s)"
| safe_switch: "pool_ok (s_kern s) \<Longrightarrow> (\<And>s'. running i s' \<Longrightarrow> run_safe i (g s')) \<Longrightarrow> run_safe i (Switch s g)"

inductive_cases run_safe_doneE: "run_safe i (Done v s)"
inductive_cases run_safe_endE: "run_safe i (Ends s)"
inductive_cases run_safe_switchE: "run_safe i (Switch s g)"

lemma running_alive: "running i s \<Longrightarrow> alive i s" by (simp add: running_def alive_def)

lemma alive_tame: "alive i s \<Longrightarrow> tame s s' \<Longrightarrow> alive i s'"
  unfolding alive_def tame_def using pool_ok_frame used_frame by blast

lemma alive_pool: "alive i s \<Longrightarrow> pool_ok (s_kern s)" by (simp add: alive_def)

lemma safe_finish: "alive i s \<Longrightarrow> keeps s m \<Longrightarrow> run_safe i (finish m)"
  by (auto simp: finish_def keeps_def split: option.splits intro: run_safe.intros alive_tame)

lemma safe_attempt: "(\<And>x. m = Some x \<Longrightarrow> run_safe i (c x)) \<Longrightarrow> run_safe i (attempt m c)"
  by (auto simp: attempt_def split: option.splits intro: run_safe.intros)

lemma safe_attempt_state:
  "alive i s \<Longrightarrow> keeps s m \<Longrightarrow> (\<And>r t. alive i t \<Longrightarrow> run_safe i (f r t)) \<Longrightarrow> run_safe i (attempt m (\<lambda>(r, t). f r t))"
  by (auto simp: attempt_def keeps_def safe_panic split: option.splits dest: alive_tame)

lemma safe_attempt_pair:
  "(\<And>a b. m = Some (a, b) \<Longrightarrow> run_safe i (f a b)) \<Longrightarrow> run_safe i (attempt m (\<lambda>(a, b). f a b))"
  by (auto simp: attempt_def split: option.splits intro: run_safe.intros)

lemma safe_if: "(b \<Longrightarrow> run_safe i x) \<Longrightarrow> (\<not> b \<Longrightarrow> run_safe i y) \<Longrightarrow> run_safe i (if b then x else y)" by simp

lemma safe_option:
  "(x = None \<Longrightarrow> run_safe i a) \<Longrightarrow> (\<And>y. x = Some y \<Longrightarrow> run_safe i (f y)) \<Longrightarrow> run_safe i (case x of None \<Rightarrow> a | Some y \<Rightarrow> f y)"
  by (cases x) auto

lemma safe_pair: "(\<And>a b. x = (a, b) \<Longrightarrow> run_safe i (f a b)) \<Longrightarrow> run_safe i (case x of (a, b) \<Rightarrow> f a b)"
  by (cases x) auto

lemma safe_then:
  assumes "run_safe i r" and "\<And>v s. alive i s \<Longrightarrow> run_safe i (c v s)"
  shows "run_safe i (then_run r c)"
  using assms(1)
proof (coinduction arbitrary: r)
  case run_safe
  show ?case
  proof (cases r)
    case (Done v s)
    then have "run_safe i (c v s)" using run_safe assms(2) by (auto elim: run_safe_doneE)
    then show ?thesis using Done by (cases "c v s") (auto simp: then_run.code elim: run_safe_doneE run_safe_endE run_safe_switchE)
  next
    case Panics
    then show ?thesis by (simp add: then_run.code)
  next
    case (Ends s)
    then show ?thesis using run_safe by (auto simp: then_run.code elim: run_safe_endE)
  next
    case (Switch s g)
    then show ?thesis using run_safe by (auto simp: then_run.code elim: run_safe_switchE)
  qed
qed

text \<open>What one pass of a sleeping loop has to promise.\<close>

definition pass_ok :: "nat \<Rightarrow> 'p pass \<Rightarrow> bool" where
  "pass_ok i x \<longleftrightarrow> (case x of Crash \<Rightarrow> True | Waits p s \<Rightarrow> pool_ok (s_kern s) | Gives r s \<Rightarrow> alive i s)"

lemma frame_resume: "frame {i} k (sleep_resume k i)"
  unfolding sleep_resume_def by (rule frame_upd) (auto simp: same_slot_def)

lemma running_resume: "running i s \<Longrightarrow> running i (on_kern s (sleep_resume (s_kern s) i))"
  unfolding running_def using pool_ok_frame [OF _ frame_resume] by (simp add: sleep_resume_def)

lemma safe_loop:
  assumes body: "\<And>p s. R s \<Longrightarrow> pass_ok i (body p s)" and run: "\<And>s. running i s \<Longrightarrow> R s"
    and c: "\<And>r s. alive i s \<Longrightarrow> run_safe i (c r s)" and s: "R s"
  shows "run_safe i (run_loop i body c p s)"
  using s
proof (coinduction arbitrary: p s)
  case run_safe
  show ?case
  proof (cases "body p s")
    case Crash
    then show ?thesis by (simp add: run_loop.code)
  next
    case (Waits q t)
    then have "pool_ok (s_kern t)" using body [OF run_safe, of p] by (simp add: pass_ok_def)
    moreover have "R (on_kern t' (sleep_resume (s_kern t') i))" if "running i t'" for t' using run running_resume that by blast
    ultimately show ?thesis using Waits by (auto simp: run_loop.code)
  next
    case (Gives r t)
    then have "run_safe i (c r t)" using body [OF run_safe, of p] c by (simp add: pass_ok_def)
    then show ?thesis using Gives
      by (cases "c r t") (auto simp: run_loop.code elim: run_safe_doneE run_safe_endE run_safe_switchE)
  qed
qed

lemma alive_kern: "alive i s \<Longrightarrow> frame S (s_kern s) k \<Longrightarrow> alive i (on_kern s k)"
  using alive_tame tame_kern by blast

lemma pool_sleep: "alive i s \<Longrightarrow> pool_ok (sleep_on (s_kern s) i ch)"
  unfolding alive_def using pool_ok_frame frame_sleep_on by blast

lemma tame_put_pipe: "tame s (put_pipe s p x m ws)"
proof -
  have "frame UNIV k (fold (\<lambda>c k. wakeup k (Chan_pipe p c)) ws k)" for k
  proof (induction ws arbitrary: k)
    case (Cons w ws)
    then show ?case using frame_trans [OF frame_wakeup Cons.IH] by simp
  qed simp
  moreover let ?k = "s_kern s"
  have "frame UNIV ?k (?k\<lparr>k_fs := st, k_mem := m\<rparr>)" for st by (simp add: frame_def)
  ultimately show ?thesis unfolding tame_def put_pipe_def Let_def on_kern_kern by (blast intro: frame_trans)
qed

lemma pass_pipe_read: "alive i s \<Longrightarrow> pass_ok i (pipe_read_once i p a n j s)"
  unfolding pipe_read_once_def Let_def
  using pool_sleep [of i] alive_tame [OF _ tame_put_pipe, of i s]
  by (auto simp: pass_ok_def split: option.splits prod.splits run_end.splits)

lemma pass_pipe_write: "alive i s \<Longrightarrow> pass_ok i (pipe_write_once i p a n j s)"
  unfolding pipe_write_once_def Let_def
  using pool_sleep [of i] alive_tame [OF _ tame_put_pipe, of i s]
  by (auto simp: pass_ok_def split: option.splits prod.splits run_end.splits)

lemma pass_sleep_ticks: "alive i s \<Longrightarrow> pass_ok i (sleep_ticks_once i n t s)"
  using pool_sleep by (auto simp: sleep_ticks_once_def Let_def pass_ok_def)

text \<open>Reading, writing and sleeping, with any safe continuation.\<close>

lemma safe_fread:
  assumes "alive i s" and "\<And>r s. alive i s \<Longrightarrow> run_safe i (c r s)"
  shows "run_safe i (fread e i f buf len off up c s)"
  unfolding fread_def Let_def
proof (rule safe_attempt)
  fix x
  have "alive i (on_kern s ((s_kern s)\<lparr>k_mem := m\<rparr>))" for m by (rule alive_kern [OF assms(1) frame_mem])
  moreover have "alive i (put_file s f y st m)" for y st m using alive_tame [OF assms(1)] by simp
  ultimately show "run_safe i (case f_kind x of
      NormalFile d \<Rightarrow> attempt (file_read (k_fs (s_kern s)) (k_mem (s_kern s)) x buf len off up)
        (\<lambda>(r, x, m). c r (put_file s f x (k_fs (s_kern s)) m))
    | DeviceFile d \<Rightarrow> attempt (device_read e (s_kern s) x d buf len) (\<lambda>(r, m). c r (on_kern s ((s_kern s)\<lparr>k_mem := m\<rparr>)))
    | PipeFile p w \<Rightarrow> run_loop i (pipe_read_once i p buf (to_int len)) c 0 s)"
    using assms running_alive pass_pipe_read
    by (auto split: file_kind.splits intro!: safe_attempt safe_loop [where R = "alive i"])
qed

lemma safe_fwrite:
  assumes "alive i s" and "\<And>r s. alive i s \<Longrightarrow> run_safe i (c r s)"
  shows "run_safe i (fwrite e i f buf len off up c s)"
  unfolding fwrite_def Let_def
proof (rule safe_attempt)
  fix x
  have "alive i (put_file s f y st m)" for y st m using alive_tame [OF assms(1)] by simp
  then show "run_safe i (case f_kind x of
      NormalFile d \<Rightarrow> attempt (file_write (k_fs (s_kern s)) (k_mem (s_kern s)) x buf len off up)
        (\<lambda>(r, x, st). c r (put_file s f x st (k_mem (s_kern s))))
    | DeviceFile d \<Rightarrow> attempt (device_write e (s_kern s) x d buf len) (\<lambda>r. c r s)
    | PipeFile p w \<Rightarrow> run_loop i (pipe_write_once i p buf (to_int len)) c 0 s)"
    using assms running_alive pass_pipe_write
    by (auto split: file_kind.splits intro!: safe_attempt safe_loop [where R = "alive i"])
qed

lemma safe_sleep:
  assumes "alive i s" and "\<And>r s. alive i s \<Longrightarrow> run_safe i (c r s)"
  shows "run_safe i (sleep_from_tv i sec usec c s)"
  using assms running_alive pass_sleep_ticks
  by (auto simp: sleep_from_tv_def sleep_n_ticks_def intro!: safe_loop [where R = "alive i"])

lemma alive_set_mem: "alive i s \<Longrightarrow> alive i (set_mem s m)" using alive_tame by simp
lemma alive_poke64: "alive i s \<Longrightarrow> alive i (poke64 s a ws)" using alive_tame by simp

lemma alive_if: "alive i x \<Longrightarrow> alive i y \<Longrightarrow> alive i (if b then x else y)" by simp

lemma safe_stream_in:
  "alive i s \<Longrightarrow> (\<And>t. alive i t \<Longrightarrow> run_safe i (c t)) \<Longrightarrow> run_safe i (attempt (stream_in s j d va n) c)"
  by (rule safe_attempt) (auto simp: stream_in_def bind_eq_Some_conv alive_set_mem)

lemma keeps_offset_from: "keeps s (offset_from s i f a loc)"
  unfolding offset_from_def by (intro keep_rules) simp_all

lemma keeps_splice_offset: "keeps s (splice_offset s i a loc)"
  unfolding splice_offset_def Let_def by (intro keep_rules) simp_all

lemma keeps_offset_back: "tame s t \<Longrightarrow> keeps s (offset_back t i a loc off n)"
  unfolding offset_back_def by (intro keep_rules) simp_all

lemma keeps_range_finish: "keeps s (range_finish e i ai ao oi oo rl wl s)"
  unfolding range_finish_def by (intro keeps_offset_back keep_rules) simp_all

lemma keeps_splice_back: "keeps s (splice_back s i a loc off n)"
  unfolding splice_back_def by (intro keep_rules) simp_all

lemmas safe_state = safe_attempt_state [OF _ keeps_user_in [OF tame_refl]] safe_attempt_state [OF _ keeps_user_out [OF tame_refl]]
  safe_attempt_state [OF _ keeps_offset_from] safe_attempt_state [OF _ keeps_splice_offset]
  safe_finish [OF _ keeps_range_finish] safe_finish [OF _ keeps_splice_back]

lemmas safe_rules = safe_state safe_stream_in safe_fread safe_fwrite safe_sleep safe_attempt_pair safe_attempt
  safe_if safe_option safe_pair safe_panic safe_done alive_set_mem alive_poke64 alive_if

lemma safe_writev_loop: "alive i s \<Longrightarrow> run_safe i (writev_loop e i f p n j w s)"
proof (induction n arbitrary: j w s)
  case (Suc n)
  show ?case unfolding writev_loop.simps Let_def by (intro safe_rules Suc)
qed (simp add: safe_done)

lemma safe_readv_loop: "alive i s \<Longrightarrow> run_safe i (readv_loop e i f p n j w s)"
proof (induction n arbitrary: j w s)
  case (Suc n)
  show ?case unfolding readv_loop.simps Let_def by (intro safe_rules Suc)
qed (simp add: safe_done)

lemma safe_copy_range: "alive i s \<Longrightarrow> run_safe i (copy_range e i fi fo ai ao len s)"
  unfolding copy_range_def Let_def by (intro safe_rules)

lemma safe_splice_files: "alive i s \<Longrightarrow> run_safe i (splice_files e i fi fo x b ai ao len s)"
  unfolding splice_files_def splice_move_def Let_def by (intro safe_rules)

lemma safe_data_calls:
  "alive i s \<Longrightarrow> run_safe i (sys_write e i s)" "alive i s \<Longrightarrow> run_safe i (sys_writev e i s)"
  "alive i s \<Longrightarrow> run_safe i (sys_read e i s)" "alive i s \<Longrightarrow> run_safe i (sys_readv e i s)"
  "alive i s \<Longrightarrow> run_safe i (sys_pread64 e i s)" "alive i s \<Longrightarrow> run_safe i (sys_copy_file_range e i s)"
  "alive i s \<Longrightarrow> run_safe i (sys_sendfile e i s)" "alive i s \<Longrightarrow> run_safe i (sys_splice e i s)"
  unfolding sys_write_def sys_writev_def sys_read_def sys_readv_def sys_pread64_def sys_copy_file_range_def
    sys_sendfile_def sys_splice_def Let_def
  by (intro safe_writev_loop safe_readv_loop safe_copy_range safe_splice_files safe_rules; assumption)+

lemma safe_sleep_calls:
  assumes "alive i s"
  shows "run_safe i (sys_sleep e i s)" "run_safe i (sys_nanosleep e i s)"
  unfolding sys_sleep_def sys_nanosleep_def
  by ((rule safe_attempt_state [OF assms], (intro keep_rules; simp), intro safe_rules, assumption+)+)

lemma safe_futex: "alive i s \<Longrightarrow> run_safe i (sys_futex e i s)"
  unfolding sys_futex_def
  by (intro safe_rules safe_switch) (auto intro: pool_sleep alive_kern running_alive frame_resume)

lemma safe_yield: "alive i s \<Longrightarrow> run_safe i (sys_sched_yield i s)"
proof -
  assume a: "alive i s"
  have "frame UNIV (s_kern s) (yield_proc (s_kern s) i)"
    unfolding yield_proc_def using a by (intro frame_upd) (auto simp: same_slot_def alive_def)
  then show ?thesis unfolding sys_sched_yield_def
    using alive_pool [OF alive_kern [OF a]] by (intro safe_rules safe_switch) (auto intro: running_alive)
qed

lemma safe_exit_run: "alive i s \<Longrightarrow> run_safe i (exit_run i status s)"
  unfolding exit_run_def alive_def by (intro safe_attempt safe_end) (auto intro: pool_ok_frame frame_exit_proc)

lemma safe_exit: "alive i s \<Longrightarrow> run_safe i (sys_exit e i s)"
  unfolding sys_exit_def by (rule safe_attempt) (simp add: safe_exit_run [unfolded exit_run_def])

lemma safe_fork: "alive i s \<Longrightarrow> run_safe i (plain (sys_fork e) i s)"
  unfolding alive_def plain_def finish_def
  by (auto simp: sys_fork_def bind_eq_Some_conv returns_def alive_def split: option.splits
      intro!: safe_panic safe_done intro: pool_ok_clone dest: clone_used)

text \<open>A process that runs does not release itself when it waits.\<close>

lemma wait_scan_used:
  "wait_scan k cur cp addr loc is h = Some (r, h', k') \<Longrightarrow> pr_state (k_pool k cur) = Running \<Longrightarrow>
   pr_state (k_pool k' cur) \<noteq> Unused"
proof (induction k cur cp addr loc "is" h rule: wait_scan.induct)
  case (2 k cur cp addr loc np nps h)
  show ?case
  proof (cases "\<not> (cp > 0 \<and> pr_pid (k_pool k np) \<noteq> cp) \<and> pr_parent (k_pool k np) = Some cur \<and> pr_state (k_pool k np) = Zombie")
    case True
    then obtain e k1 where c: "(if addr \<noteq> 0 then copyout_int k cur addr loc (pr_xstate (k_pool k np)) else Some (0, k)) = Some (e, k1)"
      and rest: "(if e < 0 then Some (Some (- 1), True, k1)
        else do { k2 \<leftarrow> freeproc k1 np; Some (Some (pr_pid (k_pool k np)), True, k2) }) = Some (r, h', k')"
      using 2(4) by (auto simp: bind_eq_Some_conv Let_def)
    have "k_pool k1 = k_pool k" using c frame_copyout_int by (auto split: if_splits)
    moreover have "np \<noteq> cur" using True 2(5) by auto
    ultimately show ?thesis using rest 2(5) freeproc_used [of k1 np k' cur] by (auto simp: bind_eq_Some_conv split: if_splits)
  next
    case False
    then show ?thesis using 2 by (auto split: if_splits)
  qed
qed auto

lemma pass_wait: "running i s \<Longrightarrow> pass_ok i (wait_once e i pid a first s)"
proof -
  assume r: "running i s"
  let ?k = "s_kern s"
  have run: "pool_ok k'" "q \<noteq> None \<longrightarrow> pr_state (k_pool k' i) \<noteq> Unused"
    if "wait_run ?k i pid a loc = Some (q, k')" for q k' loc
  proof -
    show "pool_ok k'" using that r pool_ok_wait by (auto simp: running_def)
    show "q \<noteq> None \<longrightarrow> pr_state (k_pool k' i) \<noteq> Unused"
      using that r wait_scan_used [of ?k i pid a loc]
      by (auto simp: wait_run_def running_def bind_eq_Some_conv split: option.splits if_splits)
  qed
  then have "pool_ok k'" "q \<noteq> None \<longrightarrow> pr_state (k_pool k' i) \<noteq> Unused"
    if "wait_call ?k i pid a loc = Some (q, k')" for q k' loc
    using that r by (auto simp: wait_call_def running_def split: if_splits)
  with run show ?thesis by (auto simp: wait_once_def pass_ok_def alive_def split: option.splits)
qed

lemma safe_wait: "running i s \<Longrightarrow> run_safe i (sys_wait e i s)"
  unfolding sys_wait_def
  by (intro safe_attempt_pair safe_loop [where R = "running i"] safe_done) (auto simp: pass_wait)

section \<open>Dispatch and traps\<close>

lemma safe_plain: "alive i s \<Longrightarrow> keeps s (h i s) \<Longrightarrow> run_safe i (plain h i s)"
  unfolding plain_def by (rule safe_finish)

text \<open>The calls that are not modelled are taken to be safe.\<close>

definition others_safe :: "(u64 \<Rightarrow> handler) \<Rightarrow> bool" where
  "others_safe other \<longleftrightarrow> (\<forall>n i s. running i s \<longrightarrow> run_safe i (other n i s))"

lemma bindings_safe:
  assumes o: "others_safe other" and r: "running i s" and b: "(n, h) \<in> set (bindings other e)" and g: "n \<noteq> SYS_exit_group"
  shows "run_safe i (h i s)"
proof -
  have a: "alive i s" using r by (rule running_alive)
  have "\<forall>(n, h) \<in> set (bindings other e). n \<noteq> SYS_exit_group \<longrightarrow> run_safe i (h i s)"
    unfolding bindings_def list.set ball_simps split
    by (intro conjI impI safe_plain [OF a] keeps_plain safe_data_calls [OF a] safe_sleep_calls [OF a] safe_futex [OF a]
        safe_yield [OF a] safe_exit [OF a] safe_fork [OF a] safe_wait [OF r] o [unfolded others_safe_def, rule_format, OF r])
       (simp_all add: sys_zero_def safe_done a)
  then show ?thesis using b g by auto
qed

lemma fold_upd_Some:
  "fold (\<lambda>(n, h) t. t(n := Some h)) bs t n = Some h \<Longrightarrow> t n = Some h \<or> (n, h) \<in> set bs"
  by (induction bs arbitrary: t) (fastforce split: if_splits)+

lemma safe_invoke:
  assumes o: "others_safe other" and r: "running i s" and n: "num \<noteq> SYS_exit_group"
  shows "run_safe i (invoke_syscaller other e num i s)"
proof (cases "syscall_table other e num")
  case (Some h)
  then have "(num, h) \<in> set (bindings other e)" unfolding syscall_table_def by (auto dest: fold_upd_Some)
  then have "run_safe i (h i s)" using bindings_safe [OF o r] n by auto
  then show ?thesis using Some by (simp add: invoke_syscaller_def safe_panic)
qed (simp add: invoke_syscaller_def safe_panic)

lemma running_set_mem: "running i (set_mem s m) \<longleftrightarrow> running i s"
  unfolding running_def set_mem_def by (auto dest: pool_ok_frame intro: pool_ok_frame [OF _ frame_mem] simp: pool_ok_def)

lemma running_tf [simp]: "running i (tf_set s tf off v) \<longleftrightarrow> running i s" by (simp add: tf_set_def running_set_mem)

lemma alive_tf: "alive i s \<Longrightarrow> alive i (tf_set s tf off v)" by (simp add: tf_set_def alive_set_mem)

text \<open>The number a process puts into \<^verbatim>\<open>a7\<close>, read as the trap does.\<close>

definition call_number :: "nat \<Rightarrow> u64 \<Rightarrow> sys \<Rightarrow> u64" where
  "call_number i sepc s =
     (let tf = pr_trapframe (k_pool (s_kern s) i); s = tf_set s tf 24 sepc
      in tf_get (tf_set s tf 24 (tf_get s tf 24 + 4)) tf 168)"

lemma safe_trap_end: "alive i s \<Longrightarrow> run_safe i (trap_end i d s)"
proof -
  assume a: "alive i s"
  have "frame UNIV (s_kern s) (snd (sche_proc (s_kern s) i))"
    using a by (auto simp: sche_proc_def Let_def frame_def same_slot_def alive_def)
  then have "alive i (on_kern s (snd (sche_proc (s_kern s) i)))" by (rule alive_kern [OF a])
  then have "run_safe i (sched_run i s)" unfolding sched_run_def
    by (cases "sche_proc (s_kern s) i") (auto intro!: safe_done safe_switch dest: alive_pool running_alive)
  then show ?thesis unfolding trap_end_def using a by (auto intro: safe_exit_run safe_done)
qed

lemma alive_dev_intr: "alive i s \<Longrightarrow> dev_intr rc sc s = (d, t) \<Longrightarrow> alive i t"
proof -
  assume a: "alive i s" and d: "dev_intr rc sc s = (d, t)"
  have "frame UNIV (s_kern s) (handle_clock_intr (s_kern s))"
    unfolding handle_clock_intr_def by (rule frame_trans [OF _ frame_wakeup]) (simp add: frame_def)
  then show ?thesis using a d alive_kern [OF a] by (auto simp: dev_intr_def split: if_splits)
qed

lemma safe_user_trap:
  assumes o: "others_safe other" and r: "running i s" and n: "scause = 8 \<Longrightarrow> call_number i sepc s \<noteq> SYS_exit_group"
  shows "run_safe i (user_trap other e rc scause sepc i s)"
proof -
  let ?tf = "pr_trapframe (k_pool (s_kern s) i)"
  let ?s = "tf_set s ?tf 24 sepc"
  let ?t = "tf_set ?s ?tf 24 (tf_get ?s ?tf 24 + 4)"
  have rs: "running i ?s" "running i ?t" using r by simp_all
  note a = running_alive [OF rs(1)]
  have tf: "pr_trapframe (k_pool (s_kern ?s) i) = ?tf" by (simp add: tf_set_def set_mem_def)
  have "run_safe i (trap_syscall other e i ?s)" if "scause = 8"
  proof -
    have "tf_get ?t ?tf 168 \<noteq> SYS_exit_group" using n that by (simp add: call_number_def Let_def)
    then show ?thesis unfolding trap_syscall_def Let_def tf
      by (intro safe_if safe_exit_run a safe_then safe_invoke o rs(2) safe_done alive_tf running_alive [OF rs(2)])
  qed
  moreover have "run_safe i (trap_end i d t)" if "dev_intr rc scause ?s = (d, t)" for d t
    using alive_dev_intr [OF a that] by (rule safe_trap_end)
  moreover have "run_safe i (trap_end i 0 (on_kern t (upd (s_kern t) i (\<lambda>p. p\<lparr>pr_killed := True\<rparr>))))"
    if "dev_intr rc scause ?s = (d, t)" for d t
    by (rule safe_trap_end, rule alive_kern [OF alive_dev_intr [OF a that], of UNIV], rule frame_upd) (auto simp: same_slot_def)
  ultimately show ?thesis unfolding user_trap_def Let_def
    using safe_exit_run [OF a] by (auto split: prod.splits intro!: safe_then safe_trap_end)
qed

end
