(* ===== verification/Sys_Properties.thy ===== *)
theory Sys_Properties
  imports Sys_Correct
begin

text \<open>
  The machine: processes trap into the kernel, sleep inside it, are scheduled and go on, in any order. And what single
  system calls do from their arguments to their effect.
\<close>

section \<open>The machine\<close>

text \<open>
  For a slot, the number of the process that waits inside the kernel and the rest of its run. A rest that belongs to a process
  that was released is dead.
\<close>

record machine =
  mc_sys :: sys
  mc_rest :: "nat \<Rightarrow> (int \<times> (sys \<Rightarrow> run)) option"

definition slot_pid :: "machine \<Rightarrow> nat \<Rightarrow> int" where "slot_pid m i = pr_pid (k_pool (s_kern (mc_sys m)) i)"
definition slot_state :: "machine \<Rightarrow> nat \<Rightarrow> proc_state" where "slot_state m i = pr_state (k_pool (s_kern (mc_sys m)) i)"

definition in_kernel :: "machine \<Rightarrow> nat \<Rightarrow> (sys \<Rightarrow> run) option" where
  "in_kernel m i = (case mc_rest m i of Some (pid, g) \<Rightarrow> if pid = slot_pid m i then Some g else None | None \<Rightarrow> None)"

text \<open>The machine after slot \<open>i\<close> has run up to a switch, its return or its end; there is none when the kernel stops.\<close>

fun mc_put :: "machine \<Rightarrow> nat \<Rightarrow> run \<Rightarrow> machine option" where
  "mc_put m i (Done v s) = Some \<lparr>mc_sys = s, mc_rest = (mc_rest m)(i := None)\<rparr>"
| "mc_put m i (Ends s) = Some \<lparr>mc_sys = s, mc_rest = (mc_rest m)(i := None)\<rparr>"
| "mc_put m i (Switch s g) = Some \<lparr>mc_sys = s, mc_rest = (mc_rest m)(i := Some (slot_pid m i, g))\<rparr>"
| "mc_put m i Panics = None"

inductive mc_step :: "(u64 \<Rightarrow> handler) \<Rightarrow> machine \<Rightarrow> machine \<Rightarrow> bool" for other where
  traps: "slot_state m i = Running \<Longrightarrow> in_kernel m i = None \<Longrightarrow>
    (scause = 8 \<Longrightarrow> call_number i sepc (mc_sys m) \<noteq> SYS_exit_group) \<Longrightarrow>
    mc_put m i (user_trap other e rc scause sepc i (mc_sys m)) = Some m' \<Longrightarrow> mc_step other m m'"
| goes_on: "slot_state m i = Running \<Longrightarrow> in_kernel m i = Some g \<Longrightarrow> mc_put m i (g (mc_sys m)) = Some m' \<Longrightarrow> mc_step other m m'"
| dispatches: "(\<forall>i < pool_size. slot_state m i \<noteq> Running) \<Longrightarrow> sched_scan (s_kern (mc_sys m)) j needed prio = Some (i, k') \<Longrightarrow>
    mc_step other m (m\<lparr>mc_sys := on_kern (mc_sys m) k'\<rparr>)"
| ticks: "(\<forall>i < pool_size. slot_state m i \<noteq> Running) \<Longrightarrow>
    mc_step other m (m\<lparr>mc_sys := on_kern (mc_sys m) (handle_clock_intr (s_kern (mc_sys m)))\<rparr>)"

inductive mc_reach :: "(u64 \<Rightarrow> handler) \<Rightarrow> sys \<Rightarrow> machine \<Rightarrow> bool" for other s0 where
  mc_start: "mc_reach other s0 \<lparr>mc_sys = s0, mc_rest = \<lambda>_. None\<rparr>"
| mc_next: "mc_reach other s0 m \<Longrightarrow> mc_step other m m' \<Longrightarrow> mc_reach other s0 m'"

definition mc_ok :: "machine \<Rightarrow> bool" where
  "mc_ok m \<longleftrightarrow> pool_ok (s_kern (mc_sys m)) \<and>
     (\<forall>i pid g s. mc_rest m i = Some (pid, g) \<longrightarrow> running i s \<longrightarrow> run_safe i (g s))"

lemma mc_put_ok: "run_safe i r \<Longrightarrow> mc_ok m \<Longrightarrow> mc_put m i r = Some m' \<Longrightarrow> mc_ok m'"
  by (cases r) (auto simp: mc_ok_def alive_def elim!: run_safe_doneE run_safe_endE run_safe_switchE split: if_splits)

lemma mc_step_ok:
  assumes "mc_step other m m'" and o: "others_safe other" and ok: "mc_ok m"
  shows "mc_ok m'"
  using assms(1)
proof cases
  case (traps i scause sepc e rc)
  have "running i (mc_sys m)" using traps(1) ok by (simp add: running_def mc_ok_def slot_state_def)
  then show ?thesis using safe_user_trap [OF o _ traps(3)] mc_put_ok [OF _ ok traps(4)] by blast
next
  case (goes_on i g)
  have "running i (mc_sys m)" using goes_on(1) ok by (simp add: running_def mc_ok_def slot_state_def)
  moreover obtain pid where "mc_rest m i = Some (pid, g)"
    using goes_on(2) by (auto simp: in_kernel_def split: option.splits if_splits)
  ultimately have "run_safe i (g (mc_sys m))" using ok by (auto simp: mc_ok_def)
  then show ?thesis using mc_put_ok [OF _ ok goes_on(3)] by blast
next
  case (dispatches j needed prio i k')
  then show ?thesis using ok pool_ok_schedule by (auto simp: mc_ok_def slot_state_def)
next
  case ticks
  have "frame UNIV (s_kern (mc_sys m)) (handle_clock_intr (s_kern (mc_sys m)))"
    unfolding handle_clock_intr_def by (rule frame_trans [OF _ frame_wakeup]) (simp add: frame_def)
  then show ?thesis using ticks ok pool_ok_frame by (auto simp: mc_ok_def)
qed

lemma mc_reach_ok: "mc_reach other s0 m \<Longrightarrow> others_safe other \<Longrightarrow> pool_ok (s_kern s0) \<Longrightarrow> mc_ok m"
proof (induction rule: mc_reach.induct)
  case mc_start
  then show ?case by (simp add: mc_ok_def)
qed (auto intro: mc_step_ok)


definition demo_sys :: "kern \<Rightarrow> sys" where
  "demo_sys k = \<lparr>s_kern = k, s_unlinked = [], s_sigacts = \<lambda>_ _. \<lparr>sa_handler = 7, sa_flags = 0, sa_mask = 0\<rparr>\<rparr>"

definition demo_env :: env where
  "demo_env = \<lparr>e_ops = undefined, e_info = undefined, e_mount = \<lambda>_ _ _ _ _. None, e_umount = \<lambda>_ _ _. None,
     e_dev_read = \<lambda>_ m _ _. (- 1, m), e_dev_write = \<lambda>_ _ _ _. - 1, e_time = 0,
     e_loc = \<lambda>j. 0x10000 + 0x100 * of_nat j, e_new = \<lambda>j. 0x90000000 + 0x1000 * of_nat j\<rparr>"

lemma wakeup_ticks [simp]: "k_ticks (wakeup k ch) = k_ticks k"
proof -
  have "k_ticks (fold (wake_one ch) is k) = k_ticks k" for "is"
    by (induction "is" arbitrary: k) (simp_all add: wake_one_def)
  then show ?thesis by (simp add: wakeup_def)
qed

lemma refusing_safe: "others_safe (\<lambda>_ _. Done (- 1))"
  by (auto simp: others_safe_def intro: safe_done running_alive)


section \<open>Sleeping\<close>

text \<open>What a run may come to, whatever states it is resumed in.\<close>

inductive comes_to :: "run \<Rightarrow> u64 \<Rightarrow> sys \<Rightarrow> bool" where
  at_end: "comes_to (Done v s) v s"
| over_switch: "comes_to (g s') v t \<Longrightarrow> comes_to (Switch s g) v t"

inductive_cases comes_to_doneE: "comes_to (Done v s) w t"

definition int_result :: "int \<Rightarrow> sys \<Rightarrow> run" where "int_result r = Done (word_of_int r)"

lemma sleep_loop_step:
  "run_loop i (sleep_ticks_once i n) c p s =
     (if k_ticks (s_kern s) - p < word_of_int n then
        if pr_killed (k_pool (s_kern s) i) then c (- 2) s
        else Switch (on_kern s (sleep_on (s_kern s) i Chan_ticks))
          (\<lambda>s. run_loop i (sleep_ticks_once i n) c p (on_kern s (sleep_resume (s_kern s) i)))
      else c 0 s)"
  by (subst run_loop.code) (simp add: sleep_ticks_once_def Let_def)

lemma sleep_loop_lasts:
  "comes_to r v t \<Longrightarrow> r = run_loop i (sleep_ticks_once i n) int_result p s \<Longrightarrow> v = 0 \<Longrightarrow> word_of_int n \<le> k_ticks (s_kern t) - p"
proof (induction arbitrary: s rule: comes_to.induct)
  case (at_end v s')
  then show ?case
    by (subst (asm) sleep_loop_step) (auto simp: int_result_def split: if_splits)
next
  case (over_switch g s' v t s1)
  have "g = (\<lambda>s. run_loop i (sleep_ticks_once i n) int_result p (on_kern s (sleep_resume (s_kern s) i)))"
    using over_switch.prems(1) by (subst (asm) sleep_loop_step) (auto simp: int_result_def split: if_splits)
  then show ?case using over_switch.IH over_switch.prems(2) by blast
qed

text \<open>
  C19: sleeping for a number of ticks. However often the process is woken and whatever happens in between, the call reports success
  only when that many ticks have passed since it began; and once they have passed, the next time the process runs it
  returns success at once.
\<close>

theorem sleep_lasts:
  assumes "0 \<le> n"
  shows "(\<forall>t. comes_to (sleep_n_ticks i n int_result s) 0 t \<longrightarrow> word_of_int n \<le> k_ticks (s_kern t) - k_ticks (s_kern s)) \<and>
    (\<forall>s' g (u :: sys). sleep_n_ticks i n int_result s = Switch s' g \<and> word_of_int n \<le> k_ticks (s_kern u) - k_ticks (s_kern s) \<longrightarrow>
       (\<exists>u'. g u = Done 0 u'))"
proof (intro conjI allI impI)
  fix t
  assume "comes_to (sleep_n_ticks i n int_result s) 0 t"
  then show "word_of_int n \<le> k_ticks (s_kern t) - k_ticks (s_kern s)"
    using assms sleep_loop_lasts by (simp add: sleep_n_ticks_def)
next
  fix s' g and u :: sys
  assume a: "sleep_n_ticks i n int_result s = Switch s' g \<and> word_of_int n \<le> k_ticks (s_kern u) - k_ticks (s_kern s)"
  then have "g u = run_loop i (sleep_ticks_once i n) int_result (k_ticks (s_kern s)) (on_kern u (sleep_resume (s_kern u) i))"
    using assms sleep_loop_step [of i n int_result "k_ticks (s_kern s)" s]
    by (auto simp: sleep_n_ticks_def int_result_def split: if_splits)
  then show "\<exists>u'. g u = Done 0 u'"
    using a by (subst (asm) sleep_loop_step) (auto simp: int_result_def sleep_resume_def)
qed

theorem sleep_lasts_witness:
  "let s = demo_sys (demo_kern demo_family)
   in (\<exists>s' g. sleep_n_ticks 2 3 int_result s = Switch s' g \<and> (\<exists>u'. g (demo_sys ((demo_kern demo_family)\<lparr>k_ticks := 8\<rparr>)) = Done 0 u')) \<and>
      (\<forall>t. comes_to (sleep_n_ticks 2 3 int_result s) 0 t \<longrightarrow> 3 \<le> k_ticks (s_kern t) - 5)"
proof -
  let ?s = "demo_sys (demo_kern demo_family)"
  obtain s' g where sg: "sleep_n_ticks 2 3 int_result ?s = Switch s' g"
    by (simp add: sleep_n_ticks_def sleep_loop_step demo_sys_def demo_kern_def demo_family_def idle_pcb_def)
  then show ?thesis using sleep_lasts [of 3 2 ?s] by (fastforce simp: demo_sys_def demo_kern_def)
qed

text \<open>
  C28: the clock. The nanoseconds that \<^verbatim>\<open>clock_gettime\<close> reports reach and pass a full second: they do so whenever the cycles in the current
  second are 2910384 or more of 3125000, because a second is taken to have \<open>2^30\<close> nanoseconds. The microseconds of
  \<^verbatim>\<open>gettimeofday\<close> stay below one million.
\<close>

theorem clock_overruns_second:
  "(1000000000 \<le> snd (clock_gettime k stamp) \<longleftrightarrow> 2910384 \<le> (stamp + k_ticks k * cycles_per_tick) mod qemu_fre) \<and>
   snd (get_time_val k stamp) < 1000000"
proof -
  let ?r = "(stamp + k_ticks k * cycles_per_tick) mod qemu_fre"
  have f: "unat qemu_fre = 3125000" by (simp add: qemu_fre_def)
  then have r: "unat ?r < 3125000" by (simp add: unat_mod)
  then have "unat (?r * 2 ^ 30) = unat ?r * 2 ^ 30" by (simp add: unat_word_ariths)
  then have "unat (snd (clock_gettime k stamp)) = unat ?r * 2 ^ 30 div 3125000"
    by (simp add: clock_gettime_def unat_div f Let_def)
  moreover have "1000000000 \<le> n * 2 ^ 30 div 3125000 \<longleftrightarrow> 2910384 \<le> n" for n :: nat
    by (subst less_eq_div_iff_mult_less_eq) auto
  ultimately have "1000000000 \<le> snd (clock_gettime k stamp) \<longleftrightarrow> 2910384 \<le> ?r" by (simp add: word_le_nat_alt)
  moreover have "unat (?r * 8) = unat ?r * 8" using r by (simp add: unat_word_ariths)
  then have "unat (snd (get_time_val k stamp)) < 1000000"
    using r by (simp add: get_time_val_def time_stamp_to_usec_def unat_div Let_def)
  ultimately show ?thesis by (simp add: word_less_nat_alt)
qed

section \<open>The way into a call and back\<close>

lemma ld64_st64_apart: "8 \<le> b - a \<Longrightarrow> b - a \<le> - 8 \<Longrightarrow> ld64 (st64 m a v) b = ld64 m b"
proof (rule ld64_cong)
  fix k :: u64
  assume d: "8 \<le> b - a" "b - a \<le> - 8" "k < 8"
  have m8: "unat (- 8 :: u64) = 2 ^ 64 - 8" by simp
  have "unat (b - a) + unat k < 2 ^ 64" using d m8 unfolding word_le_nat_alt word_less_nat_alt by simp
  then have "unat (b + k - a) = unat (b - a) + unat k"
    by (metis add_diff_eq diff_add_eq unat_add_small)
  then have "8 \<le> b + k - a" using d(1) by (simp add: word_le_nat_alt)
  then show "st64 m a v (b + k) = m (b + k)" by (rule st64_other)
qed

lemma st64_st64 [simp]: "st64 (st64 m a v) a w = st64 m a w"
  unfolding st64_def by (rule ext) (simp add: fun_upd_def)

lemma tf_set_set [simp]: "tf_set (tf_set s tf off v) tf off w = tf_set s tf off w"
  by (simp add: tf_set_def set_mem_def on_kern_def)

lemma tf_set_pool [simp]: "k_pool (s_kern (tf_set s tf off v)) = k_pool (s_kern s)"
  by (simp add: tf_set_def set_mem_def)

lemma tf_get_set:
  "8 \<le> off - o' \<Longrightarrow> off - o' \<le> - 8 \<Longrightarrow> tf_get (tf_set s tf o' v) tf off = tf_get s tf off"
  "tf_get (tf_set s tf off v) tf off = v"
  by (simp_all add: tf_get_def tf_set_def set_mem_def ld64_st64_apart)

text \<open>A trap for a system call of a process that was not killed.\<close>

lemma user_trap_call:
  assumes "\<not> pr_killed (k_pool (s_kern s) i)" and tf: "tf = pr_trapframe (k_pool (s_kern s) i)"
    and "tf_get s tf 168 = num" "0 < num" "num < max_syscall_funcs_num"
  shows "user_trap other e rc 8 sepc i s =
    then_run (then_run (invoke_syscaller other e num i (tf_set s tf 24 (sepc + 4))) (\<lambda>v s. Done v (tf_set s tf 112 v)))
      (\<lambda>_. trap_end i 0)"
  using assms by (simp add: user_trap_def trap_syscall_def tf_get_set Let_def)


lemma table_getpid: "syscall_table other e 172 = Some (plain sys_getpid)"
  unfolding syscall_table_def bindings_def by (simp add: sys_numbers)


text \<open>
  C21: a number without a handler stops the machine. The dispatcher panics on it, so that any program can halt the kernel with a
  single instruction; only 0 and the numbers from the size of the table on are refused with a result of -1.
\<close>

theorem unknown_call_panics:
  assumes "\<not> pr_killed (k_pool (s_kern s) i)" and "syscall_table other e num = None"
    and "tf = pr_trapframe (k_pool (s_kern s) i)" and "tf_get s tf 168 = num"
  shows "user_trap other e rc 8 sepc i s =
    (if num = 0 \<or> max_syscall_funcs_num \<le> num then Done 0 (tf_set (tf_set s tf 24 (sepc + 4)) tf 112 (- 1)) else Panics)"
proof (cases "num = 0 \<or> max_syscall_funcs_num \<le> num")
  case True
  then show ?thesis
    using assms by (auto simp: user_trap_def trap_syscall_def tf_get_set then_run.code trap_end_def Let_def)
next
  case False
  then show ?thesis
    using user_trap_call [OF assms(1,3,4)] assms(2) by (simp add: invoke_syscaller_def then_run.code word_gt_0 linorder_not_le)
qed

lemma table_five: "syscall_table other e 5 = None"
  unfolding syscall_table_def bindings_def by (simp add: sys_numbers)

theorem unknown_call_panics_witness:
  "user_trap (\<lambda>_ _. Done (- 1)) demo_env 0 8 0x1000 2 (demo_sys ((demo_kern demo_family)\<lparr>k_mem := st64 (\<lambda>_. 0) 168 5\<rparr>)) = Panics"
  using unknown_call_panics [OF _ table_five refl,
      of "demo_sys ((demo_kern demo_family)\<lparr>k_mem := st64 (\<lambda>_. 0) 168 5\<rparr>)" 2 "\<lambda>_ _. Done (- 1)" demo_env 0 "0x1000"]
  by (simp add: tf_get_def demo_sys_def demo_kern_def demo_family_def idle_pcb_def max_syscall_funcs_num_def)

lemma bindings_range: "\<forall>n \<in> fst ` set (bindings other e). 0 < n \<and> n < max_syscall_funcs_num"
  unfolding bindings_def max_syscall_funcs_num_def by (simp add: sys_numbers)



section \<open>Single calls\<close>

text \<open>
  A caller in slot 2 with its trap frame at 0x4000, the small address space, one open file and the given
  first three arguments.
\<close>

definition demo_regs :: "u64 \<Rightarrow> u64 \<Rightarrow> u64 \<Rightarrow> mem" where
  "demo_regs a0 a1 a2 = st64 (st64 (st64 demo_mem 0x4070 a0) 0x4078 a1) 0x4080 a2"

definition demo_caller :: "u64 \<Rightarrow> u64 \<Rightarrow> u64 \<Rightarrow> sys" where
  "demo_caller a0 a1 a2 =
     demo_sys ((demo_kern (demo_family(2 := (demo_family 2)\<lparr>pr_pt := demo_pt, pr_trapframe := 0x4000, pr_ofile := (\<lambda>_. None)(1 := Some 3)\<rparr>)))
       \<lparr>k_mem := demo_regs a0 a1 a2\<rparr>)"

lemma demo_args:
  "arg_raw (demo_caller a0 a1 a2) 2 0 = Some a0" "arg_raw (demo_caller a0 a1 a2) 2 (Suc 0) = Some a1"
  "arg_raw (demo_caller a0 a1 a2) 2 2 = Some a2"
  by (simp_all add: arg_raw_def get_arg_from_trap_frame_def demo_caller_def demo_sys_def demo_kern_def demo_regs_def ld64_st64)

lemma demo_fd: "arg_fd (demo_caller 1 a1 a2) 2 0 = Some (Some (1, 3))"
proof -
  have "pr_ofile (k_pool (s_kern (demo_caller 1 a1 a2)) 2) 1 = Some 3" by (simp add: demo_caller_def demo_sys_def demo_kern_def)
  then show ?thesis
    by (simp add: arg_fd_def arg_int_def demo_args to_int_def get_open_file_def max_open_files_def signed_take_bit_int_eq_self)
qed

lemma demo_walk:
  assumes "ld64 m 0x1000 = 0x801" "ld64 m 0x2000 = 0xC01" "ld64 m 0x3028 = 0x20000413" "ld64 m 0x3030 = 0x20000C13"
  shows "transfer b m demo_pt 0x90000000 0x5fff 2" and "user_byte b m demo_pt 0x5fff = 0x80001fff"
    and "user_byte b m demo_pt 0x6000 = 0x80003000"
proof -
  have sl: "pud_slot 0x1000 va = 0x1000 \<and> pmd_slot m 0x1000 va = 0x2000 \<and> leaf_slot m 0x1000 va = 0x3000 + 8 * pt_num va \<and>
    path_valid m 0x1000 va" if "pud_num va = 0" "pmd_num va = 0" for va
    using that by (simp add: pud_slot_def pmd_slot_def leaf_slot_def path_valid_def pte_to_pa_def pte_is_valid_def assms)
  note s = sl [OF demo_nums(4,5), unfolded demo_nums(6)] sl [OF demo_nums(7,8), unfolded demo_nums(9)]
  have mp: "user_mapped m demo_pt 0x5fff" "user_mapped m demo_pt 0x6000"
    using s by (simp_all add: user_mapped_def user_leaf_def demo_pt_def pte_is_valid_def pte_is_super_plv_def pte_to_pa_def assms)
  show b: "user_byte b m demo_pt 0x5fff = 0x80001fff" "user_byte b m demo_pt 0x6000 = 0x80003000"
    using s user_byte_mapped [OF _ mp(1)] user_byte_mapped [OF _ mp(2)]
    by (simp_all add: demo_pt_def pte_to_pa_def assms page_round_down_def)
  have w: "walk_outside m demo_pt 0x5fff 0x90000000 2" "walk_outside m demo_pt 0x6000 0x90000000 2"
    using s by (auto simp: walk_outside_def demo_pt_def dest!: less_8_cases)
  show "transfer b m demo_pt 0x90000000 0x5fff 2"
    unfolding transfer_def using mp w b by (auto simp: demo_pt_def dest!: less_2_cases)
qed

text \<open>
  \<^verbatim>\<open>dup2\<close> uses the new descriptor as an index into the open files before anything checks it: for an open old descriptor
  and a new one outside the array the read is out of bounds, and the call does not report a bad descriptor.
\<close>

theorem dup2_index_unchecked:
  assumes "arg_fd s i 0 = Some (Some (old, f))" and "arg_int s i 1 = Some fd" and "fd \<noteq> old"
    and "fd < 0 \<or> int max_open_files \<le> fd"
  shows "sys_dup2 i s = None"
  using assms by (auto simp: sys_dup2_def ofile_at_def)

theorem dup2_index_unchecked_witness: "sys_dup2 2 (demo_caller 1 5000 0) = None"
proof (rule dup2_index_unchecked)
  show "arg_fd (demo_caller 1 5000 0) 2 0 = Some (Some (1, 3))" by (rule demo_fd)
  show "arg_int (demo_caller 1 5000 0) 2 1 = Some 5000" by (simp add: arg_int_def demo_args to_int_def signed_take_bit_int_eq_self)
qed (simp_all add: max_open_files_def)

text \<open>
  C36: asking for a signal's action overwrites it. With no new action the handler passes on its own local object, which was never
  set, so the action of the signal becomes whatever the object's memory held.
\<close>

theorem sigaction_query_overwrites:
  assumes "arg_int s i 0 = Some sig" and "arg_addr s i 1 = Some 0" and "arg_addr s i 2 = Some old"
    and "0 < sig" "sig < SIGRTMAX" "sig \<noteq> SIGKILL" "sig \<noteq> SIGQUIT" and "sys_sigaction e i s = Some (r, t)"
  shows "s_sigacts t i (nat (sig - 1)) =
    peek_act (if old \<noteq> 0 then poke64 s (e_loc e 1) [0, 0, 0] else s) (e_loc e 0)"
  using assms
  by (auto simp: sys_sigaction_def sigAction_def poke_act_def give_out_def user_out_def set_mem_def on_kern_def
      bind_eq_Some_conv Let_def split: if_splits)

theorem sigaction_query_overwrites_witness:
  "\<exists>r t. sys_sigaction demo_env 2 (demo_caller 2 0 0) = Some (r, t) \<and>
     s_sigacts t 2 1 = peek_act (demo_caller 2 0 0) 0x10000 \<and> s_sigacts (demo_caller 2 0 0) 2 1 = \<lparr>sa_handler = 7, sa_flags = 0, sa_mask = 0\<rparr>"
proof -
  let ?s = "demo_caller 2 0 0"
  have a: "arg_int ?s 2 0 = Some 2" "arg_addr ?s 2 1 = Some 0" "arg_addr ?s 2 2 = Some 0"
    by (simp_all add: arg_int_def arg_addr_def demo_args to_int_def signed_take_bit_int_eq_self)
  then obtain r t where "sys_sigaction demo_env 2 ?s = Some (r, t)"
    by (auto simp: sys_sigaction_def sigAction_def SIGRTMAX_def SIGKILL_def SIGQUIT_def Let_def)
  with sigaction_query_overwrites [OF a _ _ _ _ this] show ?thesis
    by (simp add: SIGRTMAX_def SIGKILL_def SIGQUIT_def demo_env_def) (simp add: demo_caller_def demo_sys_def)
qed

section \<open>Writing to a file\<close>

text \<open>\<open>n\<close> bytes written at the file's own position.\<close>

lemma file_write_here:
  assumes nd: "entry_node st x = Some (Some nd)" and a: "u_write (f_attrs x)" "filetype (f_attrs x) = FT_NORMAL"
    and b: "length (fs_data st nd) < 2 ^ 63" "0 \<le> f_ptr x" "0 \<le> n" "nat (f_ptr x) + nat n < 2 ^ 63"
  shows "\<exists>x' st'. file_write st m x src (word_of_int n) (f_ptr x) True = Some (n, x', st') \<and> f_ptr x' = f_ptr x + n \<and>
    fs_data st' nd = overwrite (fs_data st nd) (nat (f_ptr x)) (load_bytes m src (nat n))"
proof -
  have u: "unat (word_of_int z :: u64) = nat z" if "0 \<le> z" "nat z < 2 ^ 63" for z
  proof -
    have "unat (of_nat (nat z) :: u64) = nat z" using that by (intro unat_of_nat_small) simp
    then show ?thesis using that by simp
  qed
  let ?o = "word_of_int (f_ptr x) :: u64" and ?n = "word_of_int n :: u64"
  have uo: "unat ?o = nat (f_ptr x)" and un: "unat ?n = nat n" using b by (simp_all add: u)
  have s: "sint ?n = n" using sint_small [of ?n] b un by simp
  obtain d where w: "Normal_nodeWrite (fs_data st nd) m src ?o ?n = Some (?n, d)"
    and d: "d = overwrite (fs_data st nd) (nat (f_ptr x)) (load_bytes m src (nat n))"
    using ram.wr_bytes [OF b(1), of ?o ?n m src] b(4) unfolding uo un by auto
  have "file_write st m x src ?n (f_ptr x) True = Some (n, x\<lparr>f_ptr := f_ptr x + n, f_size := of_nat (length d)\<rparr>,
    st\<lparr>fs_data := (fs_data st)(nd := d)\<rparr>)"
    using nd a w s b by (simp add: file_write_def Let_def)
  then show ?thesis using d by auto
qed

lemma load_moved:
  assumes "Suc n < 2 ^ 63"
  shows "load_bytes (moved b m pt dst src 0 (of_nat (Suc n)) m) dst n = map (\<lambda>j. m (user_byte b m pt (src + of_nat j))) [0..<n]"
proof -
  have "(of_nat j :: u64) < of_nat (Suc n)" if "j < n" for j
    using that assms unat_of_nat_small [of j] unat_of_nat_small [of "Suc n"]
    by (simp add: word_less_nat_alt del: of_nat_Suc)
  then show ?thesis by (simp add: load_bytes_def moved_def del: of_nat_Suc)
qed

text \<open>
  C8: the \<^verbatim>\<open>write\<close> system call on a regular file, from the registers to the contents. When the descriptor is open for writing
  and the buffer and one byte behind it are mapped user memory, the call returns the count, the file's contents at its position are the bytes
  of user memory, page by page as its page table maps them, and the position moves on by the count. That one
  byte more than the count is read from user memory is what the call does.
\<close>

theorem write_call_stores:
  assumes "arg_fd s i 0 = Some (Some (fd, f))" "arg_addr s i 1 = Some a" "arg_int s i 2 = Some (int n)" "Suc n < 2 ^ 31"
    and x: "fs_files (k_fs (s_kern s)) f = Some x" "f_kind x = NormalFile d" "entry_node (k_fs (s_kern s)) x = Some (Some nd)"
      "u_write (f_attrs x)" "filetype (f_attrs x) = FT_NORMAL" "length (fs_data (k_fs (s_kern s)) nd) < 2 ^ 63"
      "0 \<le> f_ptr x" "nat (f_ptr x) + n < 2 ^ 63"
    and t: "transfer (k_buddy (s_kern s)) (s_mem s) (s_pt s i) (e_new e 0) a (of_nat (Suc n))"
      "\<And>j. j < of_nat (Suc n) \<Longrightarrow> unat (user_byte (k_buddy (s_kern s)) (s_mem s) (s_pt s i) (a + j)) < 2 ^ 63"
      "a \<noteq> 0" "unat a + Suc n < 2 ^ 64"
  shows "\<exists>t x'. sys_write e i s = Done (of_nat n) t \<and> fs_files (k_fs (s_kern t)) f = Some x' \<and> f_ptr x' = f_ptr x + int n \<and>
    fs_data (k_fs (s_kern t)) nd =
      overwrite (fs_data (k_fs (s_kern s)) nd) (nat (f_ptr x))
        (map (\<lambda>j. s_mem s (user_byte (k_buddy (s_kern s)) (s_mem s) (s_pt s i) (a + of_nat j))) [0..<n])"
proof -
  let ?b = "k_buddy (s_kern s)" and ?m = "s_mem s" and ?pt = "s_pt s i" and ?l = "of_nat (Suc n) :: u64"
  have l: "unat ?l = Suc n" using assms(4) by (intro unat_of_nat_small) simp
  then have "0 < ?l" "unat ?l < 2 ^ 63 - 2 ^ 12" using assms(4) by (simp_all add: word_gt_0_no word_less_nat_alt del: of_nat_Suc)
  then obtain us us' where us: "us_open ?b ?m (UserspaceStream a ?l ?pt) = Some us"
    "us_read ?b ?m us (e_new e 0) ?l = Some (us', moved ?b ?m ?pt (e_new e 0) a 0 ?l ?m)"
    using us_read_copy [OF t(1) _ _ t(2,3), of ?l] t(4) l by (auto simp del: of_nat_Suc)
  let ?m' = "moved ?b ?m ?pt (e_new e 0) a 0 ?l ?m"
  define M where "M = ?m'"
  have in': "stream_in s i (e_new e 0) a (word_of_int (int n + 1)) = Some (set_mem s M)"
    using us unfolding M_def by (simp add: stream_in_def add.commute)
  obtain x' st' where w: "file_write (k_fs (s_kern s)) M x (e_new e 0) (of_nat n) (f_ptr x) True = Some (int n, x', st')"
    "f_ptr x' = f_ptr x + int n"
    "fs_data st' nd = overwrite (fs_data (k_fs (s_kern s)) nd) (nat (f_ptr x)) (load_bytes M (e_new e 0) n)"
    using file_write_here [OF x(3-7), of "int n" M "e_new e 0"] x(8) by auto
  have k: "k_fs (s_kern (set_mem s M)) = k_fs (s_kern s)" "s_mem (set_mem s M) = M" by (simp_all add: set_mem_def)
  have "sys_write e i s = Done (of_nat n) (put_file (set_mem s M) f x' st' M)"
    using assms(1-3) in' x(1,2) w(1)
    by (simp add: sys_write_def attempt_def file_offset_def fwrite_def k Let_def)
  moreover have "load_bytes M (e_new e 0) n = map (\<lambda>j. ?m (user_byte ?b ?m ?pt (a + of_nat j))) [0..<n]"
    unfolding M_def by (rule load_moved) (use assms(4) in simp)
  ultimately show ?thesis using w(2,3) by (simp add: put_file_def set_file_def)
qed

text \<open>One byte at 0x5fff, at position 2 of an empty file.\<close>

theorem write_call_stores_witness:
  "\<exists>t. sys_write demo_env 2 (demo_caller 1 0x5fff 1) = Done 1 t \<and> fs_data (k_fs (s_kern t)) 5 = [0, 0, 0xff]"
proof -
  let ?s = "demo_caller 1 0x5fff 1" and ?m = "demo_regs 1 0x5fff 1"
  have k: "k_fs (s_kern ?s) = demo_fstate" "s_mem ?s = ?m" "s_pt ?s 2 = demo_pt"
    by (simp_all add: demo_caller_def demo_sys_def demo_kern_def s_pt_def)
  have args: "arg_addr ?s 2 1 = Some 0x5fff" "arg_int ?s 2 2 = Some (int 1)"
    by (simp_all add: arg_addr_def arg_int_def demo_args to_int_def signed_take_bit_int_eq_self)
  have "ld64 ?m 0x1000 = 0x801" "ld64 ?m 0x2000 = 0xC01" "ld64 ?m 0x3028 = 0x20000413" "ld64 ?m 0x3030 = 0x20000C13"
    by (simp_all add: demo_regs_def ld64_st64 demo_entries)
  note w = demo_walk [OF this, of "k_buddy (s_kern ?s)"]
  have bytes: "unat (user_byte (k_buddy (s_kern ?s)) ?m demo_pt (0x5fff + j)) < 2 ^ 63" if "j < 2" for j
    using less_2_cases [OF that] w by auto
  have x: "fs_files demo_fstate 3 = Some demo_file" "f_kind demo_file = NormalFile (Some 0)"
    "entry_node demo_fstate demo_file = Some (Some 5)" "u_write (f_attrs demo_file)" "filetype (f_attrs demo_file) = FT_NORMAL"
    "fs_data demo_fstate 5 = []" "f_ptr demo_file = 2"
    by (simp_all add: demo_fstate_def demo_file_def entry_node_def mk_dentry_def u_write_def bit_numeral_rec)
  have "?m 0x80001fff = 0xff"
    by (simp add: demo_regs_def demo_mem_def demo_tables_def st64_other)
  moreover have "overwrite [] 2 [0xff] = [0, 0, 0xff]" by (simp add: overwrite_def numeral_2_eq_2)
  ultimately show ?thesis
    using write_call_stores [OF demo_fd args, of demo_file "Some 0" 5 demo_env] w bytes x unfolding k
    by (auto simp: demo_env_def)
qed

end
