(* ===== verification/Printing.thy ===== *)
theory Printing
  imports Kernel_Prelude
begin

text \<open>
  The kernel printer, \<^verbatim>\<open>kernel/klib/printer.cc\<close> and \<^verbatim>\<open>printer.hh\<close>: number output, the format
  interpreter \<^verbatim>\<open>vbprintf\<close> and the log levels. Text is a \<open>string\<close>; a printer buffer is its
  capacity and what has been put into it; the console is the text written to it. The variable arguments are a list of words and strings. \<open>None\<close> is
  undefined behaviour: an array index out of range, a missing or ill-typed argument, or a
  format read past its end. The output is the one of the build without colours.
\<close>

section \<open>Buffers and digits\<close>

definition printer_buffer_size :: nat where "printer_buffer_size = 4096"

record printer_buffer =
  buf_len :: nat
  content :: string

definition PrinterBuffer :: "nat \<Rightarrow> printer_buffer" where
  "PrinterBuffer len = \<lparr>buf_len = len, content = []\<rparr>"
definition buf_clear :: "printer_buffer \<Rightarrow> printer_buffer" where "buf_clear b = b\<lparr>content := []\<rparr>"
definition buf_put :: "printer_buffer \<Rightarrow> char \<Rightarrow> printer_buffer" where
  "buf_put b c = (if length (content b) < buf_len b then b\<lparr>content := content b @ [c]\<rparr> else b)"
definition go_back_one :: "printer_buffer \<Rightarrow> printer_buffer" where
  "go_back_one b = b\<lparr>content := butlast (content b)\<rparr>"
definition content_length :: "printer_buffer \<Rightarrow> nat" where "content_length b = length (content b)"

fun puts :: "printer_buffer \<Rightarrow> string \<Rightarrow> printer_buffer" where
  "puts b [] = b"
| "puts b (c # cs) = puts (buf_put b c) cs"

definition lower_digits :: string where "lower_digits = ''0123456789abcdef''"
definition upper_digits :: string where "upper_digits = ''0123456789ABCDEF''"

definition divide :: "u64 \<Rightarrow> u64 \<Rightarrow> u64 \<times> u64" where
  "divide n base = (n mod base, n div base)"
definition is_number :: "char \<Rightarrow> bool" where
  "is_number c \<longleftrightarrow> 48 \<le> (of_char c :: nat) \<and> (of_char c :: nat) < 58"
definition to_number :: "char \<Rightarrow> nat" where "to_number c = of_char c - 48"

text \<open>
  The digits of a number from the lowest on, none for 0. The base is at least 2 in every call; for
  a smaller one the loop does not end or divides by zero.
\<close>

function digits_loop :: "string \<Rightarrow> u64 \<Rightarrow> u64 \<Rightarrow> string option" where
  "digits_loop digits base num =
     (if num = 0 then Some []
      else if base < 2 then None
      else case divide num base of (d, q) \<Rightarrow>
        if unat d < length digits then map_option (Cons (digits ! unat d)) (digits_loop digits base q) else None)"
  by pat_completeness auto
termination
  by (relation "measure (\<lambda>(digits, base, num). unat num)")
     (auto simp: divide_def unat_div word_less_nat_alt unat_gt_0 not_less intro!: div_less_dividend)

declare digits_loop.simps [simp del]

section \<open>Direct output\<close>

text \<open>The do-while loop always writes one digit; the buffer has 16 places.\<close>

definition printint :: "u32 \<Rightarrow> int \<Rightarrow> bool \<Rightarrow> string option" where
  "printint xx base sg =
     (let neg = (sg \<and> xx <s 0);
          x = (if neg then - xx else xx);
          ub = ucast (word_of_int base :: u32)
      in do {
        ds \<leftarrow> (if x = 0 then Some [lower_digits ! 0] else digits_loop lower_digits ub (ucast x));
        let buf = ds @ (if neg then ''-'' else []);
        if length buf \<le> 16 then Some (rev buf) else None
      })"

definition printbyte :: "u8 \<Rightarrow> string" where
  "printbyte x =
     (let b0 = lower_digits ! unat (x AND 0xF);
          x = drop_bit 4 x;
          b1 = lower_digits ! unat (x AND 0xF)
      in [b1, b0])"

fun printptr_loop :: "u64 \<Rightarrow> nat \<Rightarrow> string" where
  "printptr_loop x 0 = []"
| "printptr_loop x (Suc n) = lower_digits ! unat (drop_bit 60 x) # printptr_loop (push_bit 4 x) n"

definition printptr :: "u64 \<Rightarrow> string" where
  "printptr x = ''0x'' @ printptr_loop x 16"

section \<open>Formatted numbers\<close>

record print_flag =
  zero_pad :: bool
  sign_flag :: bool
  plus :: bool
  space :: bool
  left :: bool
  prefix_flag :: bool
  upper :: bool
  seperate :: bool

definition sign_of :: "print_flag \<Rightarrow> char \<Rightarrow> u64 \<Rightarrow> char option \<times> u64" where
  "sign_of flag qualifier num =
     (if sign_flag flag then
        let neg = (if qualifier = CHR ''h'' then (ucast num :: 16 word) <s 0
                   else if qualifier = CHR ''L'' \<or> qualifier = CHR ''l'' then num <s 0
                   else (ucast num :: u32) <s 0);
            abs_num = (if qualifier = CHR ''h'' then ucast (ucast (- num) :: 16 word)
                   else if qualifier = CHR ''L'' \<or> qualifier = CHR ''l'' then - num
                   else ucast (ucast (- num) :: u32))
        in if neg then (Some CHR ''-'', abs_num)
           else if plus flag then (Some CHR ''+'', num)
           else if space flag then (Some CHR '' '', num)
           else (None, num)
      else (None, num))"

text \<open>Printing \<^verbatim>\<open>tmp\<close> downwards, its first \<open>n\<close> characters, with separators before every \<open>md\<close>-th digit.\<close>

fun put_tmp :: "printer_buffer \<Rightarrow> bool \<Rightarrow> nat \<Rightarrow> string \<Rightarrow> nat \<Rightarrow> printer_buffer" where
  "put_tmp buf sep md tmp 0 = buf"
| "put_tmp buf sep md tmp (Suc k) =
     (let buf = (if sep \<and> k mod md = md - 1 then buf_put buf CHR ''_'' else buf)
      in put_tmp (buf_put buf (tmp ! k)) sep md tmp k)"

text \<open>
  \<open>tmp\<close> is an array of 64 characters: more digits and padding zeros than that run past its end.
\<close>

definition number_pads :: "print_flag \<Rightarrow> u64 \<Rightarrow> bool \<Rightarrow> int \<Rightarrow> nat \<Rightarrow> int \<times> int" where
  "number_pads flag base has_sign width len =
     (let space_pad = width - int len;
          space_pad = (if prefix_flag flag then
                         if base = 2 \<or> base = 16 then space_pad - 2
                         else if base = 8 then space_pad - 1 else space_pad
                       else space_pad);
          space_pad = (if has_sign then space_pad - 1 else space_pad)
      in if zero_pad flag then (space_pad, 0) else (0, space_pad))"

definition put_number_head :: "printer_buffer \<Rightarrow> print_flag \<Rightarrow> u64 \<Rightarrow> char option \<Rightarrow> int \<Rightarrow> printer_buffer" where
  "put_number_head buf flag base sg space_pad =
     (let buf = (if \<not> left flag then puts buf (replicate (nat space_pad) CHR '' '') else buf);
          buf = (case sg of Some c \<Rightarrow> buf_put buf c | None \<Rightarrow> buf)
      in if prefix_flag flag then
           if base = 2 then puts buf ''0b'' else if base = 8 then puts buf ''0''
           else if base = 16 then puts buf ''0x'' else buf
         else buf)"

definition put_number_body :: "printer_buffer \<Rightarrow> print_flag \<Rightarrow> u64 \<Rightarrow> string \<Rightarrow> printer_buffer" where
  "put_number_body buf flag base tmp =
     (let md = (if base = 10 then 3 else 4); top = length tmp - 1
      in if top mod md = md - 1 then put_tmp (buf_put buf (tmp ! top)) (seperate flag) md tmp top
         else put_tmp buf (seperate flag) md tmp (length tmp))"

definition print_number ::
  "printer_buffer \<Rightarrow> u64 \<Rightarrow> u64 \<Rightarrow> print_flag \<Rightarrow> char \<Rightarrow> int \<Rightarrow> printer_buffer option" where
  "print_number buf num base flag qualifier width =
     (let flag = (if left flag then flag\<lparr>zero_pad := False\<rparr> else flag);
          digits = (if upper flag then upper_digits else lower_digits);
          (sg, num) = sign_of flag qualifier num
      in do {
        tmp \<leftarrow> (if num = 0 then Some ''0'' else digits_loop digits base num);
        let (num_pad, space_pad) = number_pads flag base (sg \<noteq> None) width (length tmp);
        let buf = put_number_head buf flag base sg space_pad;
        let tmp = tmp @ replicate (nat num_pad) CHR ''0'';
        if 64 < length tmp then None
        else do {
          let buf = put_number_body buf flag base tmp;
          Some (if left flag then puts buf (replicate (nat space_pad) CHR '' '') else buf)
        }
      })"

section \<open>The format interpreter\<close>

datatype va_arg = VInt u64 | VStr "string option"

fun va_word :: "va_arg list \<Rightarrow> (u64 \<times> va_arg list) option" where
  "va_word (VInt w # as) = Some (w, as)"
| "va_word _ = None"

fun va_string :: "va_arg list \<Rightarrow> (string option \<times> va_arg list) option" where
  "va_string (VStr s # as) = Some (s, as)"
| "va_string _ = None"

definition no_flags :: print_flag where
  "no_flags = \<lparr>zero_pad = False, sign_flag = False, plus = False, space = False, left = False,
     prefix_flag = False, upper = True, seperate = False\<rparr>"
definition Bfl :: print_flag where "Bfl = no_flags\<lparr>zero_pad := True\<rparr>"

fun collect_flags :: "string \<Rightarrow> print_flag \<Rightarrow> print_flag \<times> string" where
  "collect_flags [] fl = (fl, [])"
| "collect_flags (c # fmt) fl =
     (if c = CHR ''-'' then collect_flags fmt (fl\<lparr>left := True\<rparr>)
      else if c = CHR ''+'' then collect_flags fmt (fl\<lparr>plus := True\<rparr>)
      else if c = CHR '' '' then collect_flags fmt (fl\<lparr>space := True\<rparr>)
      else if c = CHR ''#'' then collect_flags fmt (fl\<lparr>prefix_flag := True\<rparr>)
      else if c = CHR ''0'' then collect_flags fmt (fl\<lparr>zero_pad := True\<rparr>)
      else if c = CHR ''_'' then collect_flags fmt (fl\<lparr>seperate := True\<rparr>)
      else (fl, c # fmt))"

fun collect_number :: "string \<Rightarrow> int \<Rightarrow> int \<times> string" where
  "collect_number [] i = (i, [])"
| "collect_number (c # fmt) i =
     (if is_number c then collect_number fmt (i * 10 + int (to_number c)) else (i, c # fmt))"

definition collect_width ::
  "string \<Rightarrow> print_flag \<Rightarrow> va_arg list \<Rightarrow> (int \<times> print_flag \<times> string \<times> va_arg list) option" where
  "collect_width fmt fl args =
     (case fmt of
        [] \<Rightarrow> Some (- 1, fl, [], args)
      | c # rest \<Rightarrow>
          if is_number c then (case collect_number fmt 0 of (w, fmt) \<Rightarrow> Some (w, fl, fmt, args))
          else if c = CHR ''*'' then do {
            (w, args) \<leftarrow> va_word args;
            let width = sint (ucast w :: u32);
            if width < 0 then Some (- width, fl\<lparr>left := True\<rparr>, rest, args) else Some (width, fl, rest, args)
          }
          else Some (- 1, fl, fmt, args))"

definition collect_qualifier :: "string \<Rightarrow> char \<times> string" where
  "collect_qualifier fmt =
     (case fmt of
        [] \<Rightarrow> (CHR 0x00, [])
      | c # rest \<Rightarrow>
          if c = CHR ''l'' \<or> c = CHR ''L'' \<or> c = CHR ''h'' then
            if c = CHR ''l'' \<and> rest \<noteq> [] \<and> hd rest = CHR ''l'' then (CHR ''L'', tl rest) else (c, rest)
          else (CHR 0x00, fmt))"

definition put_char_conv :: "printer_buffer \<Rightarrow> bool \<Rightarrow> int \<Rightarrow> char \<Rightarrow> printer_buffer" where
  "put_char_conv buf left_al width ch =
     (let (buf, width) = (if \<not> left_al then (puts buf (replicate (nat (width - 1)) CHR '' ''), min width 1)
                          else (buf, width));
          buf = buf_put buf ch
      in puts buf (replicate (nat (width - 1)) CHR '' ''))"

definition put_string_conv :: "printer_buffer \<Rightarrow> bool \<Rightarrow> int \<Rightarrow> string option \<Rightarrow> printer_buffer" where
  "put_string_conv buf left_al width str =
     (let s = (case str of None \<Rightarrow> ''(NULL)'' | Some s \<Rightarrow> s);
          str_len = int (length s);
          str_len = (if width > 0 then if str_len > width then width else str_len else str_len);
          (buf, width) = (if left_al then (puts buf (replicate (nat (width - str_len)) CHR '' ''), min width str_len)
                          else (buf, width));
          buf = puts buf (take (nat str_len) s)
      in puts buf (replicate (nat (width - str_len)) CHR '' ''))"

text \<open>The value a number conversion takes from the arguments.\<close>

definition number_arg :: "print_flag \<Rightarrow> char \<Rightarrow> u64 \<Rightarrow> u64" where
  "number_arg fl qualifier w =
     (if qualifier = CHR ''l'' \<or> qualifier = CHR ''L'' then w
      else if qualifier = CHR ''h'' then
        if sign_flag fl then scast (ucast w :: 16 word) else ucast (ucast w :: 16 word)
      else if qualifier = CHR ''B'' then ucast (ucast w :: u8)
      else ucast (ucast w :: u32))"

definition number_conv ::
  "printer_buffer \<Rightarrow> u64 \<Rightarrow> print_flag \<Rightarrow> char \<Rightarrow> int \<Rightarrow> va_arg list \<Rightarrow> (printer_buffer \<times> va_arg list) option" where
  "number_conv buf base fl qualifier width args =
     do {
       (w, args) \<leftarrow> va_word args;
       buf \<leftarrow> print_number buf (number_arg fl qualifier w) base fl qualifier width;
       Some (buf, args)
     }"

text \<open>
  One conversion, after its flags, width and qualifier. \<open>seen\<close> is the text from the percent sign to
  the conversion character, which an unknown conversion prints; its own character is lost. At
  the end of the format (an incomplete conversion) the code skips the terminator and reads on.
\<close>

definition conversion ::
  "printer_buffer \<Rightarrow> string \<Rightarrow> char \<Rightarrow> print_flag \<Rightarrow> int \<Rightarrow> char \<Rightarrow> va_arg list \<Rightarrow>
   (printer_buffer \<times> va_arg list) option" where
  "conversion buf seen c fl width qualifier args =
     (if c = CHR ''c'' then do {
        (w, args) \<leftarrow> va_word args;
        Some (put_char_conv buf (left fl) width (char_of (unat (ucast w :: u8))), args) }
      else if c = CHR ''s'' then do {
        (s, args) \<leftarrow> va_string args;
        Some (put_string_conv buf (left fl) width s, args) }
      else if c = CHR ''p'' then do {
        let fl = fl\<lparr>prefix_flag := True, zero_pad := True, seperate := True\<rparr>;
        let width = (if width < 0 then 16 else width) + 2;
        (w, args) \<leftarrow> va_word args;
        buf \<leftarrow> print_number buf w 16 fl qualifier width;
        Some (buf, args) }
      else if c = CHR ''%'' then Some (buf_put buf CHR ''%'', args)
      else if c = CHR ''B'' then do {
        (w, args) \<leftarrow> va_word args;
        buf \<leftarrow> print_number buf (ucast (ucast w :: u8)) 16 Bfl CHR ''B'' 2;
        Some (buf, args) }
      else if c = CHR ''b'' then number_conv buf 2 fl qualifier width args
      else if c = CHR ''o'' then number_conv buf 8 fl qualifier width args
      else if c = CHR ''X'' then number_conv buf 16 (fl\<lparr>upper := True\<rparr>) qualifier width args
      else if c = CHR ''x'' then number_conv buf 16 fl qualifier width args
      else if c = CHR ''d'' \<or> c = CHR ''i'' then number_conv buf 10 (fl\<lparr>sign_flag := True\<rparr>) qualifier width args
      else if c = CHR ''u'' then number_conv buf 10 fl qualifier width args
      else Some (puts buf seen, args))"

text \<open>
  Everything of one percent directive: the updated buffer, the rest of the format and of the
  arguments. \<open>fmt\<close> starts behind the percent sign.
\<close>

definition directive ::
  "printer_buffer \<Rightarrow> string \<Rightarrow> va_arg list \<Rightarrow> (printer_buffer \<times> string \<times> va_arg list) option" where
  "directive buf fmt args =
     (case collect_flags fmt no_flags of (fl, fmt1) \<Rightarrow>
        do {
          (width, fl, fmt2, args) \<leftarrow> collect_width fmt1 fl args;
          let (qualifier, fmt3) = collect_qualifier fmt2;
          case fmt3 of
            [] \<Rightarrow> None
          | c # fmt4 \<Rightarrow> do {
              (buf, args) \<leftarrow> conversion buf (CHR ''%'' # take (length fmt - length fmt3) fmt) c fl width qualifier args;
              Some (buf, fmt4, args)
            }
        })"

lemma collect_flags_shorter: "length (snd (collect_flags fmt fl)) \<le> length fmt"
  by (induction fmt fl rule: collect_flags.induct) (auto simp: le_Suc_eq)

lemma collect_number_shorter: "length (snd (collect_number fmt i)) \<le> length fmt"
  by (induction fmt i rule: collect_number.induct) (auto simp: le_Suc_eq)

lemma collect_width_shorter:
  "collect_width fmt fl args = Some (w, fl', fmt', args') \<Longrightarrow> length fmt' \<le> length fmt"
  using collect_number_shorter [of fmt 0]
  by (auto simp: collect_width_def Let_def bind_eq_Some_conv split: list.splits if_splits prod.splits)

lemma collect_qualifier_shorter: "length (snd (collect_qualifier fmt)) \<le> length fmt"
  by (auto simp: collect_qualifier_def split: list.splits)

lemma directive_shorter:
  assumes "directive buf fmt args = Some (buf', fmt', args')"
  shows "length fmt' < length fmt"
proof -
  obtain fl fmt1 where f: "collect_flags fmt no_flags = (fl, fmt1)" by fastforce
  obtain w fl' fmt2 args2 where w: "collect_width fmt1 fl args = Some (w, fl', fmt2, args2)"
    using assms f by (auto simp: directive_def bind_eq_Some_conv)
  obtain q fmt3 where q: "collect_qualifier fmt2 = (q, fmt3)" by fastforce
  have "length fmt' < length fmt3"
    using assms f w q by (auto simp: directive_def bind_eq_Some_conv split: list.splits)
  then show ?thesis
    using collect_flags_shorter [of fmt no_flags] collect_width_shorter [OF w] collect_qualifier_shorter [of fmt2]
    by (simp add: f q)
qed

text \<open>\<open>trace\<close> is the \<^verbatim>\<open>_trace_flag\<close>, which indents continued lines.\<close>

function vbprintf_loop ::
  "bool \<Rightarrow> printer_buffer \<Rightarrow> string \<Rightarrow> va_arg list \<Rightarrow> printer_buffer option" where
  "vbprintf_loop trace buf [] args = Some buf"
| "vbprintf_loop trace buf (c # fmt) args =
     (if c \<noteq> CHR ''%'' then
        vbprintf_loop trace
          (if trace \<and> c = CHR 0x0A then puts buf (CHR 0x0A # CHR 0x09 # ''     '') else buf_put buf c) fmt args
      else case directive buf fmt args of
             None \<Rightarrow> None
           | Some (buf, fmt, args) \<Rightarrow> vbprintf_loop trace buf fmt args)"
  by pat_completeness auto
termination
  by (relation "measure (\<lambda>(trace, buf, fmt, args). length fmt)") (auto dest: directive_shorter)

definition vbprintf ::
  "bool \<Rightarrow> printer_buffer \<Rightarrow> string \<Rightarrow> va_arg list \<Rightarrow> printer_buffer option" where
  "vbprintf trace buf fmt args =
     (if buf_len buf = 0 then Some buf else vbprintf_loop trace buf fmt args)"

section \<open>The printer object and the log levels\<close>

record printer =
  locking :: bool
  panicked :: bool
  trace_flag :: bool
  lock_held :: bool
  console :: string

text \<open>A null format panics; taking the lock twice never returns.\<close>

definition vprintf :: "printer \<Rightarrow> string option \<Rightarrow> va_arg list \<Rightarrow> printer option" where
  "vprintf p fmt args =
     (if locking p \<and> lock_held p then None
      else case fmt of
        None \<Rightarrow> None
      | Some fmt \<Rightarrow> do {
          buf \<leftarrow> vbprintf (trace_flag p) (PrinterBuffer printer_buffer_size) fmt args;
          Some (p\<lparr>console := console p @ content buf\<rparr>)
        })"

definition printf :: "printer \<Rightarrow> string \<Rightarrow> va_arg list \<Rightarrow> printer option" where
  "printf p fmt args = vprintf p (Some fmt) args"

definition newline :: string where "newline = [CHR 0x0A]"
definition lead_in :: string where "lead_in = '' :'' @ newline @ [CHR 0x09] @ ''     ''"

text \<open>File name, line number and message; the file name is itself used as a format.\<close>

definition log_output_info :: "printer \<Rightarrow> string \<Rightarrow> u32 \<Rightarrow> string \<Rightarrow> va_arg list \<Rightarrow> printer option" where
  "log_output_info p f l info ap =
     do {
       p \<leftarrow> printf p f [];
       p \<leftarrow> printf p '' : '' [];
       p \<leftarrow> printf p ''%d'' [VInt (ucast l)];
       p \<leftarrow> printf p lead_in [];
       let p = p\<lparr>trace_flag := True\<rparr>;
       p \<leftarrow> vprintf p (Some info) ap;
       Some (p\<lparr>trace_flag := False\<rparr>)
     }"

definition level_va :: "string \<Rightarrow> printer \<Rightarrow> string \<Rightarrow> u32 \<Rightarrow> string \<Rightarrow> va_arg list \<Rightarrow> printer option" where
  "level_va head p f l info ap =
     do {
       let p = p\<lparr>locking := False\<rparr>;
       p \<leftarrow> printf p head [];
       p \<leftarrow> log_output_info p f l info ap;
       p \<leftarrow> printf p newline [];
       Some (p\<lparr>locking := True\<rparr>)
     }"

definition error_va where "error_va = level_va ''[ error ] => ''"
definition warn_va where "warn_va = level_va ''[ warn ]  => ''"
definition info_va where "info_va = level_va ''[ info ]  => ''"
definition trace_va where "trace_va = level_va ''[ trace ] => ''"

fun print_frames :: "printer \<Rightarrow> nat \<Rightarrow> (u64 \<times> u64) list \<Rightarrow> printer option" where
  "print_frames p i [] = Some p"
| "print_frames p i ((fp, ra) # fs) =
     do {
       p \<leftarrow> printf p (''[%d] :  %p  %p'' @ newline) [VInt (of_nat i), VInt fp, VInt ra];
       print_frames p (Suc i) fs
     }"

text \<open>
  \<^verbatim>\<open>panic_va\<close> does not return: the result is the printer's state when the final endless loop is
  entered. \<open>frames\<close> are the frames the back trace finds.
\<close>

definition panic_va ::
  "(u64 \<times> u64) list \<Rightarrow> printer \<Rightarrow> string \<Rightarrow> u32 \<Rightarrow> string \<Rightarrow> va_arg list \<Rightarrow> printer option" where
  "panic_va frames p f l info ap =
     do {
       let p = p\<lparr>locking := False\<rparr>;
       p \<leftarrow> printf p ''[ panic ] => '' [];
       p \<leftarrow> printf p f [];
       p \<leftarrow> printf p '' : '' [];
       p \<leftarrow> printf p ''%d'' [VInt (ucast l)];
       p \<leftarrow> printf p lead_in [];
       let p = p\<lparr>trace_flag := True\<rparr>;
       p \<leftarrow> vprintf p (Some info) ap;
       p \<leftarrow> printf p (newline @ [CHR 0x1B] @ ''[7mback-trace    fp    ra'' @ newline) [];
       p \<leftarrow> print_frames p 0 frames;
       let p = p\<lparr>trace_flag := False\<rparr>;
       p \<leftarrow> printf p newline [];
       Some (p\<lparr>panicked := True\<rparr>)
     }"

definition assrt_va ::
  "(u64 \<times> u64) list \<Rightarrow> printer \<Rightarrow> string \<Rightarrow> u32 \<Rightarrow> string \<Rightarrow> string \<Rightarrow> va_arg list \<Rightarrow> printer option" where
  "assrt_va frames p f l expr detail ap =
     do {
       let p = p\<lparr>locking := False\<rparr>;
       p \<leftarrow> printf p ''[ assert ]=> '' [];
       p \<leftarrow> printf p f [];
       p \<leftarrow> printf p '' : '' [];
       p \<leftarrow> printf p ''%d'' [VInt (ucast l)];
       p \<leftarrow> printf p lead_in [];
       let p = p\<lparr>trace_flag := True\<rparr>;
       p \<leftarrow> printf p (''assert fail for '' @ [CHR 0x27]) [];
       p \<leftarrow> printf p expr [];
       p \<leftarrow> printf p ([CHR 0x27] @ newline @ ''[detail] '') [];
       p \<leftarrow> vprintf p (Some detail) ap;
       let p = p\<lparr>trace_flag := False\<rparr>;
       p \<leftarrow> printf p newline [];
       panic_va frames (p\<lparr>locking := True\<rparr>) f l ''assert fail for above reason.'' []
     }"

datatype output_level = out_trace | out_info | out_warn | out_error | out_panic

definition log_out_va ::
  "(u64 \<times> u64) list \<Rightarrow> printer \<Rightarrow> output_level \<Rightarrow> string \<Rightarrow> u32 \<Rightarrow> string \<Rightarrow> va_arg list \<Rightarrow> printer option" where
  "log_out_va frames p level f l info ap =
     (case level of
        out_trace \<Rightarrow> trace_va p f l info ap
      | out_info \<Rightarrow> info_va p f l info ap
      | out_warn \<Rightarrow> warn_va p f l info ap
      | out_error \<Rightarrow> error_va p f l info ap
      | out_panic \<Rightarrow> panic_va frames p f l info ap)"

datatype hsai_level = log_trace | log_info | log_warn | log_error | log_panic

definition level_log_out ::
  "(u64 \<times> u64) list \<Rightarrow> printer \<Rightarrow> hsai_level \<Rightarrow> string \<Rightarrow> u32 \<Rightarrow> string \<Rightarrow> va_arg list \<Rightarrow> printer option" where
  "level_log_out frames p level fn ln info ap =
     (case level of
        log_trace \<Rightarrow> log_out_va frames p out_trace fn ln info ap
      | log_info \<Rightarrow> log_out_va frames p out_info fn ln info ap
      | log_warn \<Rightarrow> log_out_va frames p out_warn fn ln info ap
      | log_error \<Rightarrow> log_out_va frames p out_error fn ln info ap
      | log_panic \<Rightarrow> log_out_va frames p out_panic fn ln info ap)"

section \<open>Buffers\<close>

lemma puts_facts:
  "content (puts b s) = content b @ take (buf_len b - length (content b)) s \<and> buf_len (puts b s) = buf_len b"
proof (induction s arbitrary: b)
  case Nil
  then show ?case by simp
next
  case (Cons c cs)
  show ?case
  proof (cases "length (content b) < buf_len b")
    case True
    then obtain d where d: "buf_len b - length (content b) = Suc d" by (metis Suc_diff_Suc)
    then have "buf_len b - Suc (length (content b)) = d" by simp
    with d show ?thesis using Cons.IH [of "buf_put b c"] True by (simp add: buf_put_def)
  qed (use Cons.IH [of "buf_put b c"] in \<open>simp add: buf_put_def\<close>)
qed

lemmas puts_content = puts_facts [THEN conjunct1] and puts_len = puts_facts [THEN conjunct2]

lemma puts_append: "puts b (s @ t) = puts (puts b s) t"
  by (induction s arbitrary: b) simp_all

lemma buf_put_puts: "buf_put b c = puts b [c]" by simp

section \<open>Digits\<close>

definition digit_val :: "string \<Rightarrow> char \<Rightarrow> nat" where
  "digit_val digits c = length (takeWhile (\<lambda>x. x \<noteq> c) digits)"

definition read_number :: "string \<Rightarrow> nat \<Rightarrow> string \<Rightarrow> nat" where
  "read_number digits base s = foldl (\<lambda>acc c. acc * base + digit_val digits c) 0 s"

lemma digit_val_nth: "distinct ds \<Longrightarrow> i < length ds \<Longrightarrow> digit_val ds (ds ! i) = i"
proof (induction ds arbitrary: i)
  case (Cons d ds)
  then show ?case by (cases i) (auto simp: digit_val_def)
qed simp

lemma digit_tables: "distinct lower_digits" "distinct upper_digits" "length lower_digits = 16" "length upper_digits = 16"
  by (simp_all add: lower_digits_def upper_digits_def)

lemma digits_loop_correct:
  assumes "distinct digits" "unat base \<le> length digits" "2 \<le> unat base"
  shows "\<exists>ds. digits_loop digits base num = Some ds \<and> read_number digits (unat base) (rev ds) = unat num \<and>
    (\<forall>k. unat num < 2 ^ k \<longrightarrow> length ds \<le> k) \<and> (num \<noteq> 0 \<longrightarrow> ds \<noteq> [])"
proof (induction "unat num" arbitrary: num rule: less_induct)
  case less
  show ?case
  proof (cases "num = 0")
    case True
    then show ?thesis by (subst digits_loop.simps) (auto simp: read_number_def)
  next
    case False
    have q: "unat (num div base) = unat num div unat base" "unat (num mod base) = unat num mod unat base"
      by (simp_all add: unat_div unat_mod)
    have "unat (num div base) < unat num"
      using False assms(3) q(1) by (simp add: unat_gt_0 div_less_dividend)
    from less [OF this] obtain ds where ds: "digits_loop digits base (num div base) = Some ds"
      "read_number digits (unat base) (rev ds) = unat num div unat base"
      "\<forall>k. unat num div unat base < 2 ^ k \<longrightarrow> length ds \<le> k"
      using q(1) by auto
    have d: "unat num mod unat base < length digits" using assms(2,3)
      by (meson less_le_trans mod_less_divisor zero_less_numeral)
    have b2: "\<not> base < 2" using assms(3) by (simp add: word_less_nat_alt)
    have run: "digits_loop digits base num = Some (digits ! (unat num mod unat base) # ds)"
      using False b2 d q ds(1) by (subst digits_loop.simps) (simp add: divide_def)
    have "read_number digits (unat base) (rev (digits ! (unat num mod unat base) # ds)) = unat num"
      using ds(2) digit_val_nth [OF assms(1) d] by (simp add: read_number_def)
    moreover have "Suc (length ds) \<le> k" if "unat num < 2 ^ k" for k
    proof (cases k)
      case 0
      with that False show ?thesis by (simp add: unat_eq_zero)
    next
      case (Suc j)
      have "unat num div unat base \<le> unat num div 2" using assms(3) by (simp add: div_le_mono2)
      also have "\<dots> < 2 ^ j" using that Suc by (simp add: less_mult_imp_div_less mult.commute)
      finally show ?thesis using ds(3) Suc by simp
    qed
    ultimately show ?thesis using run by simp
  qed
qed

lemma put_tmp_plain: "n \<le> length tmp \<Longrightarrow> put_tmp buf False md tmp n = puts buf (rev (take n tmp))"
  by (induction n arbitrary: buf) (simp_all add: take_Suc_conv_app_nth)

text \<open>Without separators, prefix and sign: padding, then the digits.\<close>

lemma put_number_body_plain:
  "\<not> seperate fl \<Longrightarrow> tmp \<noteq> [] \<Longrightarrow> put_number_body buf fl base tmp = puts buf (rev tmp)"
  by (cases tmp rule: rev_cases) (simp_all add: put_number_body_def Let_def put_tmp_plain puts_append nth_append)

lemma print_number_plain:
  assumes "\<not> sign_flag fl" "\<not> prefix_flag fl" "\<not> seperate fl" "\<not> left fl" "\<not> zero_pad fl"
    and tmp: "(if num = 0 then Some ''0'' else digits_loop (if upper fl then upper_digits else lower_digits) base num) = Some tmp"
    and len: "length tmp \<le> 64" "tmp \<noteq> []"
  shows "print_number buf num base fl q w =
    Some (puts buf (replicate (nat (w - int (length tmp))) CHR '' '' @ rev tmp))"
  using assms put_number_body_plain [OF assms(3) len(2)]
  by (simp add: print_number_def sign_of_def Let_def number_pads_def put_number_head_def puts_append)

section \<open>Nothing is written past the buffer\<close>

definition extends :: "printer_buffer \<Rightarrow> printer_buffer \<Rightarrow> bool" where
  "extends b b' \<longleftrightarrow> buf_len b' = buf_len b \<and> (\<exists>s. content b' = content b @ s) \<and>
     (length (content b) \<le> buf_len b \<longrightarrow> length (content b') \<le> buf_len b)"

lemma extends_refl [simp]: "extends b b" by (simp add: extends_def)

lemma extends_trans [trans]: "extends a b \<Longrightarrow> extends b c \<Longrightarrow> extends a c"
  by (auto simp: extends_def)

lemma extends_puts: "extends a b \<Longrightarrow> extends a (puts b s)"
proof -
  have "extends b (puts b s)" by (auto simp: extends_def puts_content puts_len)
  then show "extends a b \<Longrightarrow> extends a (puts b s)" by (meson extends_trans)
qed

lemma extends_put: "extends a b \<Longrightarrow> extends a (buf_put b c)"
  unfolding buf_put_puts by (rule extends_puts)

lemma extends_put_tmp: "extends a b \<Longrightarrow> extends a (put_tmp b sep md tmp n)"
  by (induction n arbitrary: b) (simp_all add: Let_def extends_put)

lemmas extends_intros = extends_puts extends_put extends_put_tmp

lemma extends_head: "extends a b \<Longrightarrow> extends a (put_number_head b fl base sg sp)"
  unfolding put_number_head_def Let_def by (simp add: extends_intros del: puts.simps split: option.split)

lemma extends_body: "extends a b \<Longrightarrow> extends a (put_number_body b fl base tmp)"
  by (simp add: put_number_body_def Let_def extends_intros)

lemma extends_print_number: "print_number b num base fl q w = Some b' \<Longrightarrow> extends b b'"
  by (auto simp: print_number_def Let_def bind_eq_Some_conv case_prod_beta
      intro!: extends_puts extends_body extends_head split: if_splits)

lemma extends_char_conv: "extends b (put_char_conv b l w ch)"
  by (simp add: put_char_conv_def Let_def extends_intros split: if_split)

lemma extends_string_conv: "extends b (put_string_conv b l w s)"
  by (simp add: put_string_conv_def Let_def extends_intros split: if_split)

lemma extends_number_conv: "number_conv b base fl q w args = Some (b', args') \<Longrightarrow> extends b b'"
  by (auto simp: number_conv_def bind_eq_Some_conv dest: extends_print_number)

lemma if_SomeE: "(if P then x else y) = Some r \<Longrightarrow> (x = Some r \<Longrightarrow> Q) \<Longrightarrow> (y = Some r \<Longrightarrow> Q) \<Longrightarrow> Q"
  by (simp split: if_splits)

lemma extends_conversion: "conversion b seen c fl w q args = Some (b', args') \<Longrightarrow> extends b b'"
  unfolding conversion_def Let_def
  by (elim if_SomeE) (auto simp: bind_eq_Some_conv
      intro: extends_char_conv extends_string_conv extends_put extends_puts dest: extends_number_conv extends_print_number)

lemma extends_directive:
  assumes "directive b fmt args = Some (b', fmt', args')"
  shows "extends b b'"
proof -
  obtain fl fmt1 where f: "collect_flags fmt no_flags = (fl, fmt1)" by fastforce
  obtain w fl' fmt2 args2 where w: "collect_width fmt1 fl args = Some (w, fl', fmt2, args2)"
    using assms f by (auto simp: directive_def bind_eq_Some_conv)
  obtain q fmt3 where q: "collect_qualifier fmt2 = (q, fmt3)" by fastforce
  show ?thesis
    using assms f w q by (auto simp: directive_def bind_eq_Some_conv split: list.splits dest: extends_conversion)
qed

lemma extends_vbprintf_loop: "vbprintf_loop tr b fmt args = Some b' \<Longrightarrow> extends b b'"
proof (induction tr b fmt args rule: vbprintf_loop.induct)
  case (1 trace buf args)
  then show ?case by simp
next
  case (2 trace buf c fmt args)
  show ?case
  proof (cases "c = CHR ''%''")
    case True
    then obtain b1 f1 a1 where d: "directive buf fmt args = Some (b1, f1, a1)"
      using 2(3) by (auto split: option.splits)
    then show ?thesis using 2(2) [OF _ d refl refl] 2(3) True extends_directive [OF d] extends_trans by fastforce
  next
    case False
    then have "extends (if trace \<and> c = CHR 0x0A then puts buf (CHR 0x0A # CHR 0x09 # ''     '') else buf_put buf c) b'"
      using 2 by simp
    moreover have "extends buf (if trace \<and> c = CHR 0x0A then puts buf (CHR 0x0A # CHR 0x09 # ''     '') else buf_put buf c)"
      by (simp add: extends_intros del: puts.simps)
    ultimately show ?thesis by (meson extends_trans)
  qed
qed

section \<open>Properties\<close>

text \<open>
  C23: numbers print so that they can be read back. For the bases 2 to 16, without flags and without a
  width, \<^verbatim>\<open>print_number\<close> succeeds for every 64-bit number and appends exactly a digit string
  of at most 64 characters whose value in that base is the number.
\<close>

theorem print_number_roundtrip:
  assumes "2 \<le> unat base" "unat base \<le> 16" and "w \<le> 0" and "content buf = []" and "64 \<le> buf_len buf"
  shows "\<exists>buf'. print_number buf num base no_flags q w = Some buf' \<and>
    read_number upper_digits (unat base) (content buf') = unat num \<and> length (content buf') \<le> 64"
proof -
  obtain ds where ds: "digits_loop upper_digits base num = Some ds"
    "read_number upper_digits (unat base) (rev ds) = unat num" "length ds \<le> 64" "num \<noteq> 0 \<longrightarrow> ds \<noteq> []"
    using digits_loop_correct [of upper_digits base num] assms(1,2) digit_tables unat_less_2p [of num] by auto
  define tmp where "tmp = (if num = 0 then ''0'' else ds)"
  have "print_number buf num base no_flags q w =
      Some (puts buf (replicate (nat (w - int (length tmp))) CHR '' '' @ rev tmp))"
    using ds by (intro print_number_plain) (auto simp: no_flags_def tmp_def)
  moreover have "read_number upper_digits (unat base) (rev tmp) = unat num"
    using ds(2) by (auto simp: tmp_def read_number_def digit_val_def upper_digits_def)
  ultimately show ?thesis using assms(3-5) ds(3) by (auto simp: puts_content tmp_def)
qed

theorem print_number_roundtrip_witness:
  "\<exists>buf'. print_number (PrinterBuffer 4096) 0xCAFE 16 no_flags CHR ''l'' (- 1) = Some buf' \<and>
    read_number upper_digits 16 (content buf') = 0xCAFE \<and> length (content buf') \<le> 64"
  using print_number_roundtrip [of 16 "- 1" "PrinterBuffer 4096" "0xCAFE" "CHR ''l''"]
  by (simp add: PrinterBuffer_def)



text \<open>
  the width of a string conversion works the wrong way round: with the left-align flag the blanks
  come before the string, without it behind the string.
\<close>

theorem string_width_reversed:
  assumes "length s \<le> w" and "0 < w" and "length (content buf) + w \<le> buf_len buf"
  shows "content (put_string_conv buf True (int w) (Some s)) =
      content buf @ replicate (w - length s) CHR '' '' @ s \<and>
    content (put_string_conv buf False (int w) (Some s)) =
      content buf @ s @ replicate (w - length s) CHR '' ''"
  using assms by (simp add: put_string_conv_def puts_content puts_len nat_diff_distrib)

theorem string_width_reversed_witness:
  "content (put_string_conv (PrinterBuffer 64) True 4 (Some ''ab'')) = ''  ab'' \<and>
   content (put_string_conv (PrinterBuffer 64) False 4 (Some ''ab'')) = ''ab  ''"
  using string_width_reversed [of "''ab''" 4 "PrinterBuffer 64"] by (simp add: PrinterBuffer_def numeral_2_eq_2)

text \<open>
  a zero-padded number wider than 64 places overruns the 64-character array of
  \<^verbatim>\<open>print_number\<close>.
\<close>

theorem wide_zero_pad_overruns:
  assumes "64 < w"
  shows "print_number buf 0 16 (no_flags\<lparr>zero_pad := True\<rparr>) q w = None"
  using assms by (simp add: print_number_def no_flags_def sign_of_def number_pads_def Let_def)

theorem wide_zero_pad_overruns_witness:
  "print_number (PrinterBuffer 4096) 0 16 (no_flags\<lparr>zero_pad := True\<rparr>) CHR 0x00 65 = None"
  by (rule wide_zero_pad_overruns) simp

end
