(* ===== verification/Buddy_Tiling.thy ===== *)
theory Buddy_Tiling
  imports Buddy_Correct
begin

text \<open>
  Blocks that tile the managed range of the buddy allocator: blocks aligned to their size inside an area
  are nested or disjoint, the buddy of a block is the other half of a block of the next order, and
  a set of blocks that tiles every area keeps doing so when two halves are joined or a
  block is split.
\<close>

section \<open>Aligned blocks\<close>

definition blk_exp :: "nat \<Rightarrow> nat" where "blk_exp k = 12 + k"

lemma blk_size_exp: "blk_size k = 2 ^ blk_exp k" by (simp add: blk_size_def blk_exp_def power_add)

lemma blk_size_dvd: "j \<le> k \<Longrightarrow> blk_size j dvd blk_size k"
  by (simp add: blk_size_exp blk_exp_def le_imp_power_dvd)

lemma blk_size_pos [simp]: "0 < blk_size k" "blk_size k \<noteq> 0" by (simp_all add: blk_size_def)

text \<open>A block of order \<open>k\<close> inside the area of order \<open>n\<close> that starts at \<open>a\<close>, aligned relative to it.\<close>

definition aligned_in :: "u64 \<Rightarrow> nat \<Rightarrow> u64 \<Rightarrow> nat \<Rightarrow> bool" where
  "aligned_in a n p k \<longleftrightarrow> unat a \<le> unat p \<and> unat p + blk_size k \<le> unat a + blk_size n \<and>
     blk_size k dvd unat p - unat a"

text \<open>Two aligned blocks of one area, the second not smaller, are disjoint or nested.\<close>

lemma multiples_nested:
  assumes "(s::nat) dvd t" "s dvd x" "t dvd y" "y < x + s" "x < y + t"
  shows "y \<le> x \<and> x + s \<le> y + t"
proof -
  have "0 < s" using assms(1,2,4) by (metis add.right_neutral assms(3) dvd_0_left_iff dvd_trans gr0I less_irrefl)
  obtain u where t: "t = s * u" using assms(1) by (elim dvdE)
  obtain c where x: "x = s * c" using assms(2) by (elim dvdE)
  obtain d where "y = t * d" using assms(3) by (elim dvdE)
  then have y: "y = s * u * d" using t by simp
  have "s * (u * d) < s * (c + 1)" using assms(4) x y by (simp add: algebra_simps)
  then have "u * d < c + 1" using \<open>0 < s\<close> by (simp only: mult_less_cancel1)
  then have 1: "u * d \<le> c" by simp
  have "s * c < s * (u * d + u)" using assms(5) x y t by (simp add: algebra_simps)
  then have "c < u * d + u" using \<open>0 < s\<close> by (simp only: mult_less_cancel1)
  then have 2: "c + 1 \<le> u * d + u" by simp
  have "s * (u * d) \<le> s * c" "s * (c + 1) \<le> s * (u * d + u)" using 1 2 mult_le_mono2 by blast+
  then show ?thesis using x y t by (simp add: algebra_simps)
qed

lemma aligned_nested:
  assumes p: "aligned_in a n p j" and q: "aligned_in a n q k" and "j \<le> k" and o: "\<not> blk_disj p j q k"
  shows "unat q \<le> unat p \<and> unat p + blk_size j \<le> unat q + blk_size k"
proof -
  have "unat q - unat a < unat p - unat a + blk_size j" "unat p - unat a < unat q - unat a + blk_size k"
    using p q o unfolding aligned_in_def blk_disj_def by linarith+
  from multiples_nested [OF blk_size_dvd [OF assms(3)] _ _ this]
  have "unat q - unat a \<le> unat p - unat a \<and> unat p - unat a + blk_size j \<le> unat q - unat a + blk_size k"
    using p q unfolding aligned_in_def by blast
  then show ?thesis using p q unfolding aligned_in_def by linarith
qed

lemma aligned_same_order:
  assumes "aligned_in a n p k" "aligned_in a n q k" "\<not> blk_disj p k q k"
  shows "p = q"
  using aligned_nested [OF assms(1,2) _ assms(3)] aligned_nested [OF assms(2,1)] assms(3)
  by (auto simp: word_unat_eq_iff blk_disj_def)

section \<open>The buddy of a block\<close>

definition buddy_of :: "u64 \<Rightarrow> u64 \<Rightarrow> nat \<Rightarrow> u64" where
  "buddy_of a p k = ((p - a) XOR push_bit k page_size) + a"

lemma nat_xor_exp: "(x::nat) XOR 2 ^ e = (if bit x e then x - 2 ^ e else x + 2 ^ e)"
proof -
  have plus: "y XOR 2 ^ e = y + 2 ^ e" if "\<not> bit y e" for y :: nat
  proof -
    have "y XOR 2 ^ e = flip_bit e y" by (simp add: flip_bit_eq_xor push_bit_eq_mult)
    then show ?thesis using that by (simp add: flip_bit_eq_if set_bit_eq)
  qed
  show ?thesis
  proof (cases "bit x e")
    case True
    let ?y = "x XOR 2 ^ e"
    have "\<not> bit ?y e" using True by (simp add: bit_xor_iff bit_exp_iff)
    from plus [OF this] have "x = ?y + 2 ^ e" by (simp add: xor.assoc)
    then show ?thesis using True by simp
  qed (simp add: plus)
qed

lemma unat_buddy_of:
  assumes al: "aligned_in a n p k" and k: "k < n" "n \<le> 32" and w: "unat a + blk_size n < 2 ^ 64"
  defines "r \<equiv> unat p - unat a"
  shows "unat (buddy_of a p k) = (if bit r (blk_exp k) then unat p - blk_size k else unat p + blk_size k)"
    "aligned_in a n (buddy_of a p k) k" "bit r (blk_exp k) \<Longrightarrow> blk_size k \<le> r"
    "\<not> bit r (blk_exp k) \<Longrightarrow> blk_size (Suc k) dvd r" "bit r (blk_exp k) \<Longrightarrow> blk_size (Suc k) dvd r - blk_size k"
proof -
  have ap: "unat a \<le> unat p" and up: "r + blk_size k \<le> blk_size n" and dv: "blk_size k dvd r"
    using al by (auto simp: aligned_in_def r_def)
  have ur: "unat (p - a) = r" using ap by (simp add: unat_sub_if' r_def)
  obtain c where c: "r = blk_size k * c" using dv by (elim dvdE)
  have od: "bit r (blk_exp k) \<longleftrightarrow> odd c" unfolding c blk_size_exp bit_iff_odd by simp
  show ge: "blk_size k \<le> r" if "bit r (blk_exp k)" using that od c by (cases c) auto
  obtain d where n: "blk_size n = blk_size (Suc k) * d" using blk_size_dvd [of "Suc k" n] k by (auto elim: dvdE)
  show ev: "blk_size (Suc k) dvd r" if nb: "\<not> bit r (blk_exp k)" 
  proof -
    obtain e where "c = 2 * e" using nb od by (auto elim: evenE)
    then have "r = blk_size (Suc k) * e" using c by (simp add: blk_size_Suc algebra_simps)
    then show ?thesis by simp
  qed
  show "blk_size (Suc k) dvd r - blk_size k" if nb: "bit r (blk_exp k)"
  proof -
    obtain e where "c = 2 * e + 1" using nb od by (auto elim: oddE)
    then have "r - blk_size k = blk_size (Suc k) * e" using c by (simp add: blk_size_Suc algebra_simps)
    then show ?thesis by simp
  qed
  have fit: "r + blk_size k + blk_size k \<le> blk_size n" if nb: "\<not> bit r (blk_exp k)"
  proof -
    obtain c' where "r = blk_size (Suc k) * c'" using ev [OF nb] by (elim dvdE)
    moreover have "r < blk_size n" using up blk_size_pos(1) [of k] by linarith
    ultimately have "c' + 1 \<le> d" using n by simp
    then have "blk_size (Suc k) * (c' + 1) \<le> blk_size (Suc k) * d" by (rule mult_le_mono2)
    then show ?thesis using n \<open>r = blk_size (Suc k) * c'\<close> by (simp add: blk_size_Suc algebra_simps)
  qed
  have "unat ((p - a) XOR push_bit k page_size) = r XOR 2 ^ blk_exp k"
    using k by (simp only: unsigned_xor_eq ur unat_blk blk_size_exp less_imp_le order.trans [OF less_imp_le])
  then have x: "unat ((p - a) XOR push_bit k page_size) = (if bit r (blk_exp k) then r - blk_size k else r + blk_size k)"
    by (simp only: nat_xor_exp blk_size_exp)
  have lt: "(if bit r (blk_exp k) then r - blk_size k else r + blk_size k) + unat a < 2 ^ 64" using up w by auto
  have "unat (X + a) = unat X + unat a" if "unat X + unat a < 2 ^ 64" for X using that by (simp add: unat_word_ariths)
  from this [of "(p - a) XOR push_bit k page_size"]
  have "unat (buddy_of a p k) = (if bit r (blk_exp k) then r - blk_size k else r + blk_size k) + unat a"
    unfolding x buddy_of_def using lt by blast
  then show u: "unat (buddy_of a p k) = (if bit r (blk_exp k) then unat p - blk_size k else unat p + blk_size k)"
    using ap ge by (auto simp: r_def)
  show "aligned_in a n (buddy_of a p k) k"
  proof (cases "bit r (blk_exp k)")
    case True
    then have "unat (buddy_of a p k) - unat a = r - blk_size k" unfolding u using ap by (simp add: r_def)
    moreover have "unat (buddy_of a p k) = unat p - blk_size k" using True u by simp
    then have "unat a \<le> unat (buddy_of a p k)" "unat (buddy_of a p k) + blk_size k \<le> unat a + blk_size n"
      using ap ge [OF True] up unfolding r_def by linarith+
    ultimately show ?thesis using dvd_diff_nat [OF dv, of "blk_size k"] unfolding aligned_in_def by simp
  next
    case False
    then have "unat (buddy_of a p k) - unat a = r + blk_size k" unfolding u using ap by (simp add: r_def)
    moreover have "unat (buddy_of a p k) = unat p + blk_size k" using False u by simp
    then have "unat a \<le> unat (buddy_of a p k)" "unat (buddy_of a p k) + blk_size k \<le> unat a + blk_size n"
      using ap fit [OF False] unfolding r_def by linarith+
    ultimately show ?thesis using dv unfolding aligned_in_def by simp
  qed
qed

text \<open>A block and its buddy are the halves of a block of the next order, which starts at the lower of them.\<close>

lemma buddy_pair:
  assumes al: "aligned_in a n p k" and k: "k < n" "n \<le> 32" and w: "unat a + blk_size n < 2 ^ 64"
  defines "q \<equiv> buddy_of a p k" and "c \<equiv> min p (buddy_of a p k)"
  shows "p \<noteq> q" "aligned_in a n c (Suc k)" "p = c \<and> q = upper_half c k \<or> q = c \<and> p = upper_half c k"
    "unat c \<le> unat p" "unat p + blk_size k \<le> unat c + blk_size (Suc k)"
    "unat c \<le> unat q" "unat q + blk_size k \<le> unat c + blk_size (Suc k)"
    "unat c = unat p \<and> unat q = unat p + blk_size k \<or> unat c = unat q \<and> unat p = unat q + blk_size k"
proof -
  note u = unat_buddy_of [OF al k w, folded q_def]
  have ap: "unat a \<le> unat p" using al by (simp add: aligned_in_def)
  have up: "unat (upper_half x k) = unat x + blk_size k" if "unat x + blk_size k < 2 ^ 64" for x
    using that k by (simp add: upper_half_def unat_word_ariths unat_blk del: page_size_def)
  have "p \<noteq> q \<and> aligned_in a n c (Suc k) \<and> (p = c \<and> q = upper_half c k \<or> q = c \<and> p = upper_half c k) \<and>
    unat c \<le> unat p \<and> unat p + blk_size k \<le> unat c + blk_size (Suc k) \<and>
    unat c \<le> unat q \<and> unat q + blk_size k \<le> unat c + blk_size (Suc k) \<and>
    (unat c = unat p \<and> unat q = unat p + blk_size k \<or> unat c = unat q \<and> unat p = unat q + blk_size k)"
  proof (cases "bit (unat p - unat a) (blk_exp k)")
    case True
    have q: "unat q = unat p - blk_size k" "blk_size k \<le> unat p - unat a" using True u(1,3) by simp_all
    have lt: "unat q < unat p" using q blk_size_pos(1) [of k] by linarith
    then have c: "c = q" unfolding c_def q_def [symmetric] min_def word_le_nat_alt by auto
    have "unat q - unat a = unat p - unat a - blk_size k" using q by linarith
    then have "aligned_in a n q (Suc k)" using u(5) [OF True] al q u(2)
      unfolding aligned_in_def blk_size_Suc by auto
    moreover have "unat q + blk_size k < 2 ^ 64" using q ap unat_less_2p [of p] by linarith
    then have "p = upper_half q k" using up q ap by (simp add: word_unat_eq_iff)
    moreover have "p \<noteq> q" using lt by auto
    ultimately show ?thesis using q ap unfolding c blk_size_Suc by auto
  next
    case False
    have q: "unat q = unat p + blk_size k" using False u(1) by simp
    have c: "c = p" using q unfolding c_def q_def [symmetric] min_def word_le_nat_alt by auto
    have "aligned_in a n p (Suc k)" using u(4) [OF False] al q u(2) unfolding aligned_in_def blk_size_Suc by auto
    moreover have "unat p + blk_size k < 2 ^ 64" using q unat_less_2p [of q] by linarith
    then have "q = upper_half p k" using up q by (simp add: word_unat_eq_iff)
    moreover have "unat p < unat q" using q blk_size_pos(1) [of k] by linarith
    then have "p \<noteq> q" by auto
    ultimately show ?thesis using q unfolding c blk_size_Suc by auto
  qed
  then show "p \<noteq> q" "aligned_in a n c (Suc k)" "p = c \<and> q = upper_half c k \<or> q = c \<and> p = upper_half c k"
    "unat c \<le> unat p" "unat p + blk_size k \<le> unat c + blk_size (Suc k)"
    "unat c \<le> unat q" "unat q + blk_size k \<le> unat c + blk_size (Suc k)"
    "unat c = unat p \<and> unat q = unat p + blk_size k \<or> unat c = unat q \<and> unat p = unat q + blk_size k" by blast+
qed

section \<open>Tiling\<close>

type_synonym blocks = "(u64 \<times> nat) set"

definition areas :: "buddy \<Rightarrow> blocks" where
  "areas b = {(a, n). n \<le> 32 \<and> (a, push_bit n page_size) \<in> set (area_desc b)}"

definition areas_ok :: "buddy \<Rightarrow> bool" where
  "areas_ok b \<longleftrightarrow>
     (\<forall>e \<in> set (area_desc b). \<exists>n \<le> nat (buddy_max_order b). snd e = push_bit n page_size \<and> blk_in b (fst e) n) \<and>
     (\<forall>x \<in> areas b. \<forall>y \<in> areas b. x \<noteq> y \<longrightarrow> blk_disj (fst x) (snd x) (fst y) (snd y))"

definition page_in :: "buddy \<Rightarrow> u64 \<Rightarrow> bool" where
  "page_in b x \<longleftrightarrow> unat x mod 4096 = 0 \<and> ram_lo b \<le> unat x \<and> unat x < ram_hi b"

definition in_blk :: "u64 \<Rightarrow> u64 \<Rightarrow> nat \<Rightarrow> bool" where
  "in_blk x p k \<longleftrightarrow> unat p \<le> unat x \<and> unat x < unat p + blk_size k"

definition tiled :: "buddy \<Rightarrow> blocks \<Rightarrow> bool" where
  "tiled b B \<longleftrightarrow>
     (\<forall>(p, k) \<in> B. \<exists>(a, n) \<in> areas b. k \<le> n \<and> aligned_in a n p k) \<and>
     (\<forall>x \<in> B. \<forall>y \<in> B. x \<noteq> y \<longrightarrow> blk_disj (fst x) (snd x) (fst y) (snd y)) \<and>
     (\<forall>x. page_in b x \<longrightarrow> (\<exists>(p, k) \<in> B. in_blk x p k))"

lemma tiledD:
  assumes "tiled b B"
  shows "(p, k) \<in> B \<Longrightarrow> \<exists>a n. (a, n) \<in> areas b \<and> k \<le> n \<and> aligned_in a n p k"
    "(p, j) \<in> B \<Longrightarrow> (q, k) \<in> B \<Longrightarrow> (p, j) \<noteq> (q, k) \<Longrightarrow> blk_disj p j q k"
    "page_in b x \<Longrightarrow> \<exists>p k. (p, k) \<in> B \<and> in_blk x p k"
  using assms unfolding tiled_def by fastforce+

lemma blk_order_inj: "j \<le> 32 \<Longrightarrow> k \<le> 32 \<Longrightarrow> (push_bit j page_size :: u64) = push_bit k page_size \<longleftrightarrow> j = k"
  using unat_blk [of j] unat_blk [of k] blk_size_inj [of j k] by (metis word_unat_eq_iff)

lemma areas_blk:
  assumes g: "geometry b" and ok: "areas_ok b" and x: "(a, n) \<in> areas b"
  shows "n \<le> nat (buddy_max_order b)" "n \<le> 32" "blk_in b a n" "unat a + blk_size n < 2 ^ 64"
proof -
  have x': "(a, push_bit n page_size) \<in> set (area_desc b)" "n \<le> 32" using x by (auto simp: areas_def)
  obtain n' where n': "n' \<le> nat (buddy_max_order b)" "(push_bit n page_size :: u64) = push_bit n' page_size" "blk_in b a n'"
    using ok x'(1) unfolding areas_ok_def by fastforce
  then have "n' = n" using blk_order_inj [OF x'(2), of n'] geometry_max [OF g] by simp
  with n' x' show "n \<le> nat (buddy_max_order b)" "n \<le> 32" "blk_in b a n" by simp_all
  then show "unat a + blk_size n < 2 ^ 64" using blk_nowrap [OF g] by blast
qed

lemma areas_unique:
  assumes ok: "areas_ok b" and x: "(a, n) \<in> areas b" "(a', n') \<in> areas b" and i: "in_blk p a n" "in_blk p a' n'"
  shows "a = a' \<and> n = n'"
proof (rule ccontr)
  assume "\<not> ?thesis"
  then have "blk_disj a n a' n'" using ok x unfolding areas_ok_def by fastforce
  then show False using i unfolding blk_disj_def in_blk_def by linarith
qed

lemma belong_area_eq:
  assumes g: "geometry b" and ok: "areas_ok b" and x: "(a, n) \<in> areas b" and i: "in_blk p a n"
  shows "belong_area b p = Some (a, push_bit n page_size)"
proof -
  have "belong_area_loop p ds = Some (a, push_bit n page_size)"
    if "set ds \<subseteq> set (area_desc b)" "(a, push_bit n page_size) \<in> set ds" for ds
    using that
  proof (induction ds)
    case (Cons d ds)
    obtain a' s' where d: "d = (a', s')" by (cases d)
    obtain n' where n': "n' \<le> nat (buddy_max_order b)" "s' = push_bit n' page_size"
      using ok Cons.prems(1) d unfolding areas_ok_def by fastforce
    have x': "(a', n') \<in> areas b" using n' d Cons.prems(1) geometry_max [OF g] by (auto simp: areas_def)
    note bk = areas_blk [OF g ok x']
    have u: "unat (a' + s') = unat a' + blk_size n'"
      using bk(4) by (simp add: n'(2) unat_word_ariths unat_blk [OF bk(2)] del: page_size_def)
    have here: "\<not> p < a' \<and> \<not> a' + s' \<le> p \<longleftrightarrow> in_blk p a' n'"
      by (simp add: in_blk_def word_less_nat_alt word_le_nat_alt u not_less not_le)
    show ?case
    proof (cases "in_blk p a' n'")
      case True
      then have "a' = a" "n' = n" using areas_unique [OF ok x' x True i] by simp_all
      then show ?thesis using True here d n'(2) by simp
    next
      case False
      then have "d \<noteq> (a, push_bit n page_size)" using i d n'(2) bk(2) areas_blk(2) [OF g ok x] blk_order_inj by auto
      then have "belong_area_loop p ds = Some (a, push_bit n page_size)" using Cons by auto
      then show ?thesis using False here d by auto
    qed
  qed simp
  then show ?thesis using x by (auto simp: belong_area_def areas_def)
qed

lemma aligned_blk_in:
  assumes g: "geometry b" and ok: "areas_ok b" and x: "(a, n) \<in> areas b" and al: "aligned_in a n p k"
  shows "blk_in b p k" "in_blk p a n"
proof -
  note ab = areas_blk [OF g ok x]
  have "4096 dvd unat p - unat a" using al blk_size_dvd [of 0 k] by (auto simp: aligned_in_def blk_size_def intro: dvd_trans)
  moreover have "4096 dvd unat a" using ab(3) by (auto simp: blk_in_def)
  ultimately have "unat p mod 4096 = 0" using al by (metis aligned_in_def dvd_add_right_iff dvd_imp_mod_0 le_add_diff_inverse)
  then show "blk_in b p k" using al ab(3) unfolding blk_in_def aligned_in_def by linarith
  show "in_blk p a n" using al blk_size_pos(1) [of k] unfolding aligned_in_def in_blk_def by linarith
qed

lemma blk_page: "blk_in b p k \<Longrightarrow> page_in b p"
  using blk_size_pos(1) [of k] unfolding blk_in_def page_in_def by linarith

text \<open>The address computed for the buddy of a block starts a block, which is not larger.\<close>

lemma buddy_starts_block:
  assumes g: "geometry b" and ok: "areas_ok b" and t: "tiled b B" and p: "(p, k) \<in> B"
    and x: "(a, n) \<in> areas b" and al: "aligned_in a n p k" and k: "k < n"
  shows "\<exists>j \<le> k. (buddy_of a p k, j) \<in> B"
proof -
  let ?q = "buddy_of a p k"
  note ab = areas_blk [OF g ok x]
  note u = unat_buddy_of [OF al k ab(2,4)]
  note qa = aligned_blk_in [OF g ok x u(2)]
  have "page_in b ?q" by (rule blk_page [OF qa(1)])
  then obtain r j where rj: "(r, j) \<in> B" "in_blk ?q r j" using tiledD(3) [OF t] by blast
  obtain a' n' where a': "(a', n') \<in> areas b" "j \<le> n'" "aligned_in a' n' r j" using tiledD(1) [OF t rj(1)] by blast
  have "in_blk ?q a' n'" using rj(2) a'(3) unfolding in_blk_def aligned_in_def by linarith
  then have al': "aligned_in a n r j" using areas_unique [OF ok a'(1) x _ qa(2)] a'(3) by simp
  have jk: "j \<le> k"
  proof (rule ccontr)
    assume "\<not> j \<le> k"
    then have j: "Suc k \<le> j" by simp
    note c = buddy_pair [OF al k ab(2,4)]
    have "\<not> blk_disj (min p ?q) (Suc k) r j"
      using rj(2) c(6,7) blk_size_pos(1) [of k] unfolding blk_disj_def in_blk_def by linarith
    from aligned_nested [OF c(2) al' j this] have "\<not> blk_disj p k r j"
      using c(4,5) blk_size_pos(1) [of k] unfolding blk_disj_def by linarith
    then show False using tiledD(2) [OF t p rj(1)] j by auto
  qed
  have o: "\<not> blk_disj r j ?q k" using rj(2) blk_size_pos(1) [of k] unfolding blk_disj_def in_blk_def by linarith
  have "unat ?q \<le> unat r" using aligned_nested [OF al' u(2) jk o] by simp
  then have "r = ?q" using rj(2) by (simp add: in_blk_def word_unat_eq_iff)
  then show ?thesis using rj(1) jk by blast
qed

text \<open>Joining the halves of a block, and splitting it.\<close>

lemma tiled_merge:
  assumes g: "geometry b" and ok: "areas_ok b" and x: "(a, n) \<in> areas b" and al: "aligned_in a n p k" and k: "k < n"
  defines "q \<equiv> buddy_of a p k" and "c \<equiv> min p (buddy_of a p k)"
  assumes t: "tiled b (insert (p, k) (insert (q, k) B))" and new: "(p, k) \<notin> B" "(q, k) \<notin> B"
  shows "tiled b (insert (c, Suc k) B)" "(c, Suc k) \<notin> B"
proof -
  note ab = areas_blk [OF g ok x]
  note c = buddy_pair [OF al k ab(2,4), folded q_def c_def]
  have dj: "blk_disj c (Suc k) r j" if "(r, j) \<in> B" for r j
  proof -
    have "blk_disj p k r j" "blk_disj q k r j" using tiledD(2) [OF t, of _ k r j] that new by auto
    then show ?thesis using c(8) blk_size_pos(1) [of j] unfolding blk_disj_def blk_size_Suc by linarith
  qed
  show n: "(c, Suc k) \<notin> B" using dj [of c "Suc k"] by (auto simp: blk_disj_def)
  show "tiled b (insert (c, Suc k) B)"
    unfolding tiled_def
  proof (intro conjI ballI allI impI)
    show "case e of (p, k) \<Rightarrow> \<exists>(a, n) \<in> areas b. k \<le> n \<and> aligned_in a n p k" if "e \<in> insert (c, Suc k) B" for e
    proof (cases "e \<in> B")
      case True
      then show ?thesis using t unfolding tiled_def by auto
    next
      case False
      then have "e = (c, Suc k)" using that by simp
      then show ?thesis using c(2) k by (auto intro: bexI [OF _ x])
    qed
    show "blk_disj (fst e) (snd e) (fst f) (snd f)" if "e \<in> insert (c, Suc k) B" "f \<in> insert (c, Suc k) B" "e \<noteq> f" for e f
      using that dj tiledD(2) [OF t, of "fst e" "snd e" "fst f" "snd f"] blk_disj_sym by (cases e; cases f) auto
    show "\<exists>(p, k) \<in> insert (c, Suc k) B. in_blk y p k" if y: "page_in b y" for y
    proof -
      obtain r j where rj: "(r, j) \<in> insert (p, k) (insert (q, k) B)" "in_blk y r j" using tiledD(3) [OF t y] by blast
      have "in_blk y c (Suc k) \<or> (r, j) \<in> B" using rj c(4-7) unfolding in_blk_def by auto
      then show ?thesis using rj(2) by auto
    qed
  qed
qed

lemma tiled_split:
  assumes g: "geometry b" and ok: "areas_ok b" and t: "tiled b (insert (p, Suc k) B)" and new: "(p, Suc k) \<notin> B"
  defines "u \<equiv> upper_half p k"
  shows "tiled b (insert (p, k) (insert (u, k) B))" "(p, k) \<notin> insert (u, k) B" "(u, k) \<notin> B"
proof -
  obtain a n where x: "(a, n) \<in> areas b" "Suc k \<le> n" "aligned_in a n p (Suc k)" using tiledD(1) [OF t, of p "Suc k"] by blast
  note ab = areas_blk [OF g ok x(1)]
  have k: "k \<le> 32" using x(2) ab(2) by simp
  note pin = aligned_blk_in(1) [OF g ok x(1,3)]
  note ub = upper_half_blk [OF g pin k, folded u_def]
  have dj: "blk_disj p k r j \<and> blk_disj u k r j" if "(r, j) \<in> B" for r j
    using ub(6) [of r j] tiledD(2) [OF t, of p "Suc k" r j] that new by auto
  show n: "(p, k) \<notin> insert (u, k) B" "(u, k) \<notin> B" using dj blk_disj_neq ub(4) by blast+
  have al: "aligned_in a n p k" "aligned_in a n u k"
  proof -
    have d: "blk_size k dvd unat p - unat a" "unat a \<le> unat p"
      using x(3) blk_size_dvd [of k "Suc k"] by (auto simp: aligned_in_def intro: dvd_trans)
    then have eq: "unat p + blk_size k - unat a = unat p - unat a + blk_size k" by simp
    have "blk_size k dvd unat p + blk_size k - unat a" unfolding eq using d(1) by (rule dvd_add) simp
    then show "aligned_in a n p k" "aligned_in a n u k"
      using x(3) d unfolding aligned_in_def ub(1) blk_size_Suc by simp_all
  qed
  show "tiled b (insert (p, k) (insert (u, k) B))"
    unfolding tiled_def
  proof (intro conjI ballI allI impI)
    show "case e of (p, k) \<Rightarrow> \<exists>(a, n) \<in> areas b. k \<le> n \<and> aligned_in a n p k" if "e \<in> insert (p, k) (insert (u, k) B)" for e
    proof (cases "e \<in> B")
      case True
      then show ?thesis using t unfolding tiled_def by auto
    next
      case False
      then have "e = (p, k) \<or> e = (u, k)" using that by auto
      then show ?thesis using al x(2) by (auto intro: bexI [OF _ x(1)])
    qed
    show "blk_disj (fst e) (snd e) (fst f) (snd f)"
      if "e \<in> insert (p, k) (insert (u, k) B)" "f \<in> insert (p, k) (insert (u, k) B)" "e \<noteq> f" for e f
      using that dj ub(5) tiledD(2) [OF t, of "fst e" "snd e" "fst f" "snd f"] blk_disj_sym by (cases e; cases f) auto
    show "\<exists>(p, k) \<in> insert (p, k) (insert (u, k) B). in_blk y p k" if y: "page_in b y" for y
    proof -
      obtain r j where rj: "(r, j) \<in> insert (p, Suc k) B" "in_blk y r j" using tiledD(3) [OF t y] by blast
      have "in_blk y p k \<or> in_blk y u k \<or> (r, j) \<in> B" using rj unfolding in_blk_def ub(1) by (auto simp: blk_size_Suc)
      then show ?thesis using rj(2) by auto
    qed
  qed
qed

end
