(* ===== verification/Buddy_Release.thy ===== *)
theory Buddy_Release
  imports Buddy_Tiling
begin

text \<open>
  Releasing pages. The blocks of the buddy allocator, free and handed out together, tile the managed
  range, and the info byte of every page says what starts there (\<open>full_inv\<close>). So the address that
  \<^verbatim>\<open>_get_buddy_node\<close> computes is the start of a block, the merging loop of \<^verbatim>\<open>free_pages\<close> only ever joins
  two free halves of one block and ends, and any sequence of allocations and releases after
  construction is served.
\<close>

section \<open>Info bytes\<close>

text \<open>The info byte of a page says whether a block starts there, of which order, and whether it is handed out.\<close>

type_synonym handed_out = "u64 \<rightharpoonup> nat"

definition blks :: "free_lists \<Rightarrow> handed_out \<Rightarrow> blocks" where
  "blks F A = {(p, k). p \<in> set (F k) \<or> A p = Some k}"

lemma mk_info_fields:
  "info_in_use (mk_info k 1 1)" "\<not> info_in_use (mk_info k 0 1)" "info_area_flag (mk_info k u 1)" "mk_info 0 0 0 = 0"
  "mk_info k 1 1 AND NOT 128 = mk_info k 0 1" "info_order (mk_info k u v) = k AND 63"
proof -
  have e: "(63::u8) = mask 6" "(128::u8) = 2 ^ 7" by (simp_all add: mask_eq_decr_exp)
  show "info_in_use (mk_info k 1 1)" "\<not> info_in_use (mk_info k 0 1)" "info_area_flag (mk_info k u 1)" "mk_info 0 0 0 = 0"
    unfolding info_in_use_def info_area_flag_def mk_info_def e
    by (simp_all add: bit_or_iff bit_and_iff bit_mask_iff bit_push_bit_iff)
  have b: "bit (mk_info k u v) n \<longleftrightarrow> n < 6 \<and> bit k n \<or> n = 6 \<and> odd v \<or> n = 7 \<and> odd u" if "n < 8" for n u v
  proof -
    have "bit (mk_info k u v) n \<longleftrightarrow> bit k n \<and> n < 6 \<or> 6 \<le> n \<and> bit (v AND 1) (n - 6) \<or> 7 \<le> n \<and> bit (u AND 1) (n - 7)"
      using that unfolding mk_info_def e bit_or_iff bit_and_iff bit_mask_iff bit_push_bit_iff by auto
    moreover have "bit (w AND 1) j \<longleftrightarrow> j = 0 \<and> odd w" for w :: u8 and j
      unfolding bit_and_iff bit_1_iff by (auto simp: bit_0)
    ultimately show ?thesis using that by (simp only:) auto
  qed
  have n7: "bit (NOT 128 :: u8) n \<longleftrightarrow> n \<noteq> 7" if "n < 8" for n
    using that unfolding e by (simp only: bit_not_iff bit_exp_iff) auto
  show "mk_info k 1 1 AND NOT 128 = mk_info k 0 1"
  proof (rule bit_word_eqI)
    fix n
    assume "n < LENGTH(8)"
    then have n: "n < 8" by simp
    show "bit (mk_info k 1 1 AND NOT 128) n = bit (mk_info k 0 1) n" unfolding bit_and_iff b [OF n] n7 [OF n] by auto
  qed
  show "info_order (mk_info k u v) = k AND 63"
    unfolding info_order_def e by (rule bit_word_eqI) (use b in \<open>auto simp: bit_and_iff bit_mask_iff\<close>)
qed

lemma of_nat_order: "k \<le> 32 \<Longrightarrow> (of_nat k :: u8) AND 63 = of_nat k"
proof -
  assume k: "k \<le> 32"
  have "(63::u8) = mask 6" by (simp add: mask_eq_decr_exp)
  then have "(of_nat k :: u8) AND 63 = take_bit 6 (of_nat k)" by (simp add: take_bit_eq_mask)
  also have "\<dots> = of_nat k" using k by (simp add: take_bit_eq_mod word_unat_eq_iff unat_mod unat_of_nat)
  finally show ?thesis .
qed

definition infos_ok :: "buddy \<Rightarrow> mem \<Rightarrow> free_lists \<Rightarrow> handed_out \<Rightarrow> u64 set \<Rightarrow> bool" where
  "infos_ok b m F A X \<longleftrightarrow> (\<forall>x. page_in b x \<and> x \<notin> X \<longrightarrow>
     (\<forall>k. x \<in> set (F k) \<longrightarrow> m (info_byte b x) = mk_info (of_nat k) 0 1) \<and>
     (\<forall>k. A x = Some k \<longrightarrow> m (info_byte b x) = mk_info (of_nat k) 1 1) \<and>
     ((\<forall>k. (x, k) \<notin> blks F A) \<longrightarrow> m (info_byte b x) = 0))"

lemma infos_okD:
  assumes "infos_ok b m F A X" "page_in b x" "x \<notin> X"
  shows "x \<in> set (F k) \<Longrightarrow> m (info_byte b x) = mk_info (of_nat k) 0 1"
    "A x = Some k \<Longrightarrow> m (info_byte b x) = mk_info (of_nat k) 1 1"
    "(\<And>k. (x, k) \<notin> blks F A) \<Longrightarrow> m (info_byte b x) = 0"
  using assms unfolding infos_ok_def by blast+

lemma info_byte_inj:
  assumes g: "geometry b" and x: "page_in b x" and y: "page_in b y"
  shows "info_byte b x = info_byte b y \<longleftrightarrow> x = y"
proof
  note ux = unat_info_byte(2) [OF g, of x] and uy = unat_info_byte(2) [OF g, of y]
  have al: "4096 dvd unat x - ram_lo b" "4096 dvd unat y - ram_lo b"
    using x y g unfolding page_in_def geometry_def ram_lo_def by (auto intro: dvd_diff_nat)
  assume "info_byte b x = info_byte b y"
  then have "(unat x - ram_lo b) div 4096 = (unat y - ram_lo b) div 4096"
    using ux uy x y unfolding page_in_def by auto
  then have "unat x - ram_lo b = unat y - ram_lo b" using al by (metis dvd_mult_div_cancel)
  then have "unat x = unat y" using x y unfolding page_in_def by linarith
  then show "x = y" by (simp add: word_unat_eq_iff)
qed simp

lemma page_blk:
  assumes x: "page_in b x" and g: "geometry b"
  shows "blk_in b x 0"
proof -
  have "ram_hi b mod 4096 = 0" using g by (auto simp: geometry_def ram_hi_def mod_add_eq [symmetric])
  then have "unat x + 4096 \<le> ram_hi b" using x page_multiples_apart [of "unat x" "ram_hi b"] unfolding page_in_def by auto
  then show ?thesis using x by (simp add: page_in_def blk_in_def blk_size_def)
qed

lemma record_info_infos:
  assumes g: "geometry b" and p: "page_in b p" and x: "page_in b x"
  shows "record_info b m p i j k (info_byte b x) = (if x = p then mk_info i j k else m (info_byte b x))"
  using info_byte_inj [OF g p x] by (auto simp: record_info_def info_byte_def)

lemma set_node_infos:
  assumes g: "geometry b" and x: "page_in b x" and p: "p \<in> node_space b"
  shows "set_node m p mg sz pv nx (info_byte b x) = m (info_byte b x)"
    "set_node_magic m p v (info_byte b x) = m (info_byte b x)"
    "set_node_area_size m p v (info_byte b x) = m (info_byte b x)"
    "set_node_next m p v (info_byte b x) = m (info_byte b x)"
    "set_node_prev m p v (info_byte b x) = m (info_byte b x)"
proof -
  have ok: "node_ok p" using nodes_ok_space [OF g] p by (auto simp: nodes_ok_def)
  note w = set_node_byte [OF ok info_apart [OF g page_blk [OF x g] p]]
  show "set_node m p mg sz pv nx (info_byte b x) = m (info_byte b x)"
    "set_node_magic m p v (info_byte b x) = m (info_byte b x)"
    "set_node_area_size m p v (info_byte b x) = m (info_byte b x)"
    "set_node_next m p v (info_byte b x) = m (info_byte b x)"
    "set_node_prev m p v (info_byte b x) = m (info_byte b x)"
    by (simp_all add: w set_node_def)
qed

lemma remove_node_infos:
  assumes inv: "buddy_inv b m F" and p: "p \<in> set (F i)" and x: "page_in b x"
  shows "remove_node m p (info_byte b x) = m (info_byte b x)"
proof (rule unlink_node_byte [OF inv p])
  note g = invD(1) [OF inv]
  show "byte_apart (info_byte b x) y" if "y \<in> insert (node_head b (int i)) (set (F i))" for y
    using that info_apart [OF g page_blk [OF x g]] head_in_space [OF invD(6) [OF inv p]] inv_blk_space [OF inv] by blast
qed

lemma insert_node_infos:
  assumes inv: "buddy_inv b m F" and k: "k \<le> 32" and p: "blk_in b p j" and x: "page_in b x"
  shows "insert_node b m p (int k) (info_byte b x) = m (info_byte b x)"
proof -
  note g = invD(1) [OF inv]
  have nx: "node_next m (node_head b (int k)) \<in> node_space b"
    using seg_first [OF invD(2) [OF inv k]] inv_blk_space [OF inv, of _ k] head_in_space [OF k] by (cases "F k") auto
  show ?thesis
    using blk_in_space [OF p] head_in_space [OF k] nx info_apart [OF g page_blk [OF x g]] head_not_page [OF g p k]
    by (intro insert_node_byte [OF nodes_ok_space [OF g]]) auto
qed

section \<open>The full invariant\<close>

definition full_inv :: "buddy \<Rightarrow> mem \<Rightarrow> free_lists \<Rightarrow> handed_out \<Rightarrow> bool" where
  "full_inv b m F A \<longleftrightarrow> buddy_inv b m F \<and> areas_ok b \<and> tiled b (blks F A) \<and> infos_ok b m F A {}"

text \<open>A block \<open>p\<close> of order \<open>k\<close> is in the hands of the allocator, on no list and not handed out.\<close>

definition holding :: "buddy \<Rightarrow> mem \<Rightarrow> free_lists \<Rightarrow> handed_out \<Rightarrow> u64 \<Rightarrow> nat \<Rightarrow> bool" where
  "holding b m F A p k \<longleftrightarrow> buddy_inv b m F \<and> held b m F p k \<and> areas_ok b \<and>
     tiled b (insert (p, k) (blks F A)) \<and> (p, k) \<notin> blks F A \<and> infos_ok b m F A {p}"

lemma holdingD:
  assumes "holding b m F A p k"
  shows "buddy_inv b m F" "held b m F p k" "areas_ok b" "tiled b (insert (p, k) (blks F A))" "(p, k) \<notin> blks F A"
    "infos_ok b m F A {p}" "geometry b" "blk_in b p k" "page_in b p" "k \<le> 32"
    "(q, j) \<in> blks F A \<Longrightarrow> blk_disj p k q j" "A p = None" "p \<notin> set (F j)"
proof -
  show h: "buddy_inv b m F" "held b m F p k" "areas_ok b" "tiled b (insert (p, k) (blks F A))" "(p, k) \<notin> blks F A"
    "infos_ok b m F A {p}" using assms by (simp_all add: holding_def)
  show g: "geometry b" by (rule invD(1) [OF h(1)])
  show p: "blk_in b p k" using h(2) by (simp add: held_def)
  then show "page_in b p" by (rule blk_page)
  show "k \<le> 32" using h(2) geometry_max [OF g] unfolding held_def by linarith
  show dj: "(q, j) \<in> blks F A \<Longrightarrow> blk_disj p k q j" for q j using tiledD(2) [OF h(4), of p k q j] h(5) by auto
  have "(p, j) \<notin> blks F A" for j using dj blk_disj_neq by blast
  then show "A p = None" "p \<notin> set (F j)" by (cases "A p"; auto simp: blks_def)+
qed

lemma blks_add: "blks (F(k := u # F k)) A = insert (u, k) (blks F A)"
  by (auto simp: blks_def split: if_splits)

lemma blks_out: "A p = None \<Longrightarrow> blks F (A(p \<mapsto> k)) = insert (p, k) (blks F A)"
  by (auto simp: blks_def split: if_splits)

lemma blks_cut: "distinct (F k) \<Longrightarrow> F k = xs @ p # ps \<Longrightarrow> A p = None \<Longrightarrow> blks (F(k := xs @ ps)) A = blks F A - {(p, k)}"
  by (auto simp: blks_def split: if_splits)

lemma full_order:
  assumes "full_inv b m F A"
  shows "(p, j) \<in> blks F A \<Longrightarrow> (p, k) \<in> blks F A \<Longrightarrow> j = k"
    "(p, k) \<in> blks F A \<Longrightarrow> blk_in b p k \<and> page_in b p \<and> k \<le> nat (buddy_max_order b)"
    "p \<in> set (F j) \<Longrightarrow> A p = None"
proof -
  have h: "buddy_inv b m F" "areas_ok b" "tiled b (blks F A)" using assms by (simp_all add: full_inv_def)
  show same: "j = k" if "(p, j) \<in> blks F A" "(p, k) \<in> blks F A" for j k
    using tiledD(2) [OF h(3) that] blk_disj_neq by blast
  show "blk_in b p k \<and> page_in b p \<and> k \<le> nat (buddy_max_order b)" if pk: "(p, k) \<in> blks F A"
  proof -
    obtain a n where x: "(a, n) \<in> areas b" "k \<le> n" "aligned_in a n p k" using tiledD(1) [OF h(3) pk] by blast
    then show ?thesis
      using aligned_blk_in(1) [OF invD(1) [OF h(1)] h(2) x(1,3)] areas_blk(1) [OF invD(1) [OF h(1)] h(2) x(1)] blk_page
      by fastforce
  qed
  show "A p = None" if "p \<in> set (F j)"
  proof (rule ccontr)
    assume "A p \<noteq> None"
    then obtain k where k: "A p = Some k" by blast
    have "page_in b p" using blk_page invD(4) [OF h(1) that] by blast
    note i = infos_okD [OF _ this, of m F A "{}"]
    have "infos_ok b m F A {}" using assms by (simp add: full_inv_def)
    then have "mk_info (of_nat j) 0 1 = mk_info (of_nat k) 1 1" using i(1) [OF _ _ that] i(2) [OF _ _ k] by simp
    then show False using mk_info_fields(1,2) by metis
  qed
qed

lemma infos_ok_upd:
  assumes i: "infos_ok b m F A X" and b: "\<And>x. page_in b x \<Longrightarrow> x \<noteq> p \<Longrightarrow> m' (info_byte b x) = m (info_byte b x)"
    and o: "\<And>x k. x \<noteq> p \<Longrightarrow> x \<notin> Y \<Longrightarrow> x \<notin> X \<and> (x \<in> set (F' k) \<longleftrightarrow> x \<in> set (F k)) \<and> A' x = A x"
    and p: "p \<in> Y \<or> (\<exists>k. p \<in> set (F' k) \<and> (\<forall>j. p \<in> set (F' j) \<longrightarrow> j = k) \<and> A' p = None \<and> m' (info_byte b p) = mk_info (of_nat k) 0 1) \<or>
      (\<exists>k. A' p = Some k \<and> (\<forall>j. p \<notin> set (F' j)) \<and> m' (info_byte b p) = mk_info (of_nat k) 1 1) \<or>
      (\<forall>k. (p, k) \<notin> blks F' A') \<and> m' (info_byte b p) = 0"
  shows "infos_ok b m' F' A' Y"
  unfolding infos_ok_def
proof (intro allI impI)
  fix x
  assume x: "page_in b x \<and> x \<notin> Y"
  show "(\<forall>k. x \<in> set (F' k) \<longrightarrow> m' (info_byte b x) = mk_info (of_nat k) 0 1) \<and>
     (\<forall>k. A' x = Some k \<longrightarrow> m' (info_byte b x) = mk_info (of_nat k) 1 1) \<and>
     ((\<forall>k. (x, k) \<notin> blks F' A') \<longrightarrow> m' (info_byte b x) = 0)"
  proof (cases "x = p")
    case True
    have n: "p \<notin> Y" using x True by simp
    then consider (free) k where "p \<in> set (F' k)" "\<And>j. p \<in> set (F' j) \<Longrightarrow> j = k" "A' p = None" "m' (info_byte b p) = mk_info (of_nat k) 0 1"
      | (out) k where "A' p = Some k" "\<And>j. p \<notin> set (F' j)" "m' (info_byte b p) = mk_info (of_nat k) 1 1"
      | (none) "\<And>k. (p, k) \<notin> blks F' A'" "m' (info_byte b p) = 0"
      using p by blast
    then show ?thesis
    proof cases
      case free
      have "m' (info_byte b p) = mk_info (of_nat j) 0 1" if "p \<in> set (F' j)" for j using free(2) [OF that] free(4) by simp
      moreover have "\<not> (\<forall>k. (p, k) \<notin> blks F' A')" using free(1) by (auto simp: blks_def)
      ultimately show ?thesis unfolding True using free(3) by auto
    next
      case out
      then have "(p, k) \<in> blks F' A'" by (simp add: blks_def)
      then show ?thesis unfolding True using out by auto
    next
      case none
      then show ?thesis unfolding True by (auto simp: blks_def)
    qed
  next
    case False
    then have "x \<notin> X" "\<And>k. x \<in> set (F' k) \<longleftrightarrow> x \<in> set (F k)" "A' x = A x" using o x by blast+
    then show ?thesis using i x b [of x] False unfolding infos_ok_def blks_def by simp
  qed
qed

lemma split_node_infos:
  assumes inv: "buddy_inv b m F" and h: "held b m F p (Suc k)" and x: "page_in b x"
  shows "snd (split_node b m (int (Suc k)) p) (info_byte b x) =
     (if x = upper_half p k then mk_info (of_nat k) 0 1 else m (info_byte b x))"
proof -
  note g = invD(1) [OF inv]
  have Sk: "Suc k \<le> 32" "k \<le> 32" using h geometry_max [OF g] unfolding held_def by linarith+
  have p: "blk_in b p (Suc k)" "free_blk m p (Suc k)" using h unfolding held_def by blast+
  note ub = upper_half_blk [OF g p(1) Sk(2)]
  have pu: "p \<in> node_space b" "upper_half p k \<in> node_space b" using blk_in_space ub(2,3) by blast+
  have sz: "node_area_size m p = push_bit (Suc k) page_size" using p(2) by (simp add: free_blk_def)
  let ?m1 = "split_pair m p (upper_half p k)" and ?h = "node_head b (int k)"
  have m1: "?m1 (info_byte b x) = m (info_byte b x)"
    unfolding split_pair_def Let_def by (simp add: set_node_infos [OF g x] pu)
  have nx: "node_next ?m1 ?h \<in> node_space b"
    using split_pair_node(1) [OF g pu ub(4) head_in_space [OF Sk(2)]] seg_first [OF invD(2) [OF inv Sk(2)]]
      inv_blk_space [OF inv, of _ k] head_in_space [OF Sk(2)] by (cases "F k") auto
  note ap = info_apart [OF g page_blk [OF x g]]
  have m2: "insert_node b ?m1 (upper_half p k) (int k) (info_byte b x) = ?m1 (info_byte b x)"
    using pu nx head_in_space [OF Sk(2)] head_not_page [OF g ub(2) Sk(2)] ap
    by (intro insert_node_byte [OF nodes_ok_space [OF g]]) auto
  have nk: "nat (1 + int k) = Suc k" by simp
  have u: "p + drop_bit (Suc 0) (push_bit (Suc k) page_size) = upper_half p k"
    using half_blk [OF Sk(1)] by (simp add: upper_half_def del: page_size_def push_bit_Suc)
  show ?thesis unfolding split_node_def Let_def
    by (simp add: sz nk u record_info_infos [OF g blk_page [OF ub(2)] x] m1 m2 del: page_size_def push_bit_Suc)
qed

lemma split_node_holding:
  assumes h: "holding b m F A p (Suc k)"
  shows "holding b (snd (split_node b m (int (Suc k)) p)) (F(k := upper_half p k # F k)) A p k"
proof -
  let ?u = "upper_half p k"
  note d = holdingD [OF h]
  have k: "k \<le> 32" using d(10) by simp
  note ub = upper_half_blk [OF d(7,8) k]
  note t = tiled_split [OF d(7,3,4,5)]
  obtain m' where m': "split_node b m (int (Suc k)) p = (0, m')"
    "buddy_inv b m' (F(k := ?u # F k))" "held b m' (F(k := ?u # F k)) p k"
    using split_node_inv [OF d(1,2)] .
  have no: "(?u, j) \<notin> blks F A" for j using ub(6) [OF d(11)] blk_disj_neq by blast
  have "infos_ok b m' (F(k := ?u # F k)) A {p}"
    using no split_node_infos [OF d(1,2)] m'(1) blk_page [OF ub(2)]
    by (intro infos_ok_upd [OF d(6), of ?u]) (auto simp: blks_def)
  then show ?thesis using m' t d(3) by (simp add: holding_def blks_add)
qed

lemma pop_node_holding:
  assumes h: "full_inv b m F A" and F: "F i = p # ps"
  shows "holding b (remove_node m p) (F(i := ps)) A p i"
proof -
  have d: "buddy_inv b m F" "areas_ok b" "tiled b (blks F A)" "infos_ok b m F A {}" using h by (simp_all add: full_inv_def)
  have p: "p \<in> set (F i)" using F by simp
  have pA: "A p = None" by (rule full_order(3) [OF h p])
  have b: "blks (F(i := ps)) A = blks F A - {(p, i)}"
    using blks_cut [of F i "[]" p ps A] invD(3) [OF d(1), of i] F pA by simp
  have "(p, i) \<in> blks F A" using p by (simp add: blks_def)
  note b = b this
  have s: "x \<in> set ((F(i := ps)) k) \<longleftrightarrow> x \<in> set (F k)" if "x \<noteq> p" for x k using that F by auto
  have "infos_ok b (remove_node m p) (F(i := ps)) A {p}"
    using s remove_node_infos [OF d(1) p] by (intro infos_ok_upd [OF d(4), of p]) auto
  then show ?thesis using pop_node_inv(2,3) [OF d(1) F] d(2,3) b by (simp add: holding_def insert_absorb)
qed

lemma hand_out:
  assumes h: "holding b m F A p k"
  shows "full_inv b (record_info b m p (of_nat k) 1 1) F (A(p \<mapsto> k))"
proof -
  note d = holdingD [OF h]
  have "infos_ok b (record_info b m p (of_nat k) 1 1) F (A(p \<mapsto> k)) {}"
    using d(13) record_info_infos [OF d(7,9)] d(9) by (intro infos_ok_upd [OF d(6), of p]) auto
  moreover have "buddy_inv b (record_info b m p (of_nat k) 1 1) F"
    by (rule buddy_inv_cong [OF d(1)]) (simp_all add: record_info_node [OF d(7,8)])
  ultimately show ?thesis using d(3,4) blks_out [of A p F k] d(12) by (simp add: full_inv_def)
qed

lemma put_back:
  assumes h: "holding b m F A p k"
  shows "full_inv b (record_info b (insert_node b m p (int k)) p (of_nat k) 0 1) (F(k := p # F k)) A"
proof -
  note d = holdingD [OF h]
  note inv = insert_node_inv [OF d(1,2)]
  have "infos_ok b (record_info b (insert_node b m p (int k)) p (of_nat k) 0 1) (F(k := p # F k)) A {}"
    using d(12,13) record_info_infos [OF d(7,9)] insert_node_infos [OF d(1,10,8)] d(9)
    by (intro infos_ok_upd [OF d(6), of p]) auto
  moreover have "buddy_inv b (record_info b (insert_node b m p (int k)) p (of_nat k) 0 1) (F(k := p # F k))"
    by (rule buddy_inv_cong [OF inv]) (simp_all add: record_info_node [OF d(7,8)])
  ultimately show ?thesis using d(3,4) by (simp add: full_inv_def blks_add)
qed

section \<open>Merging\<close>

text \<open>The abstract release: join with the buddy as long as it is a free block of the same order.\<close>

function merge_spec :: "free_lists \<Rightarrow> u64 \<Rightarrow> nat \<Rightarrow> u64 \<Rightarrow> nat \<Rightarrow> u64 \<times> nat \<times> free_lists" where
  "merge_spec F a n p k =
     (let q = buddy_of a p k
      in if k < n \<and> q \<in> set (F k) then merge_spec (F(k := remove1 q (F k))) a n (min p q) (Suc k) else (p, k, F))"
  by pat_completeness auto
termination
  by (relation "measure (\<lambda>(F, a, n, p, k). n - k)") auto

declare merge_spec.simps [simp del]

definition free_spec :: "free_lists \<Rightarrow> u64 \<Rightarrow> nat \<Rightarrow> u64 \<Rightarrow> nat \<Rightarrow> free_lists" where
  "free_spec F a n p k = (case merge_spec F a n p k of (q, j, F') \<Rightarrow> F'(j := q # F' j))"

definition joined :: "buddy \<Rightarrow> mem \<Rightarrow> u64 \<Rightarrow> u64 \<Rightarrow> mem" where
  "joined b m p q = snd (combine_node (record_info b (remove_node m q) (max p q) 0 0 0) (min p q) (max p q))"

lemma double_blk: "push_bit 1 (push_bit k page_size :: u64) = push_bit (Suc k) page_size"
  by (simp del: page_size_def)

lemma joined_eq:
  assumes h: "holding b m F A p k" and q: "q \<in> set (F k)"
  defines "m0 \<equiv> record_info b (remove_node m q) (max p q) 0 0 0"
  shows "combine_node m0 (min p q) (max p q) = (0, joined b m p q)"
    "joined b m p q = set_node (set_node m0 (max p q) buddy_unused_magic 0 0 0) (min p q) buddy_node_magic (push_bit (Suc k) page_size) 0 0"
proof -
  note d = holdingD [OF h]
  note g = d(7)
  have qb: "blk_in b q k" by (rule invD(4) [OF d(1) q])
  have sp: "p \<in> node_space b" "q \<in> node_space b" using blk_in_space [OF d(8)] blk_in_space [OF qb] .
  obtain xs ys where F: "F k = xs @ q # ys" using q by (meson split_list)
  have mx: "blk_in b (max p q) k" using d(8) qb by (simp add: max_def)
  have sz: "node_area_size m0 x = node_area_size (remove_node m q) x" if "x \<in> node_space b" for x
    unfolding m0_def using record_info_node(2) [OF g mx that] .
  have s: "seg m (node_head b (int k)) xs q" "seg m q ys (node_head b (int k))"
    using invD(2) [OF d(1,10)] F by (simp_all add: seg_append)
  have "node_prev m q \<in> insert (node_head b (int k)) (set xs)" "node_next m q \<in> insert (node_head b (int k)) (set ys)"
    using seg_last [OF s(1)] seg_first [OF s(2)] by (cases xs; cases ys; auto)+
  then have l: "node_prev m q \<in> node_space b" "node_next m q \<in> node_space b"
    using F head_in_space [OF d(10)] inv_blk_space [OF d(1), of _ k] by auto
  note rm = remove_node_other(2) [OF nodes_ok_space [OF g] sp(2) l]
  have e: "node_area_size m0 x = push_bit k page_size" if "x = p \<or> x = q" for x
    using that sz rm sp d(2) invD(5) [OF d(1) q] by (auto simp: held_def free_blk_def simp del: page_size_def)
  have "node_area_size m0 (min p q) = push_bit k page_size" "node_area_size m0 (max p q) = push_bit k page_size"
    using e by (simp_all add: min_def max_def del: page_size_def)
  then show "combine_node m0 (min p q) (max p q) = (0, joined b m p q)"
    "joined b m p q = set_node (set_node m0 (max p q) buddy_unused_magic 0 0 0) (min p q) buddy_node_magic (push_bit (Suc k) page_size) 0 0"
    unfolding joined_def m0_def [symmetric] combine_node_def Let_def by (simp_all add: double_blk del: page_size_def push_bit_Suc)
qed

lemma join_holding:
  assumes h: "holding b m F A p k" and x: "(a, n) \<in> areas b" "aligned_in a n p k" and k: "k < n"
  defines "q \<equiv> buddy_of a p k"
  assumes q: "q \<in> set (F k)"
  shows "holding b (joined b m p q) (F(k := remove1 q (F k))) A (min p q) (Suc k)"
    "aligned_in a n (min p q) (Suc k)"
    "foreign b F c \<Longrightarrow> blk_out c p k \<Longrightarrow>
       joined b m p q c = m c \<and> foreign b (F(k := remove1 q (F k))) c \<and> blk_out c (min p q) (Suc k)"
proof -
  note d = holdingD [OF h]
  note g = d(7)
  note ab = areas_blk [OF g d(3) x(1)]
  note bp = buddy_pair [OF x(2) k ab(2,4), folded q_def]
  let ?lo = "min p q" and ?hi = "max p q" and ?F = "F(k := remove1 q (F k))"
  show al: "aligned_in a n ?lo (Suc k)" by (rule bp(2))
  have qb: "blk_in b q k" by (rule invD(4) [OF d(1) q])
  have lohi: "{?lo, ?hi} = {p, q}" "?lo \<noteq> ?hi" using bp(1) by (auto simp: min_def max_def)
  have bk: "blk_in b ?lo k" "blk_in b ?hi k" using d(8) qb by (simp_all add: min_def max_def)
  obtain xs ys where F: "F k = xs @ q # ys" "q \<notin> set xs" using q split_list_first by fast
  have r: "remove1 q (F k) = xs @ ys" using F by (simp add: remove1_append)
  have qA: "A q = None"
  proof (rule ccontr)
    assume "A q \<noteq> None"
    then obtain j where j: "A q = Some j" by blast
    have "mk_info (of_nat k) 0 1 = mk_info (of_nat j) 1 1"
      using infos_okD(1,2) [OF d(6) blk_page [OF qb]] q j bp(1) by fastforce
    then show False using mk_info_fields(1,2) by metis
  qed
  have B: "blks ?F A = blks F A - {(q, k)}" unfolding r using blks_cut [of F k xs q ys A] invD(3) [OF d(1), of k] F(1) qA by simp
  have qB: "(q, k) \<in> blks F A" using q by (simp add: blks_def)
  let ?m1 = "remove_node m q" and ?m2 = "record_info b (remove_node m q) ?hi 0 0 0"
  let ?m3 = "set_node ?m2 ?hi buddy_unused_magic 0 0 0"
  note j = joined_eq [OF h q]
  have pF: "p \<notin> set (?F i)" "q \<notin> set (?F i)" for i
    using d(13) [of i] invD(3) [OF d(1), of k] F r invD(8) [OF d(1) q, of i] notin_set_remove1 [of p "F k" q] by auto
  then have nF: "?lo \<notin> set (?F i)" "?hi \<notin> set (?F i)" for i by (metis min_def max_def)+
  have inv1: "buddy_inv b ?m1 ?F" unfolding r by (rule unlink_node_inv(1) [OF d(1) F(1)])
  have inv2: "buddy_inv b ?m2 ?F" by (rule buddy_inv_cong [OF inv1]) (simp_all add: record_info_node [OF g bk(2)])
  have inv3: "buddy_inv b ?m3 ?F" by (rule set_node_inv [OF inv2 bk(2) nF(2)])
  have inv: "buddy_inv b (joined b m p q) ?F" unfolding j(2) by (rule set_node_inv [OF inv3 bk(1) nF(1)])
  have t: "tiled b (insert (p, k) (insert (q, k) (blks ?F A)))"
    using d(4) B qB by (simp add: insert_absorb)
  have new: "(p, k) \<notin> blks ?F A" "(q, k) \<notin> blks ?F A" using d(5) B by auto
  note t2 = tiled_merge [OF g d(3) x k, folded q_def, OF t new]
  have lb: "blk_in b ?lo (Suc k)" by (rule aligned_blk_in(1) [OF g d(3) x(1) al])
  have dj: "blk_disj ?lo (Suc k) r i" if "r \<in> set (?F i)" for r i
  proof -
    have ri: "(r, i) \<in> blks ?F A" using that by (simp only: blks_def) simp
    then show ?thesis using tiledD(2) [OF t2(1), of ?lo "Suc k" r i] t2(2) by auto
  qed
  have fb: "free_blk (joined b m p q) ?lo (Suc k)"
    using set_node_rw [OF nodes_ok_space [OF g] blk_in_space [OF bk(1)] blk_in_space [OF bk(1)]]
    unfolding j(2) by (simp add: free_blk_def del: page_size_def push_bit_Suc)
  have "Suc k \<le> nat (buddy_max_order b)" using k ab(1) by simp
  with lb fb dj have hd: "held b (joined b m p q) ?F ?lo (Suc k)" unfolding held_def by blast
  have ib: "joined b m p q (info_byte b y) = (if y = ?hi then 0 else m (info_byte b y))" if y: "page_in b y" for y
    unfolding j(2) using set_node_infos(1) [OF g y] blk_in_space [OF bk(1)] blk_in_space [OF bk(2)]
      record_info_infos [OF g blk_page [OF bk(2)] y] remove_node_infos [OF d(1) q y] by (simp add: mk_info_fields)
  have "infos_ok b (joined b m p q) ?F A {?lo}"
  proof (rule infos_ok_upd [OF d(6), of ?hi])
    show "y \<notin> {p} \<and> (y \<in> set (?F i) \<longleftrightarrow> y \<in> set (F i)) \<and> A y = A y" if "y \<noteq> ?hi" "y \<notin> {?lo}" for y i
    proof -
      have "y \<noteq> p" "y \<noteq> q" using that lohi(1) by auto
      then show ?thesis by (simp add: in_set_remove1)
    qed
    have "(?hi, i) \<notin> blks ?F A" for i using nF(2) [of i] d(12) qA lohi(1) unfolding blks_def by (auto simp: max_def)
    then show "?hi \<in> {?lo} \<or> (\<exists>k. ?hi \<in> set (?F k) \<and> (\<forall>j. ?hi \<in> set (?F j) \<longrightarrow> j = k) \<and> A ?hi = None \<and>
        joined b m p q (info_byte b ?hi) = mk_info (of_nat k) 0 1) \<or>
      (\<exists>k. A ?hi = Some k \<and> (\<forall>j. ?hi \<notin> set (?F j)) \<and> joined b m p q (info_byte b ?hi) = mk_info (of_nat k) 1 1) \<or>
      (\<forall>k. (?hi, k) \<notin> blks ?F A) \<and> joined b m p q (info_byte b ?hi) = 0"
      using ib [OF blk_page [OF bk(2)]] by simp
  qed (simp add: ib)
  then show "holding b (joined b m p q) ?F A ?lo (Suc k)" using inv hd d(3) t2 by (simp add: holding_def)
  show "joined b m p q c = m c \<and> foreign b ?F c \<and> blk_out c ?lo (Suc k)" if c: "foreign b F c" "blk_out c p k"
  proof -
    have qo: "blk_out c q k" using c(1) q by (simp add: foreign_def)
    then have "byte_apart c ?lo" "byte_apart c ?hi" using c(2) blk_out_apart by (simp_all add: min_def max_def)
    note w = this
    have ok: "node_ok ?lo" "node_ok ?hi" using nodes_ok_space [OF g] bk blk_in_space by (auto simp: nodes_ok_def)
    have "?m1 c = m c" using foreign_list(2) [OF d(1,10) c(1)] by (rule unlink_node_byte [OF d(1) q])
    then have "joined b m p q c = m c"
      unfolding j(2) set_node_def by (simp add: set_node_byte ok w record_info_byte [OF g bk(2) c(1)])
    moreover have "set (?F i) \<subseteq> set (F i)" for i using set_remove1_subset [of q "F k"] by auto
    then have "foreign b ?F c" using c(1) unfolding foreign_def by blast
    moreover have "blk_out c ?lo (Suc k)"
      using c(2) qo bp(8) unfolding blk_out_def blk_size_Suc by linarith
    ultimately show ?thesis by blast
  qed
qed

text \<open>The test of the loop finds a buddy to join exactly when it is on the list of the order of the block.\<close>

lemma merge_test:
  assumes h: "holding b m F A p k" and x: "(a, n) \<in> areas b" "aligned_in a n p k" and k: "k < n"
  defines "q \<equiv> buddy_of a p k"
  shows "q \<in> set (F k) \<longleftrightarrow> \<not> is_in_use b m q \<and> node_area_size m q = push_bit k page_size"
proof -
  note d = holdingD [OF h]
  note ab = areas_blk [OF d(7,3) x(1)]
  have pq: "p \<noteq> q" unfolding q_def by (rule buddy_pair(1) [OF x(2) k ab(2,4)])
  have use: "is_in_use b m y \<longleftrightarrow> info_in_use (m (info_byte b y))" for y by (simp add: is_in_use_def info_byte_def)
  have qb: "page_in b q"
    unfolding q_def by (rule blk_page [OF aligned_blk_in(1) [OF d(7,3) x(1) unat_buddy_of(2) [OF x(2) k ab(2,4)]]])
  have qp: "q \<notin> {p}" using pq by simp
  note i = infos_okD [OF d(6) qb qp]
  obtain j where j: "j \<le> k" "(q, j) \<in> blks F A"
    using buddy_starts_block [OF d(7,3,4) _ x k] pq unfolding q_def by auto
  show ?thesis
  proof
    assume q: "q \<in> set (F k)"
    then show "\<not> is_in_use b m q \<and> node_area_size m q = push_bit k page_size"
      using i(1) [OF q] invD(5) [OF d(1) q] mk_info_fields(2) by (simp add: use free_blk_def)
  next
    assume t: "\<not> is_in_use b m q \<and> node_area_size m q = push_bit k page_size"
    have "A q \<noteq> Some j" using i(2) t mk_info_fields(1) by (auto simp: use)
    then have q: "q \<in> set (F j)" using j(2) by (simp add: blks_def)
    then have "(push_bit j page_size :: u64) = push_bit k page_size"
      using t invD(5) [OF d(1) q] by (simp add: free_blk_def del: page_size_def)
    then have "j = k" using blk_order_inj j(1) d(10) by simp
    then show "q \<in> set (F k)" using q by simp
  qed
qed

lemma merge_loop_refines:
  assumes "holding b m F A p k" "(a, n) \<in> areas b" "aligned_in a n p k" "k \<le> n"
  shows "case merge_spec F a n p k of (q, j, F') \<Rightarrow> \<exists>m'.
     merge_loop b (a, push_bit n page_size) m p (int k) = Some (m', q, int j) \<and>
     holding b m' F' A q j \<and> aligned_in a n q j \<and>
     (\<forall>c. foreign b F c \<and> blk_out c p k \<longrightarrow> m' c = m c \<and> foreign b F' c \<and> blk_out c q j)"
  using assms
proof (induction F a n p k arbitrary: m rule: merge_spec.induct)
  case (1 F a n p k)
  let ?q = "buddy_of a p k"
  note h = "1.prems"(1) and x = "1.prems"(2,3)
  note d = holdingD [OF h]
  note ab = areas_blk [OF d(7,3) x(1)]
  have sz: "node_area_size m p = push_bit k page_size" using d(2) by (simp add: held_def free_blk_def)
  have gb: "get_buddy_node m (a, push_bit n page_size) p = ?q" by (simp add: get_buddy_node_def sz buddy_of_def del: page_size_def)
  have top: "(push_bit k page_size :: u64) = push_bit n page_size \<longleftrightarrow> k = n" using blk_order_inj [OF d(10) ab(2)] .
  show ?case
  proof (cases "k < n \<and> ?q \<in> set (F k)")
    case True
    then have k: "k < n" and q: "?q \<in> set (F k)" by simp_all
    note t = merge_test [OF h x k]
    note jn = join_holding [OF h x k q]
    have lohi: "(if ?q < p then (?q, p) else (p, ?q)) = (min p ?q, max p ?q)" by (auto simp: min_def max_def)
    have ord: "int k + 1 = int (Suc k)" by simp
    have step: "merge_loop b (a, push_bit n page_size) m p (int k) =
        merge_loop b (a, push_bit n page_size) (joined b m p ?q) (min p ?q) (int (Suc k))"
      using t q k joined_eq(1) [OF h q]
      by (subst merge_loop.simps) (simp only: sz gb top snd_conv Let_def lohi prod.case ord, simp)
    have sp: "merge_spec F a n p k = merge_spec (F(k := remove1 ?q (F k))) a n (min p ?q) (Suc k)"
      using k q by (subst merge_spec.simps) (simp add: Let_def)
    have IH: "case merge_spec (F(k := remove1 ?q (F k))) a n (min p ?q) (Suc k) of (q, j, F') \<Rightarrow> \<exists>m'.
       merge_loop b (a, push_bit n page_size) (joined b m p ?q) (min p ?q) (int (Suc k)) = Some (m', q, int j) \<and>
       holding b m' F' A q j \<and> aligned_in a n q j \<and>
       (\<forall>c. foreign b (F(k := remove1 ?q (F k))) c \<and> blk_out c (min p ?q) (Suc k) \<longrightarrow>
         m' c = joined b m p ?q c \<and> foreign b F' c \<and> blk_out c q j)"
      by (rule "1.IH" [OF refl True jn(1) x(1) jn(2)]) (use k in simp)
    show ?thesis unfolding sp step using IH jn(3) by (auto split: prod.splits)
  next
    case False
    then have sp: "merge_spec F a n p k = (p, k, F)" by (subst merge_spec.simps) (auto simp: Let_def)
    have "merge_loop b (a, push_bit n page_size) m p (int k) = Some (m, p, int k)"
    proof (cases "k = n")
      case True
      then show ?thesis by (subst merge_loop.simps) (simp add: sz del: page_size_def)
    next
      case nn: False
      then have k: "k < n" using "1.prems"(4) by simp
      then have "is_in_use b m ?q \<or> node_area_size m ?q \<noteq> push_bit k page_size" using merge_test [OF h x k] False by blast
      then show ?thesis using nn top by (subst merge_loop.simps) (auto simp: sz gb Let_def simp del: page_size_def)
    qed
    then show ?thesis using sp h x by simp
  qed
qed

section \<open>Release\<close>

lemma full_inv_update:
  "full_inv (b\<lparr>b_lock := l\<rparr>) m F A = full_inv b m F A" "full_inv (b\<lparr>alloc_size := s\<rparr>) m F A = full_inv b m F A"
  "foreign (b\<lparr>b_lock := l\<rparr>) F c = foreign b F c" "foreign (b\<lparr>alloc_size := s\<rparr>) F c = foreign b F c"
  by (simp_all add: full_inv_def inv_b_update areas_ok_def tiled_def infos_ok_def areas_def page_in_def blk_in_def
      ram_lo_def ram_hi_def info_byte_def info_addr_def get_info_index_def foreign_def node_head_def)

lemma info_update:
  "get_info_index (b\<lparr>b_lock := l\<rparr>) p = get_info_index b p" "info_addr (b\<lparr>b_lock := l\<rparr>) i = info_addr b i"
  by (simp_all add: info_addr_def get_info_index_def)

lemma take_back:
  assumes h: "full_inv b m F A" and p: "A p = Some k"
  defines "m1 \<equiv> set_node (record_info b m p (of_nat k) 0 1) p buddy_node_magic (push_bit k page_size) 0 0"
  shows "holding b m1 F (A(p := None)) p k" "foreign b F c \<Longrightarrow> blk_out c p k \<Longrightarrow> m1 c = m c"
proof -
  have d: "buddy_inv b m F" "areas_ok b" "tiled b (blks F A)" "infos_ok b m F A {}" using h by (simp_all add: full_inv_def)
  note g = invD(1) [OF d(1)]
  have pB: "(p, k) \<in> blks F A" using p by (simp add: blks_def)
  have b: "blk_in b p k" "page_in b p" "k \<le> nat (buddy_max_order b)" using full_order(2) [OF h pB] by simp_all
  have pF: "p \<notin> set (F j)" for j using full_order(3) [OF h] p by fastforce
  have B: "blks F (A(p := None)) = blks F A - {(p, k)}" using p pF by (auto simp: blks_def split: if_splits)
  have "buddy_inv b (record_info b m p (of_nat k) 0 1) F"
    by (rule buddy_inv_cong [OF d(1)]) (simp_all add: record_info_node [OF g b(1)])
  then have inv: "buddy_inv b m1 F" unfolding m1_def by (rule set_node_inv [OF _ b(1) pF])
  have "free_blk m1 p k"
    using set_node_rw [OF nodes_ok_space [OF g] blk_in_space [OF b(1)] blk_in_space [OF b(1)]]
    unfolding m1_def by (simp add: free_blk_def del: page_size_def)
  moreover have "blk_disj p k q j" if "q \<in> set (F j)" for q j
    using tiledD(2) [OF d(3) pB, of q j] that pF [of j] by (auto simp: blks_def)
  ultimately have hd: "held b m1 F p k" using b by (simp add: held_def)
  have "m1 (info_byte b x) = m (info_byte b x)" if "page_in b x" "x \<noteq> p" for x
    unfolding m1_def using set_node_infos(1) [OF g that(1) blk_in_space [OF b(1)]] record_info_infos [OF g b(2) that(1)] that(2) by simp
  then have "infos_ok b m1 F (A(p := None)) {p}" by (intro infos_ok_upd [OF d(4), of p]) auto
  then show "holding b m1 F (A(p := None)) p k" using inv hd d(2,3) B pB by (simp add: holding_def insert_absorb)
  show "m1 c = m c" if c: "foreign b F c" "blk_out c p k"
  proof -
    have "node_ok p" using nodes_ok_space [OF g] blk_in_space [OF b(1)] by (auto simp: nodes_ok_def)
    then show ?thesis unfolding m1_def set_node_def
      by (simp add: set_node_byte blk_out_apart [OF c(2)] record_info_byte [OF g b(1) c(1)])
  qed
qed

lemma insert_node_foreign:
  assumes h: "holding b m F A p k" and c: "foreign b F c" "blk_out c p k"
  shows "record_info b (insert_node b m p (int k)) p i j l c = m c" "foreign b (F(k := p # F k)) c"
proof -
  note d = holdingD [OF h]
  have "insert_node b m p (int k) c = m c"
    using foreign_next [OF d(1,10) c(1)] blk_in_space [OF d(8)] head_in_space [OF d(10)] head_not_page [OF d(7,8,10)]
      blk_out_apart [OF c(2)] c(1) d(10)
    by (intro insert_node_byte [OF nodes_ok_space [OF d(7)]]) (auto simp: foreign_def)
  then show "record_info b (insert_node b m p (int k)) p i j l c = m c"
    by (simp add: record_info_byte [OF d(7,8) c(1)])
  show "foreign b (F(k := p # F k)) c" using c unfolding foreign_def by auto
qed

lemma free_pages_case:
  assumes h: "full_inv b m F A" and lock: "\<not> b_lock b" and p: "A p = Some k"
  shows "\<exists>a n m'. (a, n) \<in> areas b \<and> k \<le> n \<and> aligned_in a n p k \<and>
     free_pages b m p = Some (0, b\<lparr>alloc_size := alloc_size b - of_nat (blk_size k)\<rparr>, m') \<and>
     full_inv b m' (free_spec F a n p k) (A(p := None)) \<and>
     (\<forall>c. foreign b F c \<and> blk_out c p k \<longrightarrow> m' c = m c \<and> foreign b (free_spec F a n p k) c)"
proof -
  let ?b0 = "b\<lparr>b_lock := True\<rparr>"
  let ?b = "b\<lparr>b_lock := True, alloc_size := alloc_size b - of_nat (blk_size k)\<rparr>"
  have h': "full_inv ?b m F A" using h by (simp add: full_inv_update)
  have d: "buddy_inv ?b m F" "areas_ok ?b" "tiled ?b (blks F A)" "infos_ok ?b m F A {}" using h' by (simp_all add: full_inv_def)
  note g = invD(1) [OF d(1)]
  have pB: "(p, k) \<in> blks F A" using p by (simp add: blks_def)
  have pb: "blk_in ?b p k" "page_in ?b p" "k \<le> nat (buddy_max_order b)" using full_order(2) [OF h' pB] by simp_all
  have k: "k \<le> 32" "int k \<le> buddy_max_order b" using pb(3) geometry_max [OF g] g by (auto simp: geometry_def)
  obtain a n where x: "(a, n) \<in> areas ?b" "k \<le> n" "aligned_in a n p k" using tiledD(1) [OF d(3) pB] by blast
  have area: "belong_area ?b p = Some (a, push_bit n page_size)"
    by (rule belong_area_eq [OF g d(2) x(1) aligned_blk_in(2) [OF g d(2) x(1,3)]])
  obtain q j F' where ms: "merge_spec F a n p k = (q, j, F')" by (cases "merge_spec F a n p k")
  let ?m1 = "set_node (record_info ?b m p (of_nat k) 0 1) p buddy_node_magic (push_bit k page_size) 0 0"
  note tb = take_back [OF h' p]
  obtain m2 where m2: "merge_loop ?b (a, push_bit n page_size) ?m1 p (int k) = Some (m2, q, int j)"
    "holding ?b m2 F' (A(p := None)) q j"
    "\<And>c. foreign ?b F c \<and> blk_out c p k \<Longrightarrow> m2 c = ?m1 c \<and> foreign ?b F' c \<and> blk_out c q j"
    using merge_loop_refines [OF tb(1) x(1,3,2)] ms by auto
  let ?m3 = "record_info ?b (insert_node ?b m2 q (int j)) q (of_nat j) 0 1"
  have fs: "free_spec F a n p k = F'(j := q # F' j)" by (simp add: free_spec_def ms)
  have nz: "p \<noteq> 0" using pb(2) g by (auto simp: page_in_def geometry_def ram_lo_def)
  have al: "is_page_align p" using pb(2) by (simp add: is_page_align_iff page_in_def)
  have ix: "get_info_index b p < infos_size b"
    using unat_info_byte(1,3) [OF g, of p] pb(2) by (auto simp: page_in_def get_info_index_def)
  have ib: "m (info_addr b (get_info_index b p)) = mk_info (of_nat k) 1 1"
    using infos_okD(2) [OF d(4) pb(2) _ p] by (simp add: info_byte_def info_addr_def get_info_index_def)
  have ord: "uint (info_order (mk_info (of_nat k) 1 1)) = int k"
    using k(1) by (simp add: mk_info_fields of_nat_order uint_nat unat_of_nat)
  have rec: "m(info_addr b (get_info_index b p) := mk_info (of_nat k) 1 1 AND - 129) = record_info ?b m p (of_nat k) 0 1"
    using mk_info_fields(5) [of "of_nat k"] by (simp add: record_info_def info_addr_def get_info_index_def)
  have sz: "2 ^ k * page_size = (of_nat (blk_size k) :: u64)" by (simp add: blk_size_def)
  have run: "free_pages b m p = Some (0, b\<lparr>alloc_size := alloc_size b - of_nat (blk_size k)\<rparr>, ?m3)"
    using nz al area m2(1) lock k(2) mk_info_fields(1,3) unfolding free_pages_def
    by (simp add: acquire_release(1) info_update Let_def release_def ix ib ord rec sz del: page_size_def)
  have "full_inv ?b ?m3 (free_spec F a n p k) (A(p := None))" unfolding fs by (rule put_back [OF m2(2)])
  then have inv: "full_inv b ?m3 (free_spec F a n p k) (A(p := None))" by (simp add: full_inv_update)
  have frame: "?m3 c = m c \<and> foreign b (free_spec F a n p k) c" if "foreign b F c \<and> blk_out c p k" for c
  proof -
    have c: "foreign ?b F c" "blk_out c p k" using that by (simp_all add: full_inv_update)
    have "m2 c = ?m1 c" "foreign ?b F' c" "blk_out c q j" using m2(3) c by blast+
    with insert_node_foreign [OF m2(2)] tb(2) [OF c] show ?thesis unfolding fs by (simp add: full_inv_update)
  qed
  have "(a, n) \<in> areas b" using x(1) by (simp add: areas_def)
  then show ?thesis using x run inv frame by blast
qed

section \<open>Allocation\<close>

lemma split_loop_holding:
  "holding b m F A p i \<Longrightarrow> k \<le> i \<Longrightarrow> holding b (split_loop b m p (int i) (int k)) (carve F p i k) A p k"
proof (induction i arbitrary: m F)
  case 0
  then show ?case by (subst split_loop.simps) simp
next
  case (Suc i)
  show ?case
  proof (cases "k \<le> i")
    case True
    have "split_loop b m p (int (Suc i)) (int k) = split_loop b (snd (split_node b m (int (Suc i)) p)) p (int i) (int k)"
      using True by (subst split_loop.simps) simp
    moreover have "carve F p (Suc i) k = carve (F(i := upper_half p i # F i)) p i k" using True by simp
    ultimately show ?thesis using Suc.IH [OF split_node_holding [OF Suc.prems(1)] True] by (simp only:)
  next
    case False
    with Suc.prems show ?thesis by (subst split_loop.simps) (auto simp: le_Suc_eq)
  qed
qed

lemma alloc_pages_full:
  assumes h: "full_inv b m F A" and lock: "\<not> b_lock b"
    and count: "count \<noteq> 0" "order_of count = Some k" and sp: "alloc_spec F (nat (buddy_max_order b)) k = Some (p, F')"
  shows "\<exists>m'. alloc_pages b m count = Some (p, b\<lparr>alloc_size := alloc_size b + of_nat (blk_size k)\<rparr>, m') \<and>
     full_inv b m' F' (A(p \<mapsto> k)) \<and> A p = None"
proof -
  let ?b = "b\<lparr>b_lock := True\<rparr>"
  have h': "full_inv ?b m F A" using h by (simp add: full_inv_update)
  have inv: "buddy_inv b m F" using h by (simp add: full_inv_def)
  obtain i where i: "find (\<lambda>i. F i \<noteq> []) [k..<Suc (nat (buddy_max_order b))] = Some i"
    "p = hd (F i)" "F' = carve (F(i := tl (F i))) (hd (F i)) i k"
    using sp by (auto simp: alloc_spec_def split: option.splits)
  then have ki: "k \<le> i" "F i \<noteq> []" by (auto simp: find_Some_iff nth_append split: if_splits)
  then obtain ps where F: "F i = p # ps" using i(2) by (cases "F i") auto
  have "holding ?b (split_loop ?b (remove_node m p) p (int i) (int k)) F' A p k"
    using split_loop_holding [OF pop_node_holding [OF h' F] ki(1)] i(3) F by simp
  from hand_out [OF this] alloc_pages_run [OF inv lock count i(1) F] full_order(3) [OF h, of p i] F
  show ?thesis by (auto simp: full_inv_update)
qed

section \<open>Construction\<close>

definition desc_of :: "u64 \<Rightarrow> nat \<Rightarrow> nat \<Rightarrow> (u64 \<times> u64) list" where
  "desc_of start pg n = map (\<lambda>k. (start + of_nat (4096 * (pg mod 2 ^ k)), push_bit k page_size)) (filter (bit pg) [0..<n])"

lemma desc_of_Suc:
  "desc_of s pg (Suc n) = desc_of s pg n @ (if bit pg n then [(s + of_nat (4096 * (pg mod 2 ^ n)), push_bit n page_size)] else [])"
  by (simp add: desc_of_def del: page_size_def)

definition built :: "buddy \<Rightarrow> nat \<Rightarrow> nat \<Rightarrow> (buddy \<times> mem \<times> u64) \<Rightarrow> bool" where
  "built b0 pg n st \<longleftrightarrow> (case st of (b, m, area) \<Rightarrow>
     area_desc b = desc_of (b_mem_addr b0) pg n \<and> infos_ok b m (init_free (b_mem_addr b0) pg n) Map.empty {})"

lemma init_area_built:
  assumes pg: "pg = unat (b_mem_size b0) div 4096" "pg < 2 ^ 33"
    and st: "constructing b0 pg k st" "built b0 pg k st" and st': "init_area k st = Some st'"
  shows "built b0 pg (Suc k) st'"
proof -
  obtain b m area where S: "st = (b, m, area)" by (cases st)
  let ?F = "init_free (b_mem_addr b0) pg k" and ?F' = "init_free (b_mem_addr b0) pg (Suc k)"
  have c: "b = b0\<lparr>buddy_max_order := buddy_max_order b, area_desc := area_desc b\<rparr>"
    "area = b_mem_addr b0 + of_nat (4096 * (pg mod 2 ^ k))" "buddy_inv b m ?F"
    using st(1) unfolding S constructing_def by auto
  have bu: "area_desc b = desc_of (b_mem_addr b0) pg k" "infos_ok b m ?F Map.empty {}"
    using st(2) unfolding S built_def by auto
  have sz: "b_mem_size b = b_mem_size b0" "b_mem_addr b = b_mem_addr b0" by (subst c(1), simp)+
  note g = invD(1) [OF c(3)]
  have ud: "unat (b_mem_size b div page_size) = pg" by (simp add: pg(1) sz unat_div)
  have bt: "bit (b_mem_size b div page_size) k \<longleftrightarrow> bit pg k"
    unfolding ud [symmetric] bit_unsigned_iff by (simp add: bit_imp_possible_bit)
  show ?thesis
  proof (cases "bit pg k")
    case False
    then have "?F' = ?F" "st' = st" using st' bt by (simp_all add: init_free_Suc S init_area_def)
    then show ?thesis using bu False by (simp add: built_def S desc_of_Suc)
  next
    case True
    have k: "k \<le> 32" using bit_lt_33 [OF pg(2) True] .
    note blk = init_area_blk [OF g _ True, unfolded sz, OF pg(1), folded c(2)]
    note dj = init_free_disj [OF g _ True, unfolded sz, OF pg(1), folded c(2)]
    have nF: "area \<notin> set (?F j)" for j using dj blk_disj_neq by blast
    let ?m1 = "set_node m area buddy_node_magic (push_bit k page_size) 0 0"
    let ?m3 = "record_info b (insert_node b ?m1 area (int k)) area (of_nat k) 0 1"
    have st2: "\<exists>a. st' = (b\<lparr>buddy_max_order := int k, area_desc := area_desc b @ [(area, push_bit k page_size)]\<rparr>, ?m3, a)"
      using st' True bt unfolding S init_area_def by (auto simp: Let_def split: if_splits simp del: page_size_def)
    have inv1: "buddy_inv b ?m1 ?F" by (rule set_node_inv [OF c(3) blk(2) nF])
    have F': "x \<in> set (?F' j) \<longleftrightarrow> x \<in> set (?F j) \<or> x = area \<and> j = k" for x j
      using True by (auto simp: init_free_Suc c(2))
    have ib: "?m3 (info_byte b x) = (if x = area then mk_info (of_nat k) 0 1 else m (info_byte b x))" if x: "page_in b x" for x
      using record_info_infos [OF g blk_page [OF blk(2)] x] insert_node_infos [OF inv1 k blk(2) x]
        set_node_infos(1) [OF g x blk_in_space [OF blk(2)]] by simp
    have "infos_ok b ?m3 ?F' Map.empty {}"
      using F' nF ib [OF blk_page [OF blk(2)]] by (intro infos_ok_upd [OF bu(2), of area]) (auto simp: ib simp del: page_size_def)
    then have "infos_ok (b\<lparr>buddy_max_order := int k, area_desc := ds\<rparr>) ?m3 ?F' Map.empty {}" for ds
      by (simp add: infos_ok_def page_in_def ram_lo_def ram_hi_def info_byte_def info_addr_def get_info_index_def)
    then show ?thesis using st2 bu(1) True c(2) by (auto simp: built_def desc_of_Suc simp del: page_size_def)
  qed
qed

lemma init_areas_built:
  assumes pg: "pg = unat (b_mem_size b0) div 4096" "pg < 2 ^ 33"
    and st: "constructing b0 pg 0 st" "built b0 pg 0 st" and st': "init_areas [0..<n] st = Some st'"
  shows "built b0 pg n st'"
  using st'
proof (induction n arbitrary: st')
  case 0
  then show ?case using st(2) by simp
next
  case (Suc n)
  obtain st1 where st1: "init_areas [0..<n] st = Some st1" "init_area n st1 = Some st'"
    using Suc.prems by (auto simp: init_areas_snoc elim: bind_eq_SomeE)
  obtain st2 where "init_areas [0..<n] st = Some st2" "constructing b0 pg n st2"
    using init_areas_inv [OF pg st(1)] .
  then have "constructing b0 pg n st1" using st1(1) by simp
  then show ?case by (rule init_area_built [OF pg _ Suc.IH [OF st1(1)] st1(2)])
qed

lemma reset_nodes_infos:
  assumes g: "geometry b" and x: "page_in b x"
  shows "n \<le> 33 \<Longrightarrow> reset_nodes b m n (info_byte b x) = m (info_byte b x)"
proof (induction n)
  case (Suc n)
  then show ?case using set_node_infos(1) [OF g x head_in_space, of n] by (simp add: Let_def)
qed simp

lemma areas_built:
  assumes inv: "buddy_inv b m (init_free s pg 64)" and d: "area_desc b = desc_of s pg 64"
  shows "areas b = blks (init_free s pg 64) Map.empty" "areas_ok b"
proof -
  have mem: "(p, z) \<in> set (area_desc b) \<longleftrightarrow> (\<exists>k. p \<in> set (init_free s pg 64 k) \<and> z = push_bit k page_size)" for p z
    unfolding d desc_of_def init_free_def by (auto simp del: page_size_def)
  have k32: "k \<le> 32" if "p \<in> set (init_free s pg 64 k)" for p k by (rule invD(6) [OF inv that])
  have "(a, n) \<in> areas b \<longleftrightarrow> a \<in> set (init_free s pg 64 n)" for a n
    unfolding areas_def mem using k32 [of a] blk_order_inj [of n] by auto
  then show ar: "areas b = blks (init_free s pg 64) Map.empty" by (auto simp: blks_def)
  show "areas_ok b"
    unfolding areas_ok_def ar
  proof (intro conjI ballI impI)
    fix e
    assume "e \<in> set (area_desc b)"
    then obtain k where k: "fst e \<in> set (init_free s pg 64 k)" "snd e = push_bit k page_size"
      using mem [of "fst e" "snd e"] by auto
    then show "\<exists>n \<le> nat (buddy_max_order b). snd e = push_bit n page_size \<and> blk_in b (fst e) n"
      using invD(4,9) [OF inv k(1)] by blast
  next
    fix x y
    assume "x \<in> blks (init_free s pg 64) Map.empty" "y \<in> blks (init_free s pg 64) Map.empty" "x \<noteq> y"
    then show "blk_disj (fst x) (snd x) (fst y) (snd y)"
      using invD(7) [OF inv] by (cases x; cases y) (auto simp: blks_def)
  qed
qed

lemma binary_cover: "(r::nat) < pg mod 2 ^ n \<Longrightarrow> \<exists>k < n. bit pg k \<and> pg mod 2 ^ k \<le> r \<and> r < pg mod 2 ^ k + 2 ^ k"
proof (induction n)
  case (Suc n)
  show ?case
  proof (cases "r < pg mod 2 ^ n")
    case True
    then show ?thesis using Suc.IH by (metis less_Suc_eq)
  next
    case False
    then have "bit pg n" "r < pg mod 2 ^ n + 2 ^ n" using Suc.prems by (simp_all only: mod_2_Suc split: if_splits)
    then show ?thesis using False by (intro exI [of _ n]) simp
  qed
qed simp

lemma constructed_tiled:
  assumes inv: "buddy_inv b m (init_free (b_mem_addr b) pg 64)" and d: "area_desc b = desc_of (b_mem_addr b) pg 64"
    and pg: "pg = unat (b_mem_size b) div 4096"
  shows "tiled b (blks (init_free (b_mem_addr b) pg 64) Map.empty)"
proof -
  let ?F = "init_free (b_mem_addr b) pg 64"
  note ar = areas_built [OF inv d]
  note g = invD(1) [OF inv]
  show ?thesis unfolding tiled_def
  proof (intro conjI ballI allI impI)
    show "case e of (p, k) \<Rightarrow> \<exists>(a, n) \<in> areas b. k \<le> n \<and> aligned_in a n p k" if "e \<in> blks ?F Map.empty" for e
      using that unfolding ar(1) by (cases e) (auto simp: aligned_in_def intro!: bexI)
    show "blk_disj (fst x) (snd x) (fst y) (snd y)" if "x \<in> blks ?F Map.empty" "y \<in> blks ?F Map.empty" "x \<noteq> y" for x y
      using that ar(2) unfolding areas_ok_def ar(1) by blast
    show "\<exists>(p, k) \<in> blks ?F Map.empty. in_blk x p k" if x: "page_in b x" for x
    proof -
      let ?r = "(unat x - ram_lo b) div 4096"
      have "unat (b_mem_size b) mod 4096 = 0" "unat x mod 4096 = 0" "ram_lo b mod 4096 = 0" "ram_lo b \<le> unat x" "unat x < ram_hi b"
        using g x by (auto simp: geometry_def page_in_def ram_lo_def)
      then have r: "unat x = ram_lo b + 4096 * ?r" "?r < pg"
        using pg by (auto simp: ram_hi_def ram_lo_def elim!: dvdE simp: mod_eq_0_iff_dvd)
      have "pg \<le> unat (b_mem_size b)" using pg by simp
      then have "pg < 2 ^ 64" using unat_less_2p [of "b_mem_size b"] by linarith
      then have "?r < pg mod 2 ^ 64" using r(2) by simp
      then obtain k where k: "k < 64" "bit pg k" "pg mod 2 ^ k \<le> ?r" "?r < pg mod 2 ^ k + 2 ^ k"
        using binary_cover by blast
      let ?p = "b_mem_addr b + of_nat (4096 * (pg mod 2 ^ k))"
      have "(?p, k) \<in> blks ?F Map.empty" using k(1,2) by (simp add: blks_def init_free_def)
      moreover have "in_blk x ?p k"
        unfolding in_blk_def init_area_blk(1) [OF g pg k(2)] using r(1) k(3,4) by (simp add: blk_size_def)
      ultimately show ?thesis by blast
    qed
  qed
qed

lemma BuddyAllocator_full:
  assumes al: "unat start mod 4096 = 0" "unat sz mod 4096 = 0"
    and rg: "0 < unat start" "unat start + unat sz < 2 ^ 64" "64 * 4096 \<le> unat sz" "unat sz \<le> 2 ^ 44"
    and nd: "unat nodes mod 8 = 0" "unat nodes + 33 * 32 \<le> 2 ^ 64"
      "unat nodes + 33 * 32 \<le> unat start \<or> unat start + unat sz \<le> unat nodes"
  shows "\<exists>b m'. BuddyAllocator nodes m start sz = Some (b, m') \<and>
     full_inv b m' (init_free start (unat (b_mem_size b) div 4096) 64) Map.empty \<and>
     \<not> b_lock b \<and> b_mem_addr b = start \<and> alloc_size b = 0 \<and>
     unat (b_mem_size b) = unat sz - (unat sz div 4096 + 4095) div 4096 * 4096"
proof -
  let ?b0 = "fresh_buddy nodes start sz" and ?isz = "page_round_up (sz div page_size)"
  let ?pg = "unat (b_mem_size ?b0) div 4096"
  let ?m0 = "memset m (alloc_infos ?b0) 0 ?isz"
  let ?m1 = "reset_nodes ?b0 ?m0 33"
  obtain b m' area where r: "geometry ?b0" "?pg < 2 ^ 33" "constructing ?b0 ?pg 0 (?b0, ?m1, start)"
    "init_areas [0..<64] (?b0, ?m1, start) = Some (b, m', area)" "constructing ?b0 ?pg 64 (b, m', area)"
    "BuddyAllocator nodes m start sz = Some (b, m')"
    "unat (b_mem_size ?b0) = unat sz - (unat sz div 4096 + 4095) div 4096 * 4096"
    "int (unat ?isz) = infos_size ?b0"
    by (rule BuddyAllocator_run [OF assms])
  have f: "b_mem_addr ?b0 = start" "\<not> b_lock ?b0" "alloc_size ?b0 = 0" "area_desc ?b0 = []"
    by (simp_all add: fresh_buddy_def Let_def)
  have bb: "b = ?b0\<lparr>buddy_max_order := buddy_max_order b, area_desc := area_desc b\<rparr>"
    and inv: "buddy_inv b m' (init_free start ?pg 64)"
    using r(5) f(1) by (simp_all add: constructing_def)
  have bs: "b_mem_size b = b_mem_size ?b0" "\<not> b_lock b" "b_mem_addr b = start" "alloc_size b = 0"
    by (subst bb, simp add: f)+
  have "?m1 (info_byte ?b0 x) = 0" if x: "page_in ?b0 x" for x
  proof -
    have "unat (info_byte ?b0 x) = ram_hi ?b0 + (unat x - ram_lo ?b0) div 4096" "(unat x - ram_lo ?b0) div 4096 < unat ?isz"
      using unat_info_byte(2,3) [OF r(1), of x] x r(8) unfolding page_in_def by linarith+
    moreover have "ram_hi ?b0 < 2 ^ 64" using r(1) unfolding geometry_def by linarith
    then have "unat (alloc_infos ?b0) = ram_hi ?b0" using r(1) by (simp add: geometry_def ram_hi_def unat_word_ariths)
    ultimately have "info_byte ?b0 x - alloc_infos ?b0 < ?isz" by (simp add: word_less_nat_alt unat_sub_if' del: page_size_def)
    then have "?m0 (info_byte ?b0 x) = 0" by (simp add: memset_range del: page_size_def)
    then show ?thesis using reset_nodes_infos [OF r(1) x, of 33] by simp
  qed
  then have "built ?b0 ?pg 0 (?b0, ?m1, start)"
    by (simp add: built_def f infos_ok_def init_free_def desc_of_def)
  from init_areas_built [OF refl r(2,3) this r(4)]
  have bu: "area_desc b = desc_of start ?pg 64" "infos_ok b m' (init_free start ?pg 64) Map.empty {}"
    by (simp_all add: built_def f)
  have "full_inv b m' (init_free start ?pg 64) Map.empty"
    unfolding full_inv_def using inv bu(2) areas_built(2) [OF inv bu(1)] constructed_tiled [of b m' ?pg, unfolded bs(1,3), OF inv bu(1) refl]
    by blast
  then show ?thesis using r(6,7) bs by simp
qed

section \<open>Sequences of requests\<close>

datatype request = Alloc u64 | Release u64

fun serve :: "request \<Rightarrow> buddy \<times> mem \<Rightarrow> (buddy \<times> mem) option" where
  "serve (Alloc count) (b, m) = map_option snd (alloc_pages b m count)"
| "serve (Release p) (b, m) = map_option snd (free_pages b m p)"

fun serve_all :: "request list \<Rightarrow> buddy \<times> mem \<Rightarrow> (buddy \<times> mem) option" where
  "serve_all [] st = Some st"
| "serve_all (r # rs) st = do { st \<leftarrow> serve r st; serve_all rs st }"

text \<open>Counts above \<open>2 ^ 31\<close> have no order; any pointer of the range may be released, handed out or not.\<close>

fun request_ok :: "buddy \<Rightarrow> request \<Rightarrow> bool" where
  "request_ok b (Alloc count) \<longleftrightarrow> unat count \<le> 2 ^ 31"
| "request_ok b (Release p) \<longleftrightarrow> p = 0 \<or> ram_lo b \<le> unat p \<and> unat p < ram_hi b"

definition handed_bytes :: "handed_out \<Rightarrow> nat" where
  "handed_bytes A = (\<Sum>p \<in> dom A. blk_size (the (A p)))"

definition accounted :: "buddy \<Rightarrow> mem \<Rightarrow> free_lists \<Rightarrow> handed_out \<Rightarrow> bool" where
  "accounted b m F A \<longleftrightarrow> full_inv b m F A \<and> \<not> b_lock b \<and> finite (dom A) \<and> alloc_size b = of_nat (handed_bytes A)"

lemma handed_bytes_upd:
  assumes "finite (dom A)"
  shows "A p = None \<Longrightarrow> handed_bytes (A(p \<mapsto> k)) = handed_bytes A + blk_size k"
    "A p = Some k \<Longrightarrow> handed_bytes A = handed_bytes (A(p := None)) + blk_size k"
proof -
  have eq: "(\<Sum>q \<in> D. blk_size (the ((A(p := v)) q))) = (\<Sum>q \<in> D. blk_size (the (A q)))" if "p \<notin> D" for v D
    using that by (intro sum.cong) auto
  show "handed_bytes (A(p \<mapsto> k)) = handed_bytes A + blk_size k" if "A p = None"
    using assms that eq [of "dom A" "Some k"] unfolding handed_bytes_def by (auto simp: domIff)
  show "handed_bytes A = handed_bytes (A(p := None)) + blk_size k" if p: "A p = Some k"
    using assms p eq [of "dom A - {p}" None] sum.remove [of "dom A" p "\<lambda>q. blk_size (the (A q))"]
    unfolding handed_bytes_def by (auto simp: domIff)
qed

lemma alloc_accounted:
  assumes h: "accounted b m F A" and c: "unat count \<le> 2 ^ 31"
  shows "\<exists>p b' m' F' A'. alloc_pages b m count = Some (p, b', m') \<and> accounted b' m' F' A' \<and> b' = b\<lparr>alloc_size := alloc_size b'\<rparr>"
proof (cases "count = 0")
  case True
  then show ?thesis using h by (auto simp: alloc_pages_def)
next
  case False
  have d: "full_inv b m F A" "\<not> b_lock b" "finite (dom A)" "alloc_size b = of_nat (handed_bytes A)"
    using h by (simp_all add: accounted_def)
  have inv: "buddy_inv b m F" using d(1) by (simp add: full_inv_def)
  obtain k where k: "order_of count = Some k" using order_loop_None [of count 0] c by (cases "order_of count") (auto simp: order_of_def)
  show ?thesis
  proof (cases "alloc_spec F (nat (buddy_max_order b)) k")
    case None
    then have "alloc_pages b m count = Some (0, b, m)" using alloc_pages_case [OF inv d(2) False k] by simp
    then show ?thesis using h by auto
  next
    case (Some r)
    obtain p F' where r: "r = (p, F')" by (cases r)
    obtain m' where m': "alloc_pages b m count = Some (p, b\<lparr>alloc_size := alloc_size b + of_nat (blk_size k)\<rparr>, m')"
      "full_inv b m' F' (A(p \<mapsto> k))" "A p = None"
      using alloc_pages_full [OF d(1,2) False k Some [unfolded r]] by blast
    have "accounted (b\<lparr>alloc_size := alloc_size b + of_nat (blk_size k)\<rparr>) m' F' (A(p \<mapsto> k))"
      using m'(2,3) d handed_bytes_upd(1) [OF d(3) m'(3)] by (simp add: accounted_def full_inv_update)
    then show ?thesis using m'(1) by fastforce
  qed
qed

lemma release_accounted:
  assumes h: "accounted b m F A" and p: "p = 0 \<or> ram_lo b \<le> unat p \<and> unat p < ram_hi b"
  shows "\<exists>r b' m' F' A'. free_pages b m p = Some (r, b', m') \<and> - 3 \<le> r \<and> r \<le> 0 \<and>
     (r < 0 \<longrightarrow> A p = None \<and> m' = m \<and> b' = b) \<and> accounted b' m' F' A' \<and> b' = b\<lparr>alloc_size := alloc_size b'\<rparr>"
proof -
  have d: "full_inv b m F A" "\<not> b_lock b" "finite (dom A)" "alloc_size b = of_nat (handed_bytes A)"
    using h by (simp_all add: accounted_def)
  have i: "buddy_inv b m F" "infos_ok b m F A {}" using d(1) by (simp_all add: full_inv_def)
  note g = invD(1) [OF i(1)]
  have none: "A p = None" if "\<not> page_in b p" using full_order(2) [OF d(1), of p] that by (cases "A p") (auto simp: blks_def)
  have same: ?thesis if "free_pages b m p = Some (r, b, m)" "- 3 \<le> r" "r \<le> 0" "A p = None" for r using that h by force
  show ?thesis
  proof (cases "p = 0")
    case True
    then have "\<not> page_in b p" using g by (auto simp: page_in_def geometry_def ram_lo_def)
    then show ?thesis using same [of "- 1"] none True by (simp add: free_pages_def)
  next
    case nz: False
    then have rg: "ram_lo b \<le> unat p" "unat p < ram_hi b" using p by simp_all
    have ix: "get_info_index b p < infos_size b" using unat_info_byte(1,3) [OF g rg] by linarith
    note rej = free_pages_rejected [OF d(2) ix, of m]
    show ?thesis
    proof (cases "page_in b p")
      case False
      then have "unat p mod 4096 \<noteq> 0" using rg by (simp add: page_in_def)
      then show ?thesis using same [of "- 2"] none [OF False] rej nz by simp
    next
      case pg: True
      then have al: "unat p mod 4096 = 0" by (simp add: page_in_def)
      consider (out) k where "A p = Some k" | (free) k where "A p = None" "p \<in> set (F k)" | (mid) "A p = None" "\<And>k. p \<notin> set (F k)"
        by (cases "A p") auto
      then show ?thesis
      proof cases
        case out
        obtain a n m' where m': "free_pages b m p = Some (0, b\<lparr>alloc_size := alloc_size b - of_nat (blk_size k)\<rparr>, m')"
          "full_inv b m' (free_spec F a n p k) (A(p := None))"
          using free_pages_case [OF d(1,2) out] by blast
        have "accounted (b\<lparr>alloc_size := alloc_size b - of_nat (blk_size k)\<rparr>) m' (free_spec F a n p k) (A(p := None))"
          using m'(2) d handed_bytes_upd(2) [OF d(3) out] by (simp add: accounted_def full_inv_update)
        then show ?thesis using m'(1) by fastforce
      next
        case free
        then show ?thesis
          using same [of "- 3"] rej nz al infos_okD(1) [OF i(2) pg _ free(2)] by (simp add: mk_info_fields)
      next
        case mid
        then have "m (info_byte b p) = 0" using infos_okD(3) [OF i(2) pg] by (simp add: blks_def)
        then show ?thesis using same [of 0] rej nz al mid by (simp add: info_area_flag_def)
      qed
    qed
  qed
qed

lemma serve_accounted:
  assumes "accounted b m F A" "request_ok b r"
  shows "\<exists>b' m' F' A'. serve r (b, m) = Some (b', m') \<and> accounted b' m' F' A' \<and> b' = b\<lparr>alloc_size := alloc_size b'\<rparr>"
  using assms alloc_accounted release_accounted by (cases r) fastforce+

lemma request_ok_update: "request_ok (b\<lparr>alloc_size := s\<rparr>) r = request_ok b r"
  by (cases r) (simp_all add: ram_lo_def ram_hi_def)

lemma serve_all_accounted:
  "accounted b m F A \<Longrightarrow> list_all (request_ok b) rs \<Longrightarrow>
   \<exists>b' m' F' A'. serve_all rs (b, m) = Some (b', m') \<and> accounted b' m' F' A' \<and> b' = b\<lparr>alloc_size := alloc_size b'\<rparr>"
proof (induction rs arbitrary: b m F A)
  case Nil
  then show ?case by force
next
  case (Cons r rs)
  obtain b1 m1 F1 A1 where s: "serve r (b, m) = Some (b1, m1)" "accounted b1 m1 F1 A1" "b1 = b\<lparr>alloc_size := alloc_size b1\<rparr>"
    using serve_accounted [OF Cons.prems(1), of r] Cons.prems(2) unfolding list.pred_inject by blast
  have "request_ok b1 = request_ok b" by (rule ext) (subst s(3), rule request_ok_update)
  then have "list_all (request_ok b1) rs" using Cons.prems(2) by simp
  from Cons.IH [OF s(2) this] obtain b2 m2 F2 A2
    where "serve_all rs (b1, m1) = Some (b2, m2)" "accounted b2 m2 F2 A2" "b2 = b1\<lparr>alloc_size := alloc_size b2\<rparr>" by blast
  moreover have "b1\<lparr>alloc_size := x\<rparr> = b\<lparr>alloc_size := x\<rparr>" for x by (subst s(3)) simp
  ultimately show ?case using s(1) by auto
qed

section \<open>Properties\<close>

text \<open>
  C3: releasing a block that is handed out succeeds and refines its abstract specification: the
  merging loop ends, the block is joined with its buddy as long as that is a free block of the same
  order and stays below the size of its area, the result is put on the list of its order, the block is no
  longer handed out, the full invariant holds (free and handed out blocks tile the range and
  every info byte says what its page is), the byte count goes down by the size of the
  block, and no byte outside the block, the free blocks, the list heads and the info bytes
  changes.
\<close>

theorem free_pages_refines:
  assumes "full_inv b m F A" "\<not> b_lock b" "A p = Some k"
  shows "\<exists>a n m'. (a, n) \<in> areas b \<and> k \<le> n \<and> aligned_in a n p k \<and>
     free_pages b m p = Some (0, b\<lparr>alloc_size := alloc_size b - of_nat (blk_size k)\<rparr>, m') \<and>
     full_inv b m' (free_spec F a n p k) (A(p := None)) \<and>
     (\<forall>c. foreign b F c \<and> blk_out c p k \<longrightarrow> m' c = m c \<and> foreign b (free_spec F a n p k) c)"
  by (rule free_pages_case [OF assms])

lemma small_range:
  obtains b m where "BuddyAllocator 0x80200000 (\<lambda>_. 0) 0x80300000 0x40000 = Some (b, m)"
    "full_inv b m (init_free 0x80300000 63 64) Map.empty" "\<not> b_lock b" "alloc_size b = 0"
    "ram_lo b = 0x80300000" "ram_hi b = 0x8033f000"
  using BuddyAllocator_full [of "0x80300000" "0x40000" "0x80200000" "\<lambda>_. 0"]
  by (auto simp: ram_lo_def ram_hi_def)

lemma small_alloc:
  obtains b m b1 m1 F where "full_inv b m (init_free 0x80300000 63 64) Map.empty" "\<not> b_lock b"
    "alloc_pages b m 2 = Some (0x80301000, b1, m1)" "b1 = b\<lparr>alloc_size := 0x2000\<rparr>"
    "full_inv b1 m1 F [0x80301000 \<mapsto> 1]" "\<not> b_lock b1"
proof -
  obtain b m where b: "full_inv b m (init_free 0x80300000 63 64) Map.empty" "\<not> b_lock b" "alloc_size b = 0"
    by (rule small_range)
  let ?F = "init_free 0x80300000 63 64"
  have o: "order_of 2 = Some 1"
    unfolding order_of_def by (subst order_loop.simps, simp add: word_le_nat_alt)+
  have F1: "?F 1 = [0x80301000]" by (simp add: init_free_def bit_iff_odd)
  have "1 \<le> nat (buddy_max_order b)" using full_order(2) [OF b(1), of "0x80301000" 1] F1 by (simp add: blks_def)
  then have "[1..<Suc (nat (buddy_max_order b))] = 1 # [2..<Suc (nat (buddy_max_order b))]"
    by (simp add: upt_rec numeral_2_eq_2)
  then have sp: "alloc_spec ?F (nat (buddy_max_order b)) 1 = Some (0x80301000, carve (?F(1 := [])) 0x80301000 1 1)"
    using F1 by (simp add: alloc_spec_def del: upt_Suc)
  obtain m1 where m1: "alloc_pages b m 2 = Some (0x80301000, b\<lparr>alloc_size := 0x2000\<rparr>, m1)"
    "full_inv b m1 (carve (?F(1 := [])) 0x80301000 1 1) [0x80301000 \<mapsto> 1]"
    using alloc_pages_full [OF b(1,2) _ o sp] b(3) by (auto simp: blk_size_def)
  show ?thesis by (rule that [OF b(1,2) m1(1) refl]) (use m1(2) b(2) in \<open>simp_all add: full_inv_update\<close>)
qed

theorem free_pages_refines_witness:
  "\<exists>b m b1 m1 b2 m2 F. alloc_pages b m 2 = Some (0x80301000, b1, m1) \<and> alloc_size b1 = 0x2000 \<and>
     free_pages b1 m1 0x80301000 = Some (0, b2, m2) \<and> alloc_size b2 = 0 \<and> full_inv b2 m2 F Map.empty"
proof -
  obtain b m b1 m1 F where s: "full_inv b m (init_free 0x80300000 63 64) Map.empty" "\<not> b_lock b"
    "alloc_pages b m 2 = Some (0x80301000, b1, m1)" "b1 = b\<lparr>alloc_size := 0x2000\<rparr>"
    "full_inv b1 m1 F [0x80301000 \<mapsto> 1]" "\<not> b_lock b1"
    by (rule small_alloc)
  obtain m2 F2 where f: "free_pages b1 m1 0x80301000 = Some (0, b1\<lparr>alloc_size := alloc_size b1 - of_nat (blk_size 1)\<rparr>, m2)"
    "full_inv b1 m2 F2 Map.empty"
    using free_pages_refines [OF s(5,6), of "0x80301000" 1] by auto
  have "alloc_size b1 = 0x2000" "(of_nat (blk_size 1) :: u64) = 0x2000" using s(4) by (simp_all add: blk_size_def)
  then have f1: "free_pages b1 m1 0x80301000 = Some (0, b1\<lparr>alloc_size := 0\<rparr>, m2)" using f(1) by simp
  have "full_inv (b1\<lparr>alloc_size := 0\<rparr>) m2 F2 Map.empty" using f(2) by (simp add: full_inv_update)
  with s(3) f1 \<open>alloc_size b1 = 0x2000\<close> show ?thesis by fastforce
qed

text \<open>
  C22: in any state of the full invariant a release ends with a result, also for a pointer that
  was never handed out: for the null pointer and for every address of the range it returns 0
  or a negative code down to -3, leaves the lock free and the accounting right, and a
  negative code means that nothing changed and no block was handed out there.
\<close>

theorem free_pages_total:
  assumes "accounted b m F A" "p = 0 \<or> ram_lo b \<le> unat p \<and> unat p < ram_hi b"
  shows "\<exists>r b' m' F' A'. free_pages b m p = Some (r, b', m') \<and> - 3 \<le> r \<and> r \<le> 0 \<and>
     (r < 0 \<longrightarrow> A p = None \<and> m' = m \<and> b' = b) \<and> accounted b' m' F' A' \<and> b' = b\<lparr>alloc_size := alloc_size b'\<rparr>"
  by (rule release_accounted [OF assms])

theorem free_pages_total_witness:
  "\<exists>b m r b' m'. BuddyAllocator 0x80200000 (\<lambda>_. 0) 0x80300000 0x40000 = Some (b, m) \<and>
     free_pages b m 0x80302abc = Some (r, b', m') \<and> - 3 \<le> r \<and> r \<le> 0 \<and> \<not> b_lock b'"
proof -
  obtain b m where b: "BuddyAllocator 0x80200000 (\<lambda>_. 0) 0x80300000 0x40000 = Some (b, m)"
    "full_inv b m (init_free 0x80300000 63 64) Map.empty" "\<not> b_lock b" "alloc_size b = 0"
    "ram_lo b = 0x80300000" "ram_hi b = 0x8033f000"
    by (rule small_range)
  then have "accounted b m (init_free 0x80300000 63 64) Map.empty" by (simp add: accounted_def handed_bytes_def)
  from free_pages_total [OF this, of "0x80302abc"] b show ?thesis by (fastforce simp: accounted_def)
qed

text \<open>
  C5: from construction on, every sequence of allocations (of up to \<open>2 ^ 31\<close> pages) and releases (of
  any address of the range, handed out or not, in any order and repeated) is served without a failed
  assertion or an endless loop, and afterwards the free blocks and the blocks handed out tile the range,
  and the byte count is the total size of the blocks handed out.
\<close>

theorem buddy_requests_inv:
  assumes "BuddyAllocator nodes m start sz = Some (b, m')"
    and al: "unat start mod 4096 = 0" "unat sz mod 4096 = 0"
    and rg: "0 < unat start" "unat start + unat sz < 2 ^ 64" "64 * 4096 \<le> unat sz" "unat sz \<le> 2 ^ 44"
    and nd: "unat nodes mod 8 = 0" "unat nodes + 33 * 32 \<le> 2 ^ 64"
      "unat nodes + 33 * 32 \<le> unat start \<or> unat start + unat sz \<le> unat nodes"
    and rs: "list_all (request_ok b) rs"
  shows "\<exists>b' m'' F A. serve_all rs (b, m') = Some (b', m'') \<and> tiled b' (blks F A) \<and> full_inv b' m'' F A \<and>
     \<not> b_lock b' \<and> alloc_size b' = of_nat (handed_bytes A)"
proof -
  have "accounted b m' (init_free start (unat (b_mem_size b) div 4096) 64) Map.empty"
    using BuddyAllocator_full [OF al rg nd, of m] assms(1) by (auto simp: accounted_def handed_bytes_def)
  from serve_all_accounted [OF this rs] show ?thesis by (auto simp: accounted_def full_inv_def)
qed

theorem buddy_requests_inv_witness:
  "\<exists>b m b' m' F A. BuddyAllocator 0x80200000 (\<lambda>_. 0) 0x80300000 0x40000 = Some (b, m) \<and>
     serve_all [Alloc 3, Alloc 1, Release 0x80303000, Release 0x80303000, Alloc 64, Release 0x80301800] (b, m) = Some (b', m') \<and>
     tiled b' (blks F A) \<and> alloc_size b' = of_nat (handed_bytes A)"
proof -
  obtain b m where b: "BuddyAllocator 0x80200000 (\<lambda>_. 0) 0x80300000 0x40000 = Some (b, m)"
    "ram_lo b = 0x80300000" "ram_hi b = 0x8033f000"
    by (rule small_range)
  from buddy_requests_inv [OF b(1), of "[Alloc 3, Alloc 1, Release 0x80303000, Release 0x80303000, Alloc 64, Release 0x80301800]"] b
  show ?thesis by fastforce
qed

end
