(* ===== verification/Spec2Isabelle.thy ===== *)
theory Spec2Isabelle
  imports Sys_Properties Printing Buddy_Release
begin

text \<open>
  A verification library for the kernel under \<^verbatim>\<open>kernel/\<close>, with the parts of \<^verbatim>\<open>hsai/\<close> and of the
  RISC-V QEMU board support \<^verbatim>\<open>hal/riscv/\<close> it rests on.

  \<^bold>\<open>The program.\<close> A monolithic kernel. The physical memory manager hands out pages
  of a buddy allocator; page tables are built from such pages, and the virtual memory manager maps,
  copies and frees address spaces with them. Processes own an address space, open files and a
  working directory; the process manager creates, copies, ends and schedules them; pipes and
  channels of the process manager block and wake them. Paths resolve through cached directory entries
  to nodes of mounted file systems. Programs trap into the kernel; the trap handler dispatches system calls to handlers that fetch
  their arguments from the trap frame and from user memory and call the managers. The printer formats kernel messages.

  \<^bold>\<open>Conventions.\<close> A C++ function is an Isabelle function on explicit state. Memory is a map from
  64-bit addresses to bytes (\<open>mem\<close>); objects that live in memory pages (page table entries,
  free-list nodes, trap frames) are read and written there, objects of the kernel image are
  records. A panic, a failed assertion, an access through a null pointer or outside an array,
  and a loop that does not end have the result \<open>None\<close>; error codes are values. Machine integers keep their width
  as words where they can wrap; C++ \<^verbatim>\<open>int\<close> values whose overflow is undefined are \<open>int\<close>. The
  kernel runs on one processor: a lock that the code takes is free, except in the buddy allocator, where the lock is
  part of the state because the code can leave it held.

  \<^bold>\<open>Theories, in the order of import.\<close>

  \<^item> \<open>Kernel_Prelude\<close>: machine types, memory with 32- and 64-bit accesses, lemmas on words.
  \<^item> \<open>Klib\<close>: \<^verbatim>\<open>kernel/klib/\<close> memory and string routines, bit helpers, \<^verbatim>\<open>math\<close>; each routine against
    a reference (block copy, string concatenation, exponentiation) and where it departs from it.
  \<^item> \<open>Pages\<close>: \<^verbatim>\<open>mem/page.hh\<close>, \<^verbatim>\<open>mm/memlayout.hh\<close>, \<^verbatim>\<open>hal/riscv/page.cc\<close>: rounding, index split of an
    address, entries.
  \<^item> \<open>Buddy\<close>, \<open>Buddy_Lists\<close>, \<open>Buddy_Correct\<close>: \<^verbatim>\<open>mm/buddy_algorithmn/\<close>, with its lists in free pages
    and its info bytes. \<open>buddy_inv\<close> relates memory to the abstract lists of free blocks; the
    constructor establishes it, allocation refines \<open>alloc_spec\<close>, a rejected release changes nothing.
  \<^item> \<open>Buddy_Tiling\<close>, \<open>Buddy_Release\<close>: the blocks, free or handed out, tile the range and are recorded in the info bytes; release
    refines \<open>free_spec\<close>, joins buddies up to their area and is total; any sequence of requests keeps the invariant.
  \<^item> \<open>Phys_Mem\<close>: \<^verbatim>\<open>mm/physical_memory_manager.cc\<close> over any page allocator that satisfies
    the locale \<open>virtual_page_allocator\<close>, interpreted by the buddy allocator.
  \<^item> \<open>Page_Tables\<close>, \<open>Virt_Mem\<close>, \<open>Virt_Mem_Correct\<close>: \<^verbatim>\<open>mm/page_table.cc\<close>,
    \<^verbatim>\<open>mm/virtual_memory_manager.cc\<close>: walks, mapping, copying between user and kernel memory.
  \<^item> \<open>User_Streams\<close>: \<^verbatim>\<open>mm/userspace_stream.cc\<close>, \<^verbatim>\<open>mm/userstack_stream.cc\<close>: streams over user memory, against \<open>copy_in\<close>.
  \<^item> \<open>Pipes\<close>: \<^verbatim>\<open>pm/ipc/\<close>. Operations are runs between two sleeps; \<open>pipe_reach\<close> interleaves the runs of any
    number of processes; the ring buffer interprets the locale \<open>bounded_queue\<close>.
  \<^item> \<open>Printing\<close>: \<^verbatim>\<open>klib/printer.cc\<close>: number output, format interpreter, log levels.
  \<^item> \<open>Paths\<close>: \<^verbatim>\<open>fs/dentry.cc\<close>, \<^verbatim>\<open>fs/dentrycache.cc\<close>, \<^verbatim>\<open>fs/path.cc\<close>: splitting, lookup, mount table.
  \<^item> \<open>Files\<close>: \<^verbatim>\<open>fs/file/\<close> and the nodes of \<^verbatim>\<open>fs/ramfs/\<close>, which interpret the locale \<open>node_contents\<close>;
    reference counts, reading, writing, seeking.
  \<^item> \<open>Processes\<close>, \<open>Process_Correct\<close>, \<open>Process_Properties\<close>: \<^verbatim>\<open>pm/process.cc\<close>, \<^verbatim>\<open>pm/scheduler.cc\<close> and the life cycle
    in \<^verbatim>\<open>pm/process_manager.cc\<close>. \<open>frame\<close> says which slots an operation may touch;
    \<open>kern_step\<close> and \<open>kern_reach\<close> interleave all operations and carry the invariant \<open>pool_ok\<close>.
  \<^item> \<open>Proc_Calls\<close>: the calls of the process manager behind the system calls: descriptors, files, pipes, memory, identity, limits.
  \<^item> \<open>Sys_Runs\<close>: \<^verbatim>\<open>tm/timer_manager.cc\<close>, \<^verbatim>\<open>pm/ipc/signal.cc\<close>, reading and writing of open files. A computation that may give the
    processor away is a \<open>run\<close>, a codatatype whose switch holds what is left to do in whatever state the process is resumed in.
  \<^item> \<open>System_Calls\<close>, \<open>Sys_Dispatch\<close>: \<^verbatim>\<open>syscall/syscall_handler.cc\<close>, the numbers and the table, and the traps from user mode of
    \<^verbatim>\<open>hal/riscv/exception_manager.cc\<close>.
  \<^item> \<open>Sys_Correct\<close>: every handler keeps the process table consistent, at its end and at each switch (\<open>run_safe\<close>,
    coinductive); rules for the constructs of handlers carry the proofs.
  \<^item> \<open>Sys_Properties\<close>: the machine, a step relation over traps, resumed runs, dispatching and ticks, with its invariant; a system
    call from the trap to its return, writing to a file from the registers to the contents, sleeping, the clock, and single calls.

  \<^bold>\<open>Parameters.\<close> What a file system answers for a node (\<open>inode_ops\<close>), what a stream device answers, mounting, the hardware clock, the
  kernel addresses of a call's local objects and of the buffers \<^verbatim>\<open>new\<close> gives it, the system calls that are not modelled, the back
  trace of the printer and addresses fixed by the linker are arguments of the definitions that use them. Of the calls that are not modelled
  the invariant of the machine takes only that they are safe themselves.

  \<^bold>\<open>Termination and fuel.\<close> Loops whose end depends on memory contents are
  \<^theory_text>\<open>partial_function (option)\<close>, all others have termination proofs; no definition uses fuel. The properties that an operation
  returns (allocation, copies, waking, waiting) are stated as equations or existence statements,
  not under the assumption that it returns, except where the operation can panic.

  \<^bold>\<open>Not modelled.\<close> Disk file systems and drivers, device registers, assembly entry and switch code, traps taken inside the kernel, ten
  system calls for loading of programs, file status, directory listings and polling, the second architecture and the K210 board; the
  vendored EASTL containers appear as lists, maps and strings. The machine leaves out the group exit: parent pointers to
  released slots can make a process its own ancestor there, and it would then release itself.
\<close>

end
